(* ===== verification/Ketone_Base.thy ===== *)
theory Ketone_Base
  imports Main "HOL-Library.Word"
begin

text \<open>
  Prelude of the Ketone development: the machine integer types of \<^verbatim>\<open>stdint.h\<close>, the
  faults a kernel routine can run into, the counted \<^verbatim>\<open>for\<close> loop over 64-bit
  indices, and the arithmetic of alignment and block rounding that the allocators and the memory
  map share.
\<close>

unbundle bit_operations_syntax

type_synonym u8 = "8 word"
type_synonym u16 = "16 word"
type_synonym u32 = "32 word"
type_synonym u64 = "64 word"

text \<open>
  What ends a routine other than its \<^verbatim>\<open>return\<close>: an access beyond the object it
  indexes (undefined in C), a division by zero (a CPU exception), a use of the null pointer where the
  model keeps typed objects, a call of \<^verbatim>\<open>halt()\<close>, a loop that never ends, and an
  expression that C leaves undefined (a shift by the width or more, a signed overflow).
\<close>

datatype fault = OutOfBounds | DivideByZero | NullDeref | Halted | Diverges | Undefined

type_synonym 'a result = "fault + 'a"

named_theorems word_nat "equations that move 64-bit expressions to natural numbers"

section \<open>Counted loops\<close>

lemma unat_Suc_less: "i < n \<Longrightarrow> unat (i + 1 :: u64) = Suc (unat i)"
  by unat_arith

lemma unat_step_less: "i < n \<Longrightarrow> unat n - unat (i + 1 :: u64) < unat n - unat i"
  by (simp add: unat_Suc_less word_less_nat_alt diff_less_mono2)

text \<open>\<^verbatim>\<open>for (uint64_t i = lo; i < hi; i++) s = body(i, s);\<close> for a body that cannot
  fail, and the same loop for a body that can.\<close>

function for_u64 :: "u64 \<Rightarrow> u64 \<Rightarrow> (u64 \<Rightarrow> 's \<Rightarrow> 's) \<Rightarrow> 's \<Rightarrow> 's" where
  "for_u64 i n body s = (if i < n then for_u64 (i + 1) n body (body i s) else s)"
  by pat_completeness auto
termination
  by (relation "measure (\<lambda>(i, n, _, _). unat n - unat i)") (auto simp: unat_step_less)

declare for_u64.simps [simp del]

function for_u64_r :: "u64 \<Rightarrow> u64 \<Rightarrow> (u64 \<Rightarrow> 's \<Rightarrow> 's result) \<Rightarrow> 's \<Rightarrow> 's result" where
  "for_u64_r i n body s =
     (if i < n then (case body i s of Inl f \<Rightarrow> Inl f | Inr s' \<Rightarrow> for_u64_r (i + 1) n body s')
      else Inr s)"
  by pat_completeness auto
termination
  by (relation "measure (\<lambda>(i, n, _, _). unat n - unat i)") (auto simp: unat_step_less)

declare for_u64_r.simps [simp del]

lemma for_u64_done [simp]: "\<not> i < n \<Longrightarrow> for_u64 i n body s = s"
  by (simp add: for_u64.simps)

lemma for_u64_step: "i < n \<Longrightarrow> for_u64 i n body s = for_u64 (i + 1) n body (body i s)"
  by (simp add: for_u64.simps)

text \<open>The loop rule: an invariant that holds at the start and that each pass carries from
  \<open>j\<close> to \<open>j + 1\<close> holds at the end. The counter is read as a natural number.\<close>

lemma for_u64_rule:
  assumes "i \<le> n" and "P (unat i) s"
    and "\<And>j t. unat i \<le> j \<Longrightarrow> j < unat n \<Longrightarrow> P j t \<Longrightarrow> P (Suc j) (body (word_of_nat j) t)"
  shows "P (unat n) (for_u64 i n body s)"
  using assms
proof (induction i n body s rule: for_u64.induct)
  case (1 i n body s)
  show ?case
  proof (cases "i < n")
    case True
    have step: "P (Suc (unat i)) (body i s)"
      using "1.prems"(3) [of "unat i" s] "1.prems"(2) True by (simp add: word_less_nat_alt)
    have "i + 1 \<le> n" using True by (metis inc_le)
    moreover have "P (unat (i + 1)) (body i s)" using step True by (simp add: unat_Suc_less)
    ultimately have "P (unat n) (for_u64 (i + 1) n body (body i s))"
      using "1.IH" [OF True] "1.prems"(3) True by (simp add: unat_Suc_less)
    then show ?thesis by (simp add: for_u64_step True)
  next
    case False
    with "1.prems"(1) have "i = n" by simp
    with "1.prems"(2) show ?thesis by simp
  qed
qed

lemma for_u64_r_rule:
  assumes "i \<le> n" and "P (unat i) s"
    and "\<And>j t. unat i \<le> j \<Longrightarrow> j < unat n \<Longrightarrow> P j t \<Longrightarrow>
          \<exists>t'. body (word_of_nat j) t = Inr t' \<and> P (Suc j) t'"
  shows "\<exists>t. for_u64_r i n body s = Inr t \<and> P (unat n) t"
  using assms
proof (induction i n body s rule: for_u64_r.induct)
  case (1 i n body s)
  show ?case
  proof (cases "i < n")
    case True
    obtain s' where s': "body i s = Inr s'" and P: "P (Suc (unat i)) s'"
      using "1.prems"(3) [of "unat i" s] "1.prems"(2) True by (auto simp: word_less_nat_alt)
    have "i + 1 \<le> n" using True by (metis inc_le)
    moreover have "P (unat (i + 1)) s'" using P True by (simp add: unat_Suc_less)
    ultimately have "\<exists>t. for_u64_r (i + 1) n body s' = Inr t \<and> P (unat n) t"
      using "1.IH" [OF True s'] "1.prems"(3) True by (simp add: unat_Suc_less)
    then show ?thesis by (simp add: for_u64_r.simps [of i] True s')
  next
    case False
    with "1.prems"(1) have "i = n" by simp
    with "1.prems"(2) show ?thesis by (simp add: for_u64_r.simps)
  qed
qed

section \<open>Alignment and rounding\<close>

text \<open>The rounding idiom \<^verbatim>\<open>(x + a - 1) & ~(a - 1)\<close>, in 64-bit arithmetic.\<close>

definition align_up :: "u64 \<Rightarrow> u64 \<Rightarrow> u64" where
  "align_up x a = (x + a - 1) AND NOT (a - 1)"

lemma unat_u64_less: "unat (x :: u64) < 2 ^ 64"
  using unsigned_less [of x, where ?'a = nat] by simp

lemma and_not_mask_eq: "(x :: u64) AND NOT (2 ^ k - 1) = push_bit k (drop_bit k x)"
proof -
  have "x AND NOT (mask k) = push_bit k (drop_bit k x)"
    by (rule bit_eqI) (auto simp: bit_simps)
  then show ?thesis by (simp add: mask_eq_exp_minus_1)
qed

lemma unat_clear_low: "unat ((x :: u64) AND NOT (2 ^ k - 1)) = unat x div 2 ^ k * 2 ^ k"
proof -
  have le: "unat x div 2 ^ k * 2 ^ k \<le> unat x"
    by (simp add: div_times_less_eq_dividend)
  have "unat (push_bit k (drop_bit k x)) = (unat x div 2 ^ k * 2 ^ k) mod 2 ^ 64"
    by (simp only: unsigned_push_bit_eq unat_drop_bit_eq)
      (simp add: push_bit_eq_mult drop_bit_eq_div take_bit_eq_mod)
  also have "\<dots> = unat x div 2 ^ k * 2 ^ k"
    using order_le_less_trans [OF le unat_u64_less] by (simp only: mod_less)
  finally show ?thesis by (simp add: and_not_mask_eq)
qed

lemma low_bits_nat: "unat ((x :: u64) AND (2 ^ k - 1)) = unat x mod 2 ^ k"
proof -
  have "unat (x AND mask k) = unat (take_bit k x)" by (simp only: take_bit_eq_mask)
  also have "\<dots> = take_bit k (unat x)" by (simp only: unsigned_take_bit_eq)
  finally show ?thesis by (simp add: mask_eq_exp_minus_1 take_bit_eq_mod)
qed

lemma power_two_test:
  assumes "a \<noteq> (0 :: u64)" and "a AND (a - 1) = 0"
  shows "\<exists>k<64. a = 2 ^ k"
proof -
  have pos: "1 \<le> unat a" using assms(1) by (simp add: unat_gt_0 Suc_leI)
  obtain k where k: "2 ^ k \<le> unat a" "unat a < 2 ^ (k + 1)"
    using ex_power_ivl1 [of 2 "unat a"] pos by auto
  have k64: "k < 64"
  proof (rule ccontr)
    assume "\<not> k < 64"
    then have "(2 :: nat) ^ 64 \<le> 2 ^ k" by (intro power_increasing) auto
    with k(1) unat_u64_less [of a] show False by simp
  qed
  have "unat a = 2 ^ k"
  proof (rule ccontr)
    assume ne: "unat a \<noteq> 2 ^ k"
    have m1: "unat (a - 1) = unat a - 1" using assms(1) by (rule unat_minus_one)
    have "unat a div 2 ^ k = 1" using k by (intro div_nat_eqI) auto
    moreover have "(unat a - 1) div 2 ^ k = 1" using k ne by (intro div_nat_eqI) auto
    ultimately have "bit (unat a) k" "bit (unat (a - 1)) k"
      by (simp_all add: bit_iff_odd m1)
    then have "bit (a AND (a - 1)) k" by (simp add: bit_and_iff bit_unsigned_iff)
    with assms(2) show False by simp
  qed
  then have "a = 2 ^ k" by (metis of_nat_unat ucast_id of_nat_numeral of_nat_power)
  with k64 show ?thesis by blast
qed

lemma unat_add_u64 [word_nat]: "unat x + unat y < 2 ^ 64 \<Longrightarrow> unat (x + y :: u64) = unat x + unat y"
  using unat_add_lem [of x y] by simp

lemma unat_mult_u64 [word_nat]: "unat x * unat y < 2 ^ 64 \<Longrightarrow> unat (x * y :: u64) = unat x * unat y"
  using unat_mult_lem [of x y] by simp

lemma unat_of_nat_u64 [word_nat]: "n < 2 ^ 64 \<Longrightarrow> unat (word_of_nat n :: u64) = n"
  by (simp add: unat_of_nat)

lemma pow2_u64_nat: "k < 64 \<Longrightarrow> unat (2 ^ k :: u64) = 2 ^ k"
  using unat_of_nat_u64 [of "2 ^ k"] power_strict_increasing [of k 64 "2 :: nat"] by simp

text \<open>Rounding up to a power of two, while the sum does not wrap: the result is a multiple, it
  is the first one at or after \<open>x\<close>, and no multiple lies strictly between.\<close>

lemma unat_align_up:
  assumes "k < 64" and "unat x + 2 ^ k - 1 < 2 ^ 64"
  shows "unat (align_up x (2 ^ k)) = (unat x + 2 ^ k - 1) div 2 ^ k * 2 ^ k"
proof -
  have "unat (2 ^ k - 1 :: u64) = 2 ^ k - 1"
    using pow2_u64_nat [OF assms(1)] by (metis power_not_zero unat_0 unat_minus_one zero_neq_numeral)
  then have "unat (x + (2 ^ k - 1)) = unat x + 2 ^ k - 1"
    using unat_add_u64 [of x "2 ^ k - 1"] assms(2) by simp
  then have "unat (x + 2 ^ k - 1) = unat x + 2 ^ k - 1"
    by (simp only: add_diff_eq)
  then show ?thesis by (simp add: align_up_def unat_clear_low)
qed

lemma ceil_mult_bounds:
  assumes "0 < (b :: nat)"
  shows "n \<le> (n + b - 1) div b * b" and "(n + b - 1) div b * b < n + b"
proof -
  have "(n + b - 1) div b * b + (n + b - 1) mod b = n + b - 1" by simp
  moreover have "(n + b - 1) mod b < b" using assms by simp
  ultimately show "n \<le> (n + b - 1) div b * b" and "(n + b - 1) div b * b < n + b"
    using assms by linarith+
qed

lemma no_multiple_between:
  assumes "0 < (b :: nat)" and "n \<le> m * b" and "m * b < (n + b - 1) div b * b"
  shows False
proof -
  have "m < (n + b - 1) div b" using assms(3) by simp
  then have "m * b + b \<le> (n + b - 1) div b * b"
    by (metis Suc_leI add.commute mult_Suc mult_le_mono1)
  with assms(2) ceil_mult_bounds(2) [OF assms(1), of n] show False by linarith
qed

lemma unat_inject: "unat x = unat y \<Longrightarrow> x = y"
  by (rule unsigned_word_eqI)

lemma align_up_word:
  assumes "k < 64"
  shows "align_up x (2 ^ k) = word_of_nat ((unat x + 2 ^ k - 1) div 2 ^ k * 2 ^ k)"
proof (cases "unat x + 2 ^ k - 1 < 2 ^ 64")
  case True
  then show ?thesis using unat_align_up [OF assms] by (metis of_nat_unat ucast_id)
next
  case False
  define r where "r = unat x + 2 ^ k - 1 - 2 ^ 64"
  have sum: "unat x + 2 ^ k - 1 = 2 ^ 64 + r" using False by (simp add: r_def)
  have "(0 :: nat) < 2 ^ k" by simp
  then have r: "r < 2 ^ k" using unat_u64_less [of x] unfolding r_def by linarith
  have m1: "(2 ^ k - 1 :: u64) = word_of_nat (2 ^ k - 1)" by (simp add: of_nat_diff)
  have "x + 2 ^ k - 1 = word_of_nat (unat x + (2 ^ k - 1))"
    by (simp only: of_nat_add of_nat_unat ucast_id m1 [symmetric] add_diff_eq)
  also have "unat x + (2 ^ k - 1) = 2 ^ 64 + r" using sum by simp
  also have "(word_of_nat (2 ^ 64 + r) :: u64) = word_of_nat r"
    by (rule unat_inject) (simp add: unat_of_nat del: of_nat_add)
  finally have sumw: "x + 2 ^ k - 1 = word_of_nat r" .
  have "r < 2 ^ 64" using r power_strict_increasing [OF assms, of "2 :: nat"] by simp
  then have "unat (align_up x (2 ^ k)) = 0"
    using r unfolding align_up_def sumw unat_clear_low by (simp add: unat_of_nat_u64)
  then have "align_up x (2 ^ k) = 0" by (simp add: unat_eq_zero)
  moreover have "(2 ^ 64 + r) div 2 ^ k * 2 ^ k = (2 :: nat) ^ 64"
  proof -
    have p: "2 ^ (64 - k) * 2 ^ k = (2 :: nat) ^ 64" using assms by (simp add: power_add [symmetric])
    have "(q * A + r) div A * A = q * A" if "r < A" for q A :: nat using that by simp
    from this [OF r, of "2 ^ (64 - k)"] show ?thesis by (simp only: p)
  qed
  ultimately show ?thesis unfolding sum by simp
qed

lemma aligned_test:
  assumes "k < 64"
  shows "x AND (2 ^ k - 1) = (0 :: u64) \<longleftrightarrow> 2 ^ k dvd unat x"
  by (metis low_bits_nat unat_0 unat_eq_zero dvd_eq_mod_eq_0)

text \<open>The alignment argument of the allocators: 0 stands for 1, and the test accepts the powers of
  two only.\<close>

lemma power_two_alignment:
  assumes "(if a = 0 then 1 else a) AND ((if a = 0 then 1 else a) - 1) = (0 :: u64)"
  obtains k where "k < 64" and "(if a = 0 then 1 else a) = 2 ^ k"
  using power_two_test [of "if a = 0 then 1 else a"] assms by (metis one_neq_zero)

section \<open>Searching a range\<close>

lemma find_upt_skip:
  assumes "i \<le> i'" and "\<And>s. i \<le> s \<Longrightarrow> s < i' \<Longrightarrow> s < m \<Longrightarrow> \<not> P s"
  shows "find P [i..<m] = find P [i'..<m]"
  using assms
proof (induction "i' - i" arbitrary: i)
  case 0
  then show ?case by simp
next
  case (Suc d)
  show ?case
  proof (cases "i < m")
    case True
    then have "find P [i..<m] = find P [Suc i..<m]"
      using Suc.prems(2) [of i] Suc.hyps(2) by (simp add: upt_conv_Cons)
    also have "\<dots> = find P [i'..<m]"
      using Suc.hyps Suc.prems by (intro Suc.hyps(1)) auto
    finally show ?thesis .
  next
    case False
    with Suc.prems(1) show ?thesis by simp
  qed
qed

lemma find_upt_first:
  assumes "find P [a..<b] = Some p"
  shows "a \<le> p \<and> p < b \<and> P p \<and> (\<forall>q. a \<le> q \<and> q < p \<longrightarrow> \<not> P q)"
proof -
  obtain i where i: "i < length [a..<b]" "P ([a..<b] ! i)" "p = [a..<b] ! i"
    "\<And>j. j < i \<Longrightarrow> \<not> P ([a..<b] ! j)"
    using assms unfolding find_Some_iff by blast
  then have p: "p = a + i" "p < b" by auto
  have "\<not> P q" if "a \<le> q" "q < p" for q
    using i(1) i(4) [of "q - a"] that p by (auto simp: less_diff_conv)
  with i p show ?thesis by auto
qed

end
