(* ===== verification/Io.thy ===== *)
theory Io
  imports Ketone_Base
begin

text \<open>
  Port input and output (\<^verbatim>\<open>io/io.c\<close>) and the history of device accesses. The four routines are single machine
  instructions; what a read returns is up to the hardware. The state is the history of port accesses,
  latest first, and the hardware is any function that answers a read from the history before it: the
  parameter \<open>dev\<close> of every definition that reads a port. Memory-mapped registers are recorded in
  the same history, as \<open>RegR\<close> and \<open>RegW\<close>, with \<open>RegR16\<close> and
  \<open>RegW16\<close> for accesses of 16 bits.
\<close>

datatype io_event = OutB u16 u8 | InB u16 u8 | OutW u16 u16 | InW u16 u16 | RegR u64 u32 | RegW u64 u32
  | RegR16 u64 u16 | RegW16 u64 u16

type_synonym history = "io_event list"
type_synonym ports = "history \<Rightarrow> u16 \<Rightarrow> u16"

definition outb :: "u16 \<Rightarrow> u8 \<Rightarrow> history \<Rightarrow> history" where
  "outb port val tr = OutB port val # tr"

definition inb :: "ports \<Rightarrow> u16 \<Rightarrow> history \<Rightarrow> u8 \<times> history" where
  "inb dev port tr = (let v = ucast (dev tr port) in (v, InB port v # tr))"

definition inw :: "ports \<Rightarrow> u16 \<Rightarrow> history \<Rightarrow> u16 \<times> history" where
  "inw dev port tr = (let v = dev tr port in (v, InW port v # tr))"

definition outw :: "u16 \<Rightarrow> u16 \<Rightarrow> history \<Rightarrow> history" where
  "outw port val tr = OutW port val # tr"

text \<open>The bytes written to one port, oldest first.\<close>

fun sent_to :: "u16 \<Rightarrow> history \<Rightarrow> u8 list" where
  "sent_to port [] = []"
| "sent_to port (OutB p v # tr) = sent_to port tr @ (if p = port then [v] else [])"
| "sent_to port (InB p v # tr) = sent_to port tr"
| "sent_to port (OutW p v # tr) = sent_to port tr"
| "sent_to port (InW p v # tr) = sent_to port tr"
| "sent_to port (RegR a r # tr) = sent_to port tr"
| "sent_to port (RegW a r # tr) = sent_to port tr"
| "sent_to port (RegR16 a w # tr) = sent_to port tr"
| "sent_to port (RegW16 a w # tr) = sent_to port tr"

lemma sent_to_io [simp]:
  "sent_to q (outb p v tr) = sent_to q tr @ (if p = q then [v] else [])"
  "sent_to q (snd (inb dev p tr)) = sent_to q tr"
  "sent_to q (snd (inw dev p tr)) = sent_to q tr"
  "sent_to q (outw p w tr) = sent_to q tr"
  by (simp_all add: outb_def inb_def inw_def outw_def Let_def)

end
