(* ===== verification/Utils.thy ===== *)
theory Utils
  imports Ketone_Base
begin

text \<open>
  The string and memory routines of \<^verbatim>\<open>utils.c\<close>. Memory is a function from 64-bit
  addresses to bytes. A pointer that is only read through is modelled by what it sees: the byte at
  each offset (\<open>at m p\<close> for a pointer into memory), so that the routines also apply to local
  arrays.
\<close>

type_synonym memory = "u64 \<Rightarrow> u8"
type_synonym bytes_at = "u64 \<Rightarrow> u8"

abbreviation at :: "memory \<Rightarrow> u64 \<Rightarrow> bytes_at" where
  "at m p \<equiv> \<lambda>k. m (p + k)"

section \<open>Operations\<close>

text \<open>\<^verbatim>\<open>while (*a && (*a == *b))\<close>: the loop goes on for ever over two memories
  that agree and hold no NUL.\<close>

partial_function (option) strcmp_from :: "bytes_at \<Rightarrow> bytes_at \<Rightarrow> u64 \<Rightarrow> int option" where
  "strcmp_from a b k =
     (if a k \<noteq> 0 \<and> a k = b k then strcmp_from a b (k + 1) else Some (uint (a k) - uint (b k)))"

declare strcmp_from.simps [code]

definition strcmp :: "bytes_at \<Rightarrow> bytes_at \<Rightarrow> int option" where
  "strcmp a b = strcmp_from a b 0"

function memcmp_from :: "bytes_at \<Rightarrow> bytes_at \<Rightarrow> u64 \<Rightarrow> u64 \<Rightarrow> int" where
  "memcmp_from x y n i =
     (if i < n then if x i \<noteq> y i then uint (x i) - uint (y i) else memcmp_from x y n (i + 1)
      else 0)"
  by pat_completeness auto
termination
  by (relation "measure (\<lambda>(_, _, n, i). unat n - unat i)") (auto simp: unat_step_less)

declare memcmp_from.simps [simp del]

definition memcmp :: "bytes_at \<Rightarrow> bytes_at \<Rightarrow> u64 \<Rightarrow> int" where
  "memcmp a b n = memcmp_from a b n 0"

text \<open>\<^verbatim>\<open>memcpy(src, dest, size)\<close>: the source comes first, unlike the C
  library's.\<close>

definition memcpy :: "u64 \<Rightarrow> u64 \<Rightarrow> u64 \<Rightarrow> memory \<Rightarrow> memory" where
  "memcpy src dest sz = for_u64 0 sz (\<lambda>i m. m(dest + i := m (src + i)))"

text \<open>The counter of \<^verbatim>\<open>memset\<close> runs over addresses, from \<^verbatim>\<open>ptr\<close> to
  \<^verbatim>\<open>ptr + n\<close>, and the body indexes \<^verbatim>\<open>ptr\<close> with it.\<close>

definition memset :: "u64 \<Rightarrow> u8 \<Rightarrow> u64 \<Rightarrow> memory \<Rightarrow> memory" where
  "memset ptr c n = for_u64 ptr (ptr + n) (\<lambda>i m. m(ptr + i := c))"

section \<open>Strings\<close>

text \<open>The bytes at a pointer are the string \<open>s\<close> and its terminating NUL.\<close>

definition holds_string :: "bytes_at \<Rightarrow> u8 list \<Rightarrow> bool" where
  "holds_string a s \<longleftrightarrow>
     length s < 2 ^ 64 \<and> list_all (\<lambda>x. x \<noteq> 0) s \<and> a (word_of_nat (length s)) = 0 \<and>
     list_all (\<lambda>k. a (word_of_nat k) = s ! k) [0..<length s]"

abbreviation byte_lex :: "(u8 list \<times> u8 list) set" where
  "byte_lex \<equiv> lexord {(x, y). x < y}"

lemma holds_stringD:
  assumes "holds_string a s"
  shows "length s < 2 ^ 64" "a (word_of_nat (length s)) = 0"
    and "k < length s \<Longrightarrow> a (word_of_nat k) = s ! k" "k < length s \<Longrightarrow> s ! k \<noteq> 0"
  using assms by (simp_all add: holds_string_def list_all_iff)

text \<open>The comparison from offset \<open>k\<close> on, where the strings agree so far.\<close>

lemma strcmp_from_spec:
  assumes "holds_string a s" and "holds_string b t" and "k \<le> length s" and "k \<le> length t"
  shows "\<exists>r. strcmp_from a b (word_of_nat k) = Some r \<and>
     (r = 0 \<longleftrightarrow> drop k s = drop k t) \<and> (r < 0 \<longleftrightarrow> (drop k s, drop k t) \<in> byte_lex)"
  using assms(3,4)
proof (induction "length s - k" arbitrary: k)
  case 0
  then have k: "k = length s" by simp
  note a0 = holds_stringD(2) [OF assms(1)]
  have "strcmp_from a b (word_of_nat k) = Some (- uint (b (word_of_nat k)))"
    by (subst strcmp_from.simps) (simp add: k a0)
  moreover have "b (word_of_nat k) = 0 \<longleftrightarrow> drop k t = []"
    using holds_stringD(2-4) [OF assms(2)] 0(3) by (cases "k = length t") auto
  moreover have "([], drop k t) \<in> byte_lex \<longleftrightarrow> drop k t \<noteq> []"
    by (cases "drop k t") simp_all
  moreover have "- uint (b (word_of_nat k)) < 0 \<longleftrightarrow> b (word_of_nat k) \<noteq> 0"
    by (simp add: uint_0_iff less_le)
  moreover have "- uint (b (word_of_nat k)) = 0 \<longleftrightarrow> b (word_of_nat k) = 0"
    by (simp add: uint_0_iff)
  moreover have "drop k s = []" using k by simp
  ultimately show ?case by (metis (no_types))
next
  case (Suc d)
  then have ks: "k < length s" by simp
  note av = holds_stringD(3,4) [OF assms(1) ks]
  note ds = Cons_nth_drop_Suc [OF ks, symmetric]
  show ?case
  proof (cases "k < length t")
    case False
    then have kt: "k = length t" using Suc.prems by simp
    note b0 = holds_stringD(2) [OF assms(2)]
    have "strcmp_from a b (word_of_nat k) = Some (uint (s ! k))"
      using av by (subst strcmp_from.simps) (simp add: kt b0)
    then show ?thesis using av(2) kt ds by (simp add: uint_0_iff)
  next
    case kt: True
    note bv = holds_stringD(3,4) [OF assms(2) kt]
    note dt = Cons_nth_drop_Suc [OF kt, symmetric]
    show ?thesis
    proof (cases "s ! k = t ! k")
      case True
      have "strcmp_from a b (word_of_nat k) = strcmp_from a b (word_of_nat (Suc k))"
        using av bv True by (simp add: strcmp_from.simps [of a b "word_of_nat k"] add.commute)
      then show ?thesis
        using Suc.hyps(1) [of "Suc k"] Suc.hyps(2) ks kt True by (simp add: ds dt)
    next
      case False
      have "strcmp_from a b (word_of_nat k) = Some (uint (s ! k) - uint (t ! k))"
        using av bv False by (simp add: strcmp_from.simps [of a b "word_of_nat k"])
      then show ?thesis
        using False by (auto simp: ds dt word_less_def unsigned_word_eqI)
    qed
  qed
qed

section \<open>Blocks of memory\<close>

lemma memcmp_from_zero:
  "i \<le> n \<Longrightarrow> memcmp_from x y n i = 0 \<longleftrightarrow>
     (\<forall>k. unat i \<le> k \<and> k < unat n \<longrightarrow> x (word_of_nat k) = y (word_of_nat k))"
proof (induction x y n i rule: memcmp_from.induct)
  case (1 x y n i)
  show ?case
  proof (cases "i < n")
    case False
    with "1.prems" show ?thesis by (auto simp: memcmp_from.simps)
  next
    case True
    have lt: "unat i < unat n" using True by (simp add: word_less_nat_alt)
    have i1: "unat (i + 1) = Suc (unat i)" using True by (rule unat_Suc_less)
    show ?thesis
    proof (cases "x i = y i")
      case eq: True
      have "(\<forall>k. Suc (unat i) \<le> k \<and> k < unat n \<longrightarrow> x (word_of_nat k) = y (word_of_nat k)) \<longleftrightarrow>
          (\<forall>k. unat i \<le> k \<and> k < unat n \<longrightarrow> x (word_of_nat k) = y (word_of_nat k))"
        using eq by (auto simp: Suc_le_eq dest: le_neq_implies_less)
      then show ?thesis
        using "1.IH" [OF True] eq True inc_le [OF True]
        by (simp add: memcmp_from.simps [of x y n i] i1)
    next
      case False
      then have "uint (x i) \<noteq> uint (y i)" by (metis word_uint_eqI)
      then show ?thesis using False True lt by (auto simp: memcmp_from.simps [of x y n i] intro!: exI [of _ "unat i"])
    qed
  qed
qed

lemma word_of_nat_inj:
  "j < 2 ^ 64 \<Longrightarrow> k < 2 ^ 64 \<Longrightarrow> (word_of_nat j :: u64) = word_of_nat k \<Longrightarrow> j = k"
  by (metis unat_of_nat_u64)

text \<open>The state after \<open>j\<close> passes of the two copying loops.\<close>

lemma memcpy_loop:
  assumes "\<And>i j. i < j \<Longrightarrow> j < unat sz \<Longrightarrow> src + word_of_nat j \<noteq> dest + word_of_nat i"
  shows "memcpy src dest sz m =
    (\<lambda>a. if \<exists>i<unat sz. a = dest + word_of_nat i then m (src + (a - dest)) else m a)"
  unfolding memcpy_def
proof (rule for_u64_rule [where P = "\<lambda>j t. t =
    (\<lambda>a. if \<exists>i<j. a = dest + word_of_nat i then m (src + (a - dest)) else m a)"])
  fix j t
  assume j: "j < unat sz"
    and t: "t = (\<lambda>a. if \<exists>i<j. a = dest + word_of_nat i then m (src + (a - dest)) else m a)"
  have "t (src + word_of_nat j) = m (src + word_of_nat j)"
    using assms j by (auto simp: t)
  then show "t(dest + word_of_nat j := t (src + word_of_nat j)) =
      (\<lambda>a. if \<exists>i<Suc j. a = dest + word_of_nat i then m (src + (a - dest)) else m a)"
    by (auto simp: t less_Suc_eq fun_eq_iff)
qed (auto simp: fun_eq_iff)

lemma memset_loop:
  assumes "ptr \<le> ptr + n"
  shows "memset ptr c n m =
    (\<lambda>a. if \<exists>i<unat n. a = ptr + (ptr + word_of_nat i) then c else m a)"
proof -
  have sum: "unat (ptr + n) = unat ptr + unat n"
    using assms by (simp only: no_olen_add_nat unat_add_lem)
  have "memset ptr c n m =
    (\<lambda>a. if \<exists>i<unat (ptr + n) - unat ptr. a = ptr + (ptr + word_of_nat i) then c else m a)"
    unfolding memset_def
  proof (rule for_u64_rule [where P = "\<lambda>j t. t =
      (\<lambda>a. if \<exists>i<j - unat ptr. a = ptr + (ptr + word_of_nat i) then c else m a)"])
    show "ptr \<le> ptr + n" by (rule assms)
  next
    fix j t
    assume j: "unat ptr \<le> j" "j < unat (ptr + n)"
      and t: "t = (\<lambda>a. if \<exists>i<j - unat ptr. a = ptr + (ptr + word_of_nat i) then c else m a)"
    have wj: "word_of_nat j = ptr + (word_of_nat (j - unat ptr) :: u64)"
      using j(1) by (simp add: of_nat_diff)
    have less: "i < Suc j - unat ptr \<longleftrightarrow> i < j - unat ptr \<or> i = j - unat ptr" for i
      using j(1) by (auto simp: Suc_diff_le less_Suc_eq)
    show "t(ptr + word_of_nat j := c) =
        (\<lambda>a. if \<exists>i<Suc j - unat ptr. a = ptr + (ptr + word_of_nat i) then c else m a)"
      unfolding wj t less by (auto simp: fun_eq_iff)
  qed simp
  then show ?thesis using sum by simp
qed

section \<open>Properties\<close>

text \<open>
  C29. \<^verbatim>\<open>strcmp\<close> of two NUL-terminated strings returns; the result is zero for equal
  strings only and negative exactly when the first precedes the second in the order of the byte
  values.
\<close>

theorem strcmp_correct:
  assumes "holds_string a s" and "holds_string b t"
  shows "\<exists>r. strcmp a b = Some r \<and> (r = 0 \<longleftrightarrow> s = t) \<and> (r < 0 \<longleftrightarrow> (s, t) \<in> byte_lex)"
  using strcmp_from_spec [OF assms, of 0] by (simp add: strcmp_def)

theorem strcmp_correct_witness:
  "\<exists>r. strcmp ((\<lambda>_. 0)(0 := 97, 1 := 98)) ((\<lambda>_. 0)(0 := 97)) = Some r \<and>
     (r = 0 \<longleftrightarrow> [97, 98] = [97 :: u8]) \<and> (r < 0 \<longleftrightarrow> ([97, 98], [97]) \<in> byte_lex)"
  by (rule strcmp_correct) (simp_all add: holds_string_def upt_rec)

text \<open>
  C30. \<^verbatim>\<open>memcmp\<close> returns zero exactly when the two blocks hold the same bytes.
\<close>

theorem memcmp_zero_iff:
  "memcmp a b n = 0 \<longleftrightarrow> (\<forall>k<unat n. a (word_of_nat k) = b (word_of_nat k))"
  using memcmp_from_zero [of 0 n a b] by (simp add: memcmp_def)

lemma memcmp_zero_iff_witness:
  "memcmp ((\<lambda>_. 0)(0 := 1)) ((\<lambda>_. 0)(0 := 1, 7 := 9)) 4 = 0 \<and>
   memcmp ((\<lambda>_. 0)(0 := 1)) ((\<lambda>_. 0)(0 := 1, 3 := 9)) 4 \<noteq> 0"
proof -
  have k: "k \<in> {0, 1, 2, 3}" if "k < unat (4 :: u64)" for k using that by auto
  have "(word_of_nat k :: u64) \<noteq> 7" if "k < unat (4 :: u64)" for k using k [OF that] by auto
  moreover have "(3 :: nat) < unat (4 :: u64)" by simp
  ultimately show ?thesis
    using memcmp_zero_iff [of "(\<lambda>_. 0)(0 := 1)" "(\<lambda>_. 0)(0 := 1, 7 := 9)" 4]
      memcmp_zero_iff [of "(\<lambda>_. 0)(0 := 1)" "(\<lambda>_. 0)(0 := 1, 3 := 9)" 4]
    by (auto intro: exI [of _ 3])
qed

text \<open>
  C31. \<^verbatim>\<open>memcpy\<close> copies the source block to the destination and changes nothing
  else, when no source byte is overwritten before it is read (so also for a destination that
  overlaps the source from below).
\<close>

theorem memcpy_copies:
  assumes "\<And>i j. i < j \<Longrightarrow> j < unat sz \<Longrightarrow> src + word_of_nat j \<noteq> dest + word_of_nat i"
  shows "(\<forall>k<unat sz. memcpy src dest sz m (dest + word_of_nat k) = m (src + word_of_nat k)) \<and>
     (\<forall>a. (\<forall>k<unat sz. a \<noteq> dest + word_of_nat k) \<longrightarrow> memcpy src dest sz m a = m a)"
  using memcpy_loop [OF assms] by auto

text \<open>Three bytes moved down by one, over themselves.\<close>

theorem memcpy_copies_witness:
  "memcpy 101 100 3 ucast 100 = 101 \<and> memcpy 101 100 3 ucast 101 = 102 \<and> memcpy 101 100 3 ucast 102 = 103 \<and>
   memcpy 101 100 3 ucast 103 = 103"
proof -
  have three: "i = 0 \<or> i = 1 \<or> i = 2" if "i < unat (3 :: u64)" for i using that by auto
  have apart: "101 + word_of_nat j \<noteq> (100 :: u64) + word_of_nat i" if "i < j" "j < unat (3 :: u64)" for i j
    using three [OF that(2)] three [of i] that by auto
  note copies = memcpy_copies [of "3 :: u64" 101 100 ucast, OF apart, simplified]
  have "memcpy 101 100 3 ucast 100 = 101" "memcpy 101 100 3 ucast 101 = 102" "memcpy 101 100 3 ucast 102 = 103"
    using copies [THEN conjunct1, rule_format, of 0] copies [THEN conjunct1, rule_format, of 1]
      copies [THEN conjunct1, rule_format, of 2] by simp_all
  moreover have "(103 :: u64) \<noteq> 100 + word_of_nat k" if "k < unat (3 :: u64)" for k using three [OF that] by auto
  ultimately show ?thesis using copies by simp
qed

text \<open>
  C32. What \<^verbatim>\<open>memset\<close> writes: the \<^verbatim>\<open>n\<close> bytes that start at
  twice the address it is given, and nothing else. The block at \<^verbatim>\<open>ptr\<close> itself is
  left alone unless it happens to overlap them.
\<close>

theorem memset_exact:
  assumes "unat ptr + unat n < 2 ^ 64"
  shows "memset ptr c n m a = (if \<exists>k<unat n. a = 2 * ptr + word_of_nat k then c else m a)"
proof -
  have "ptr \<le> ptr + n" using assms by (simp add: word_le_nat_alt unat_add_u64)
  then show ?thesis by (simp only: memset_loop add.assoc [symmetric] mult_2)
qed

theorem memset_exact_witness:
  "memset 1000 0 4 (\<lambda>_. 7) 1000 = 7 \<and> memset 1000 0 4 (\<lambda>_. 7) 2001 = 0"
proof -
  have b: "unat (1000 :: u64) + unat (4 :: u64) < 2 ^ 64" by simp
  have "\<not> (\<exists>k<unat (4 :: u64). (1000 :: u64) = 2 * 1000 + word_of_nat k)"
  proof
    assume "\<exists>k<unat (4 :: u64). (1000 :: u64) = 2 * 1000 + word_of_nat k"
    then obtain k where "k < 4" and k: "(1000 :: u64) = 2 * 1000 + word_of_nat k" by auto
    then have "k = 0 \<or> k = 1 \<or> k = 2 \<or> k = 3" by linarith
    with k show False by (elim disjE) simp_all
  qed
  moreover have "\<exists>k<unat (4 :: u64). (2001 :: u64) = 2 * 1000 + word_of_nat k"
    by (rule exI [of _ 1]) simp
  ultimately show ?thesis by (simp only: memset_exact [OF b] if_True if_False)
qed

end
