(* ===== verification/Serial.thy ===== *)
theory Serial
  imports Io Utils
begin

text \<open>
  The serial console (\<^verbatim>\<open>io/serial/serial.c\<close>) on the ports of COM1. A character is
  sent once the line status register says that the transmitter is free; a device that never says so
  keeps \<^verbatim>\<open>serial_write\<close> waiting for ever, which is the result \<open>None\<close>.
\<close>

definition COM1 :: u16 where
  "COM1 = 0x3F8"

section \<open>Operations\<close>

definition serial_init :: "history \<Rightarrow> history" where
  "serial_init tr =
     outb (COM1 + 4) 0x0B
    (outb (COM1 + 2) 0xC7
    (outb (COM1 + 3) 0x03
    (outb (COM1 + 1) 0x00
    (outb (COM1 + 0) 0x03
    (outb (COM1 + 3) 0x80
    (outb (COM1 + 1) 0x00 tr))))))"

definition serial_ready :: "ports \<Rightarrow> history \<Rightarrow> bool \<times> history" where
  "serial_ready dev tr = (let (v, tr') = inb dev (COM1 + 5) tr in (v AND 0x20 \<noteq> 0, tr'))"

partial_function (option) serial_wait :: "ports \<Rightarrow> history \<Rightarrow> history option" where
  "serial_wait dev tr =
     (let (ready, tr') = serial_ready dev tr in if ready then Some tr' else serial_wait dev tr')"

declare serial_wait.simps [code]

definition serial_write :: "ports \<Rightarrow> u8 \<Rightarrow> history \<Rightarrow> history option" where
  "serial_write dev c tr =
     (case serial_wait dev tr of None \<Rightarrow> None | Some tr' \<Rightarrow> Some (outb COM1 c tr'))"

partial_function (option) serial_print_from :: "ports \<Rightarrow> bytes_at \<Rightarrow> u64 \<Rightarrow> history \<Rightarrow> history option" where
  "serial_print_from dev s k tr =
     (if s k \<noteq> 0 then
        (case serial_write dev (s k) tr of
           None \<Rightarrow> None | Some tr' \<Rightarrow> serial_print_from dev s (k + 1) tr')
      else Some tr)"

declare serial_print_from.simps [code]

definition serial_print :: "ports \<Rightarrow> bytes_at \<Rightarrow> history \<Rightarrow> history option" where
  "serial_print dev s = serial_print_from dev s 0"

text \<open>A string constant of the source as the array it is.\<close>

definition literal :: "string \<Rightarrow> bytes_at" where
  "literal s k = (if unat k < length s then of_char (s ! unat k) else 0)"

definition hex_digits :: string where
  "hex_digits = ''0123456789ABCDEF''"

text \<open>The digit loops of \<^verbatim>\<open>serial_print_hex\<close> and
  \<^verbatim>\<open>serial_print_hex64\<close>, which differ in the width of the value and in where
  \<^verbatim>\<open>i\<close> starts.\<close>

function hex_loop :: "ports \<Rightarrow> ('a::len) word \<Rightarrow> int \<Rightarrow> history \<Rightarrow> history option" where
  "hex_loop dev val i tr =
     (if 0 \<le> i then
        (case serial_write dev (of_char (hex_digits ! unat (drop_bit (nat i) val AND 0xF))) tr of
           None \<Rightarrow> None | Some tr' \<Rightarrow> hex_loop dev val (i - 4) tr')
      else Some tr)"
  by pat_completeness auto
termination
  by (relation "measure (\<lambda>(_, _, i, _). nat (i + 4))") auto

declare hex_loop.simps [simp del]

definition serial_print_hex :: "ports \<Rightarrow> u32 \<Rightarrow> history \<Rightarrow> history option" where
  "serial_print_hex dev val tr =
     (case serial_print dev (literal ''0x'') tr of
        None \<Rightarrow> None | Some tr' \<Rightarrow> hex_loop dev val 28 tr')"

definition serial_print_hex64 :: "ports \<Rightarrow> u64 \<Rightarrow> history \<Rightarrow> history option" where
  "serial_print_hex64 dev val tr =
     (case serial_print dev (literal ''0x'') tr of
        None \<Rightarrow> None | Some tr' \<Rightarrow> hex_loop dev val 60 tr')"

text \<open>\<^verbatim>\<open>while (value > 0) { buf[--i] = '0' + value % 10; value /= 10; }\<close> on the
  21-byte local \<^verbatim>\<open>buf\<close>; writing below its first element would be outside it.\<close>

fun dec_loop :: "u32 \<Rightarrow> nat \<Rightarrow> u8 list \<Rightarrow> (nat \<times> u8 list) result" where
  "dec_loop val i buf =
     (if 0 < val then
        (if i = 0 then Inl OutOfBounds
         else dec_loop (val div 10) (i - 1) (buf[i - 1 := 48 + ucast (val mod 10)]))
      else Inr (i, buf))"

declare dec_loop.simps [simp del]

definition serial_print_dec :: "ports \<Rightarrow> u32 \<Rightarrow> u8 list \<Rightarrow> history \<Rightarrow> history option result" where
  "serial_print_dec dev val raw tr =
     (let buf = raw[20 := 0] in
      if val = 0 then Inr (serial_print dev (literal ''0'') tr)
      else (case dec_loop val 20 buf of
              Inl f \<Rightarrow> Inl f
            | Inr (i, buf') \<Rightarrow>
                Inr (serial_print dev (\<lambda>k. if i + unat k < length buf' then buf' ! (i + unat k) else 0) tr)))"

definition newline :: string where
  "newline = [CHR 0x0A]"

definition serial_printLN :: "ports \<Rightarrow> bytes_at \<Rightarrow> history \<Rightarrow> history option" where
  "serial_printLN dev s tr =
     (case serial_print dev s tr of None \<Rightarrow> None | Some tr' \<Rightarrow> serial_print dev (literal newline) tr')"

definition serial_print_hexLN :: "ports \<Rightarrow> u32 \<Rightarrow> history \<Rightarrow> history option" where
  "serial_print_hexLN dev val tr =
     (case serial_print_hex dev val tr of
        None \<Rightarrow> None | Some tr' \<Rightarrow> serial_print dev (literal newline) tr')"

definition serial_print_hex64LN :: "ports \<Rightarrow> u64 \<Rightarrow> history \<Rightarrow> history option" where
  "serial_print_hex64LN dev val tr =
     (case serial_print_hex64 dev val tr of
        None \<Rightarrow> None | Some tr' \<Rightarrow> serial_print dev (literal newline) tr')"

definition serial_print_decLN :: "ports \<Rightarrow> u32 \<Rightarrow> u8 list \<Rightarrow> history \<Rightarrow> history option result" where
  "serial_print_decLN dev val raw tr =
     (case serial_print_dec dev val raw tr of
        Inl f \<Rightarrow> Inl f
      | Inr None \<Rightarrow> Inr None
      | Inr (Some tr') \<Rightarrow> Inr (serial_print dev (literal newline) tr'))"

end
