(* ===== verification/Serial_Props.thy ===== *)
theory Serial_Props
  imports Serial
begin

text \<open>
  What the serial routines transmit. A UART that answers the status polls lets every routine
  return, and the bytes written to the data port are exactly the text. \<open>text_output\<close> is the
  interface the other components print through: they record text on an abstract console, and the
  interpretation at the end shows that the port routines implement it.
\<close>

section \<open>The interface for printing\<close>

fun emit_all :: "('s \<Rightarrow> u8 list \<Rightarrow> 's option) \<Rightarrow> 's \<Rightarrow> u8 list list \<Rightarrow> 's option" where
  "emit_all emit st [] = Some st"
| "emit_all emit st (t # ts) = (case emit st t of None \<Rightarrow> None | Some st' \<Rightarrow> emit_all emit st' ts)"

locale text_output =
  fixes ready :: "'s \<Rightarrow> bool" and printable :: "u8 list \<Rightarrow> bool"
    and emit :: "'s \<Rightarrow> u8 list \<Rightarrow> 's option" and shown :: "'s \<Rightarrow> u8 list"
  assumes emit_shown: "ready st \<Longrightarrow> printable t \<Longrightarrow>
    \<exists>st'. emit st t = Some st' \<and> ready st' \<and> shown st' = shown st @ t"
begin

lemma emit_all_shown:
  "ready st \<Longrightarrow> list_all printable ts \<Longrightarrow>
     \<exists>st'. emit_all emit st ts = Some st' \<and> ready st' \<and> shown st' = shown st @ concat ts"
proof (induction ts arbitrary: st)
  case Nil
  then show ?case by simp
next
  case (Cons t ts)
  from emit_shown [of st t] Cons.prems obtain st1 where
    "emit st t = Some st1" "ready st1" "shown st1 = shown st @ t" by auto
  with Cons.IH [of st1] Cons.prems show ?case by auto
qed

end

section \<open>Waiting and writing\<close>

text \<open>The history after \<open>n\<close> polls that found the transmitter busy, and a device on which
  polling comes to an end whatever happened before.\<close>

definition polled :: "ports \<Rightarrow> nat \<Rightarrow> history \<Rightarrow> history" where
  "polled dev n tr = ((\<lambda>t. snd (serial_ready dev t)) ^^ n) tr"

definition uart_responds :: "ports \<Rightarrow> bool" where
  "uart_responds dev \<longleftrightarrow> (\<forall>tr. \<exists>n. fst (serial_ready dev (polled dev n tr)))"

lemma sent_serial_ready [simp]: "sent_to q (snd (serial_ready dev tr)) = sent_to q tr"
  by (simp add: serial_ready_def split_beta)

lemma serial_wait_after:
  "fst (serial_ready dev (polled dev n tr)) \<Longrightarrow>
     \<exists>tr'. serial_wait dev tr = Some tr' \<and> sent_to q tr' = sent_to q tr"
proof (induction n arbitrary: tr)
  case 0
  then show ?case by (simp add: polled_def serial_wait.simps [of dev tr] split_beta)
next
  case (Suc n)
  show ?case
  proof (cases "fst (serial_ready dev tr)")
    case True
    then show ?thesis by (simp add: serial_wait.simps [of dev tr] split_beta)
  next
    case False
    have "fst (serial_ready dev (polled dev n (snd (serial_ready dev tr))))"
      using Suc.prems by (simp only: polled_def funpow_Suc_right o_apply)
    from Suc.IH [OF this] False show ?thesis
      by (simp add: serial_wait.simps [of dev tr] split_beta)
  qed
qed

lemma serial_write_ok:
  assumes "uart_responds dev"
  shows "\<exists>tr'. serial_write dev c tr = Some tr' \<and> sent_to COM1 tr' = sent_to COM1 tr @ [c]"
proof -
  from assms obtain n where "fst (serial_ready dev (polled dev n tr))" by (auto simp: uart_responds_def)
  from serial_wait_after [OF this] show ?thesis by (force simp: serial_write_def)
qed

lemma serial_print_from_ok:
  assumes "uart_responds dev" and "holds_string a s" and "k \<le> length s"
  shows "\<exists>tr'. serial_print_from dev a (word_of_nat k) tr = Some tr' \<and>
           sent_to COM1 tr' = sent_to COM1 tr @ drop k s"
  using assms(3)
proof (induction "length s - k" arbitrary: k tr)
  case 0
  then have k: "k = length s" by simp
  show ?case
    using holds_stringD(2) [OF assms(2)] by (subst serial_print_from.simps) (simp add: k)
next
  case (Suc d)
  then have ks: "k < length s" by simp
  note av = holds_stringD(3,4) [OF assms(2) ks]
  obtain tr1 where w: "serial_write dev (s ! k) tr = Some tr1"
    "sent_to COM1 tr1 = sent_to COM1 tr @ [s ! k]"
    using serial_write_ok [OF assms(1)] by blast
  have "\<exists>tr'. serial_print_from dev a (word_of_nat (Suc k)) tr1 = Some tr' \<and>
      sent_to COM1 tr' = sent_to COM1 tr1 @ drop (Suc k) s"
    using Suc.hyps(2) ks by (intro Suc.hyps(1)) simp_all
  then show ?case
    using av w Cons_nth_drop_Suc [OF ks]
    by (subst serial_print_from.simps) (auto simp: add.commute)
qed

lemma serial_print_ok:
  assumes "uart_responds dev" and "holds_string a s"
  shows "\<exists>tr'. serial_print dev a tr = Some tr' \<and> sent_to COM1 tr' = sent_to COM1 tr @ s"
  using serial_print_from_ok [OF assms, of 0] by (simp add: serial_print_def)

definition char_bytes :: "string \<Rightarrow> u8 list" where
  "char_bytes s = map of_char s"

lemma literal_holds:
  assumes "length s < 2 ^ 64" and "list_all (\<lambda>x. x \<noteq> 0) (char_bytes s)"
  shows "holds_string (literal s) (char_bytes s)"
  using assms by (auto simp: holds_string_def literal_def char_bytes_def list_all_iff unat_of_nat)

section \<open>Numbers\<close>

definition hex_text :: "nat \<Rightarrow> nat \<Rightarrow> u8 list" where
  "hex_text n v = map (\<lambda>j. of_char (hex_digits ! (v div 16 ^ j mod 16))) (rev [0..<n])"

definition digit_value :: "u8 \<Rightarrow> nat" where
  "digit_value c = (if c \<le> 57 then unat c - 48 else unat c - 55)"

definition text_value :: "nat \<Rightarrow> u8 list \<Rightarrow> nat" where
  "text_value base t = foldl (\<lambda>acc c. acc * base + digit_value c) 0 t"

fun dec_text :: "nat \<Rightarrow> u8 list" where
  "dec_text v = (if v = 0 then [] else dec_text (v div 10) @ [48 + word_of_nat (v mod 10)])"

declare dec_text.simps [simp del]

lemma dec_text_0 [simp]: "dec_text 0 = []"
  by (simp add: dec_text.simps)

lemma nibble_cases: "(n :: nat) < 16 \<Longrightarrow> n \<in> {0, 1, 2, 3, 4, 5, 6, 7, 8, 9, 10, 11, 12, 13, 14, 15}"
  by (simp only: insert_iff empty_iff) presburger

lemma hex_digit_value:
  "n < 16 \<Longrightarrow> digit_value (of_char (hex_digits ! n)) = n \<and> (of_char (hex_digits ! n) :: u8) \<noteq> 0"
  by (drule nibble_cases) (auto simp: digit_value_def hex_digits_def)

lemma text_value_append: "text_value b (t @ [c]) = text_value b t * b + digit_value c"
  by (simp add: text_value_def)

lemma text_value_Cons_hex:
  "foldl (\<lambda>acc c. acc * b + digit_value c) x t = x * b ^ length t + text_value b t"
proof (induction t rule: rev_induct)
  case Nil
  then show ?case by (simp add: text_value_def)
next
  case (snoc c t)
  then show ?case by (simp add: text_value_append algebra_simps)
qed

lemma hex_text_value: "text_value 16 (hex_text n v) = v mod 16 ^ n"
proof (induction n)
  case 0
  then show ?case by (simp add: hex_text_def text_value_def)
next
  case (Suc n)
  let ?d = "v div 16 ^ n mod 16"
  have "hex_text (Suc n) v = of_char (hex_digits ! ?d) # hex_text n v" by (simp add: hex_text_def)
  then have "text_value 16 (hex_text (Suc n) v) = ?d * 16 ^ n + text_value 16 (hex_text n v)"
    using hex_digit_value [of ?d] text_value_Cons_hex [of 16 ?d "hex_text n v"]
    by (simp add: text_value_def hex_text_def)
  also have "\<dots> = v mod 16 ^ Suc n"
    using mod_mult2_eq [of v "16 ^ n" 16] by (simp add: Suc.IH mult.commute)
  finally show ?case .
qed

lemma nibble_nat: "unat (drop_bit k (val :: 'a::len word) AND 0xF) = unat val div 2 ^ k mod 16"
proof -
  have "unat (drop_bit k val AND mask 4) = unat (take_bit 4 (drop_bit k val))"
    by (simp only: take_bit_eq_mask)
  also have "\<dots> = take_bit 4 (drop_bit k (unat val))"
    by (simp only: unsigned_take_bit_eq unat_drop_bit_eq)
  finally have "unat (drop_bit k val AND mask 4) = unat val div 2 ^ k mod 2 ^ 4"
    by (simp only: take_bit_eq_mod drop_bit_eq_div)
  then show ?thesis by (simp add: mask_eq_exp_minus_1)
qed

lemma hex_loop_ok:
  assumes "uart_responds dev"
  shows "\<exists>tr'. hex_loop dev val (4 * int n - 4) tr = Some tr' \<and>
           sent_to COM1 tr' = sent_to COM1 tr @ hex_text n (unat val)"
proof (induction n arbitrary: tr)
  case 0
  then show ?case by (simp add: hex_loop.simps hex_text_def)
next
  case (Suc n)
  let ?c = "of_char (hex_digits ! (unat val div 16 ^ n mod 16)) :: u8"
  have i: "4 * int (Suc n) - 4 = 4 * int n" "nat (4 * int n) = 4 * n" by simp_all
  have p: "(2 :: nat) ^ (4 * n) = 16 ^ n" by (simp add: power_mult)
  obtain tr1 where w: "serial_write dev ?c tr = Some tr1" "sent_to COM1 tr1 = sent_to COM1 tr @ [?c]"
    using serial_write_ok [OF assms] by blast
  have "hex_loop dev val (4 * int (Suc n) - 4) tr = hex_loop dev val (4 * int n - 4) tr1"
    unfolding i(1) by (subst hex_loop.simps) (simp only: i(2) nibble_nat p w(1) of_nat_0_le_iff, simp)
  moreover have "hex_text (Suc n) (unat val) = ?c # hex_text n (unat val)" by (simp add: hex_text_def)
  ultimately show ?case using Suc.IH [of tr1] w(2) by simp
qed

lemma dec_text_length: "v < 10 ^ n \<Longrightarrow> length (dec_text v) \<le> n"
proof (induction n arbitrary: v)
  case 0
  then show ?case by (simp add: dec_text.simps)
next
  case (Suc n)
  then have "v div 10 < 10 ^ n" by (simp add: div_less_iff_less_mult mult.commute)
  then have "length (dec_text (v div 10)) \<le> n" by (rule Suc.IH)
  then show ?case by (subst dec_text.simps) simp
qed

lemma dec_digit:
  "d < 10 \<Longrightarrow> digit_value (48 + word_of_nat d) = d \<and> 48 + word_of_nat d \<noteq> (0 :: u8)"
proof -
  assume "d < 10"
  then have "d \<in> {0, 1, 2, 3, 4, 5, 6, 7, 8, 9}" by auto
  then show ?thesis by (auto simp: digit_value_def)
qed

lemma dec_text_value: "text_value 10 (dec_text v) = v"
proof (induction v rule: dec_text.induct)
  case (1 v)
  then show ?case
    using dec_digit [of "v mod 10"]
    by (subst dec_text.simps) (auto simp: text_value_append text_value_def [of _ "[]"])
qed

lemma dec_text_nonzero: "list_all (\<lambda>x. x \<noteq> 0) (dec_text v)"
proof (induction v rule: dec_text.induct)
  case (1 v)
  then show ?case
    using dec_digit [of "v mod 10"] by (subst dec_text.simps) auto
qed

lemma dec_loop_ok:
  "length (dec_text (unat val)) \<le> i \<Longrightarrow> i \<le> length buf \<Longrightarrow>
     dec_loop val i buf = Inr (i - length (dec_text (unat val)),
       take (i - length (dec_text (unat val))) buf @ dec_text (unat val) @ drop i buf)"
proof (induction val i buf rule: dec_loop.induct)
  case (1 val i buf)
  show ?case
  proof (cases "0 < val")
    case False
    then have "val = 0" by (simp add: word_gt_0)
    then show ?thesis by (simp add: dec_loop.simps dec_text_0)
  next
    case True
    let ?v = "unat val" and ?t = "dec_text (unat (val div 10))"
    let ?c = "48 + ucast (val mod 10) :: u8"
    have v0: "?v \<noteq> 0" using True by (simp add: unat_eq_zero word_neq_0_conv)
    have d10: "unat (val div 10) = ?v div 10" "unat (val mod 10) = ?v mod 10"
      by (simp_all add: unat_div_distrib unat_mod_distrib)
    have "(word_of_nat (?v mod 10) :: u8) = ucast (val mod 10)"
      by (simp only: d10(2) [symmetric] of_nat_unat)
    then have t: "dec_text ?v = ?t @ [?c]"
      using v0 by (subst dec_text.simps) (simp only: d10(1) if_False)
    have len: "length (dec_text ?v) = Suc (length ?t)" by (simp only: t length_append) simp
    have i0: "i \<noteq> 0" and le: "length ?t \<le> i - 1" "i - 1 < length buf"
      using "1.prems" unfolding len by linarith+
    have "dec_loop (val div 10) (i - 1) (buf[i - 1 := ?c]) =
        Inr (i - 1 - length ?t, take (i - 1 - length ?t) (buf[i - 1 := ?c]) @ ?t @ drop (i - 1) (buf[i - 1 := ?c]))"
      using le by (intro "1.IH" [OF True i0]) simp_all
    moreover have "drop (i - 1) (buf[i - 1 := ?c]) = ?c # drop i buf"
      using le(2) i0 by (simp add: drop_update_swap Cons_nth_drop_Suc [symmetric])
    moreover have "take (i - 1 - length ?t) (buf[i - 1 := ?c]) = take (i - 1 - length ?t) buf"
      by simp
    moreover have "dec_loop val i buf = dec_loop (val div 10) (i - 1) (buf[i - 1 := ?c])"
      by (subst dec_loop.simps) (simp only: True i0 if_True if_False)
    moreover have "i - 1 - length ?t = i - length (dec_text ?v)" unfolding len by linarith
    ultimately show ?thesis by (simp only: t append_assoc append_Cons append_Nil)
  qed
qed

lemma dec_text_10: "length (dec_text (unat (val :: u32))) \<le> 10"
proof -
  have "unat val < 2 ^ 32" using unsigned_less [of val] by simp
  then have "unat val < 10 ^ 10" by (rule order.strict_trans2) simp
  then show ?thesis by (rule dec_text_length)
qed

lemma dec_text_head: "v \<noteq> 0 \<Longrightarrow> dec_text v \<noteq> [] \<and> digit_value (hd (dec_text v)) \<noteq> 0"
proof (induction v rule: dec_text.induct)
  case (1 v)
  show ?case
  proof (cases "v div 10 = 0")
    case True
    then have "dec_text v = [48 + word_of_nat v]" and "v < 10"
      using "1.prems" by (subst dec_text.simps, simp, simp)
    then show ?thesis using dec_digit [of v] "1.prems" by simp
  next
    case False
    with "1.IH" "1.prems" show ?thesis by (subst (1 2) dec_text.simps) simp
  qed
qed

lemma holds_string_in_buffer:
  assumes "drop i buf = t @ [0]" and "list_all (\<lambda>x. x \<noteq> 0) t" and "length buf < 2 ^ 64"
  shows "holds_string (\<lambda>k. if i + unat k < length buf then buf ! (i + unat k) else 0) t"
proof -
  have len: "length buf = i + length t + 1"
    using arg_cong [OF assms(1), of length] by simp
  have nth: "buf ! (i + k) = (t @ [0]) ! k" if "k \<le> length t" for k
    using that assms(1) len by (metis nth_drop le_add1 trans_le_add1 add.assoc)
  show ?thesis
    using assms(2,3) len nth by (auto simp: holds_string_def list_all_length nth_append unat_of_nat)
qed

lemma dec_buffer:
  assumes "length raw = 21" and "v = unat (val :: u32)"
  shows "\<exists>i buf. dec_loop val 20 (raw[20 := 0]) = Inr (i, buf) \<and> length buf = 21 \<and>
           drop i buf = dec_text v @ [0]"
proof -
  let ?t = "dec_text (unat val)"
  have l10: "length ?t \<le> 10" by (rule dec_text_10)
  have d20: "drop 20 (raw[20 := 0]) = [0]"
    using assms(1) Cons_nth_drop_Suc [of 20 "raw[20 := 0]"] by simp
  have "dec_loop val 20 (raw[20 := 0]) =
      Inr (20 - length ?t, take (20 - length ?t) (raw[20 := 0]) @ ?t @ drop 20 (raw[20 := 0]))"
    using l10 assms(1) by (intro dec_loop_ok) simp_all
  then show ?thesis
    unfolding d20 using l10 assms by auto
qed

section \<open>Waiting as a fact about the device\<close>

lemma serial_wait_ready:
  assumes "serial_wait dev tr = Some tr'"
  shows "\<exists>n. fst (serial_ready dev (polled dev n tr))"
proof (rule serial_wait.raw_induct [OF _ assms, where P = "\<lambda>dev tr _. \<exists>n. fst (serial_ready dev (polled dev n tr))"])
  fix wait dev tr and tr' :: history
  assume IH: "\<And>dev tr tr'. wait dev tr = Some (tr' :: history) \<Longrightarrow> \<exists>n. fst (serial_ready dev (polled dev n tr))"
    and step: "(let (ready, tr') = serial_ready dev tr in if ready then Some tr' else wait dev tr') = Some tr'"
  show "\<exists>n. fst (serial_ready dev (polled dev n tr))"
  proof (cases "fst (serial_ready dev tr)")
    case True
    then have "fst (serial_ready dev (polled dev 0 tr))" by (simp add: polled_def)
    then show ?thesis by blast
  next
    case False
    with step have "wait dev (snd (serial_ready dev tr)) = Some tr'" by (simp add: split_beta)
    from IH [OF this] obtain n
      where "fst (serial_ready dev (polled dev n (snd (serial_ready dev tr))))" by blast
    then have "fst (serial_ready dev (polled dev (Suc n) tr))"
      by (simp only: polled_def funpow_Suc_right o_apply)
    then show ?thesis by blast
  qed
qed

lemma serial_write_sent:
  assumes "serial_write dev c tr = Some tr'"
  shows "sent_to COM1 tr' = sent_to COM1 tr @ [c]"
proof -
  from assms obtain tr1 where w: "serial_wait dev tr = Some tr1" and tr': "tr' = outb COM1 c tr1"
    by (auto simp: serial_write_def split: option.splits)
  from serial_wait_ready [OF w] obtain n where "fst (serial_ready dev (polled dev n tr))" by blast
  from serial_wait_after [OF this, of COM1] w tr' show ?thesis by simp
qed

section \<open>The serial port as a text output\<close>

definition array_of :: "u8 list \<Rightarrow> bytes_at" where
  "array_of t k = (if unat k < length t then t ! unat k else 0)"

definition printable :: "u8 list \<Rightarrow> bool" where
  "printable t \<longleftrightarrow> length t < 2 ^ 64 \<and> list_all (\<lambda>x. x \<noteq> 0) t"

lemma array_of_holds: "printable t \<Longrightarrow> holds_string (array_of t) t"
  by (auto simp: printable_def holds_string_def array_of_def list_all_iff unat_of_nat)

interpretation uart: text_output "\<lambda>_. uart_responds dev" printable
    "\<lambda>tr t. serial_print dev (array_of t) tr" "sent_to COM1" for dev
  by unfold_locales (use serial_print_ok array_of_holds in blast)

section \<open>Properties\<close>

text \<open>
  C33. \<^verbatim>\<open>serial_write\<close> returns exactly when some poll of the line status
  register finds the transmitter free, and it then has written the character to the data port, once
  and after everything written before. On a device that never becomes free it waits for ever.
\<close>

theorem serial_write_returns:
  "(case serial_write dev c tr of
      Some tr' \<Rightarrow> (\<exists>n. fst (serial_ready dev (polled dev n tr))) \<and> sent_to COM1 tr' = sent_to COM1 tr @ [c]
    | None \<Rightarrow> \<not> (\<exists>n. fst (serial_ready dev (polled dev n tr))))"
proof (cases "serial_write dev c tr")
  case None
  have "\<not> fst (serial_ready dev (polled dev n tr))" for n
    using serial_wait_after [of dev n tr] None by (auto simp: serial_write_def split: option.splits)
  with None show ?thesis by simp
next
  case (Some tr')
  then obtain tr1 where "serial_wait dev tr = Some tr1"
    by (auto simp: serial_write_def split: option.splits)
  from serial_wait_ready [OF this] serial_write_sent [OF Some] Some show ?thesis by simp
qed

text \<open>
  C34. On a responding UART \<^verbatim>\<open>serial_print\<close> returns, and what has been
  transmitted on COM1 is extended by exactly the bytes of the null-terminated string.
\<close>

theorem serial_print_transmits:
  assumes "uart_responds dev" and "holds_string a s"
  shows "\<exists>tr'. serial_print dev a tr = Some tr' \<and> sent_to COM1 tr' = sent_to COM1 tr @ s"
  using assms by (rule serial_print_ok)

text \<open>
  C35. \<^verbatim>\<open>serial_print_hex\<close> and \<^verbatim>\<open>serial_print_hex64\<close>
  transmit the prefix 0x and a fixed number of upper-case hexadecimal digits, and reading these
  digits to base 16 gives the value back.
\<close>

theorem serial_print_hex_digits:
  assumes "uart_responds dev"
  shows "(\<exists>tr'. serial_print_hex dev v32 tr = Some tr' \<and>
            sent_to COM1 tr' = sent_to COM1 tr @ char_bytes ''0x'' @ hex_text 8 (unat v32)) \<and>
         (\<exists>tr'. serial_print_hex64 dev v64 tr = Some tr' \<and>
            sent_to COM1 tr' = sent_to COM1 tr @ char_bytes ''0x'' @ hex_text 16 (unat v64)) \<and>
         text_value 16 (hex_text 8 (unat v32)) = unat v32 \<and>
         text_value 16 (hex_text 16 (unat v64)) = unat v64"
proof -
  have "holds_string (literal ''0x'') (char_bytes ''0x'')"
    by (rule literal_holds) (simp_all add: char_bytes_def)
  from serial_print_ok [OF assms this] obtain tr1 where
    tr1: "serial_print dev (literal ''0x'') tr = Some tr1"
      "sent_to COM1 tr1 = sent_to COM1 tr @ char_bytes ''0x''" by blast
  have "unat v32 < 16 ^ 8" "unat v64 < 16 ^ 16"
    using unsigned_less [of v32] unsigned_less [of v64] by simp_all
  then show ?thesis
    using hex_loop_ok [OF assms, of v32 8 tr1] hex_loop_ok [OF assms, of v64 16 tr1] tr1
    by (auto simp: serial_print_hex_def serial_print_hex64_def hex_text_value)
qed

text \<open>
  C36. \<^verbatim>\<open>serial_print_dec\<close> never writes outside its local buffer, returns on a
  responding UART, and transmits at most ten decimal digits without a leading zero (a single
  \<^verbatim>\<open>0\<close> for zero) whose value to base 10 is the number.
\<close>

theorem serial_print_dec_digits:
  assumes "uart_responds dev" and "length raw = 21"
  shows "\<exists>tr' t. serial_print_dec dev val raw tr = Inr (Some tr') \<and> sent_to COM1 tr' = sent_to COM1 tr @ t \<and>
           text_value 10 t = unat val \<and> t \<noteq> [] \<and> length t \<le> 10 \<and> (digit_value (hd t) = 0 \<longrightarrow> t = char_bytes ''0'')"
proof (cases "val = 0")
  case True
  have "holds_string (literal ''0'') (char_bytes ''0'')"
    by (rule literal_holds) (simp_all add: char_bytes_def)
  from serial_print_ok [OF assms(1) this, of tr] obtain tr' where
    "serial_print_dec dev val raw tr = Inr (Some tr')" "sent_to COM1 tr' = sent_to COM1 tr @ char_bytes ''0''"
    using True by (auto simp: serial_print_dec_def)
  moreover have "text_value 10 (char_bytes ''0'') = unat val" "char_bytes ''0'' \<noteq> []"
    "length (char_bytes ''0'') \<le> 10"
    using True by (simp_all add: char_bytes_def text_value_def digit_value_def)
  ultimately show ?thesis by blast
next
  case False
  let ?t = "dec_text (unat val)"
  obtain i buf where b: "dec_loop val 20 (raw[20 := 0]) = Inr (i, buf)" "length buf = 21"
    "drop i buf = ?t @ [0]"
    using dec_buffer [OF assms(2) refl] by blast
  have "holds_string (\<lambda>k. if i + unat k < length buf then buf ! (i + unat k) else 0) ?t"
    using b(2) by (intro holds_string_in_buffer [OF b(3) dec_text_nonzero]) simp
  from serial_print_ok [OF assms(1) this, of tr] obtain tr' where
    "serial_print_dec dev val raw tr = Inr (Some tr')" "sent_to COM1 tr' = sent_to COM1 tr @ ?t"
    using False b(1) by (auto simp: serial_print_dec_def)
  moreover have "?t \<noteq> []" "digit_value (hd ?t) \<noteq> 0"
    using dec_text_head [of "unat val"] False by (simp_all add: unat_eq_zero)
  ultimately show ?thesis using dec_text_value [of "unat val"] dec_text_10 [of val] by metis
qed

section \<open>Witnesses\<close>

text \<open>A UART whose line status register always reads 0x20.\<close>

definition idle_uart :: ports where
  "idle_uart tr port = 0x20"

lemma idle_uart_responds: "uart_responds idle_uart"
  by (simp add: uart_responds_def serial_ready_def inb_def idle_uart_def split_beta)

lemma serial_print_transmits_witness:
  "\<exists>tr'. serial_print idle_uart (literal ''ok'') [] = Some tr' \<and> sent_to COM1 tr' = char_bytes ''ok''"
  using serial_print_transmits [OF idle_uart_responds literal_holds, of "''ok''" "[]"]
  by (simp add: char_bytes_def)

lemma serial_print_hex_digits_witness:
  "\<exists>tr'. serial_print_hex idle_uart 0xBEEF [] = Some tr' \<and> sent_to COM1 tr' = char_bytes ''0x0000BEEF''"
  using serial_print_hex_digits [OF idle_uart_responds, of "0xBEEF" "[]" 0]
  by (simp add: char_bytes_def hex_text_def hex_digits_def upt_rec)

lemma serial_print_dec_digits_witness:
  "\<exists>tr' t. serial_print_dec idle_uart 4096 (replicate 21 0) [] = Inr (Some tr') \<and>
     sent_to COM1 tr' = t \<and> text_value 10 t = 4096 \<and> length t \<le> 10"
proof -
  have "length (replicate 21 (0 :: u8)) = 21" by simp
  from serial_print_dec_digits [OF idle_uart_responds this, of 4096 "[]"]
  have "\<exists>tr' t. serial_print_dec idle_uart 4096 (replicate 21 0) [] = Inr (Some tr') \<and>
    sent_to COM1 tr' = sent_to COM1 [] @ t \<and> text_value 10 t = unat (4096 :: u32) \<and> length t \<le> 10" by blast
  then show ?thesis by (simp only: sent_to.simps append_Nil) simp
qed

end
