(* ===== verification/Machine.thy ===== *)
theory Machine
  imports Serial_Props
begin

text \<open>
  The part of the kernel's state that every driver shares: byte memory, the text sent to the
  console, and the history of port accesses. Text goes to the serial routines; \<open>Serial_Props\<close>
  shows that on a responding UART they transmit exactly it, so the drivers record it in
  \<open>console\<close>. Multi-byte fields are little-endian, at any alignment.
\<close>

record machine =
  mem :: memory
  console :: "u8 list"
  trace :: history

section \<open>Sequencing\<close>

text \<open>\<open>andthen m f\<close> runs \<open>f\<close> on what \<open>m\<close> returns, unless \<open>m\<close> ends in a fault.\<close>

definition andthen :: "'a result \<Rightarrow> ('a \<Rightarrow> 'b result) \<Rightarrow> 'b result" where
  "andthen m f = (case m of Inl e \<Rightarrow> Inl e | Inr x \<Rightarrow> f x)"

lemma andthen_simps [simp]:
  "andthen (Inl e) f = Inl e"
  "andthen (Inr x) f = f x"
  by (simp_all add: andthen_def)

lemma andthen_Inr: "andthen m f = Inr y \<longleftrightarrow> (\<exists>x. m = Inr x \<and> f x = Inr y)"
  by (cases m) simp_all

lemma andthen_assoc: "andthen (andthen m f) g = andthen m (\<lambda>x. andthen (f x) g)"
  by (cases m) simp_all

text \<open>A null pointer check that the code leaves to the hardware: a typed object behind a pointer.\<close>

definition deref :: "'a option \<Rightarrow> 'a result" where
  "deref p = (case p of None \<Rightarrow> Inl NullDeref | Some x \<Rightarrow> Inr x)"

lemma deref_simps [simp]:
  "deref None = Inl NullDeref"
  "deref (Some x) = Inr x"
  by (simp_all add: deref_def)

section \<open>The console\<close>

definition say :: "string \<Rightarrow> 'z machine_scheme \<Rightarrow> 'z machine_scheme" where
  "say s k = k\<lparr>console := console k @ char_bytes s\<rparr>"

definition say_bytes :: "u8 list \<Rightarrow> 'z machine_scheme \<Rightarrow> 'z machine_scheme" where
  "say_bytes t k = k\<lparr>console := console k @ t\<rparr>"

definition say_hex :: "u32 \<Rightarrow> 'z machine_scheme \<Rightarrow> 'z machine_scheme" where
  "say_hex v k = say_bytes (char_bytes ''0x'' @ hex_text 8 (unat v)) k"

definition say_hex64 :: "u64 \<Rightarrow> 'z machine_scheme \<Rightarrow> 'z machine_scheme" where
  "say_hex64 v k = say_bytes (char_bytes ''0x'' @ hex_text 16 (unat v)) k"

definition say_LN :: "string \<Rightarrow> 'z machine_scheme \<Rightarrow> 'z machine_scheme" where
  "say_LN s k = say newline (say s k)"

definition say_hexLN :: "u32 \<Rightarrow> 'z machine_scheme \<Rightarrow> 'z machine_scheme" where
  "say_hexLN v k = say newline (say_hex v k)"

definition say_hex64LN :: "u64 \<Rightarrow> 'z machine_scheme \<Rightarrow> 'z machine_scheme" where
  "say_hex64LN v k = say newline (say_hex64 v k)"

lemmas say_defs = say_def say_bytes_def say_hex_def say_hex64_def say_LN_def say_hexLN_def say_hex64LN_def

lemma say_keeps [simp]:
  "mem (say s k) = mem k" "trace (say s k) = trace k" "machine.more (say s k) = machine.more k"
  "mem (say_bytes t k) = mem k" "trace (say_bytes t k) = trace k"
  "machine.more (say_bytes t k) = machine.more k"
  by (simp_all add: say_def say_bytes_def)

lemma say_LN_keeps [simp]:
  "mem (say_LN s k) = mem k" "trace (say_LN s k) = trace k" "machine.more (say_LN s k) = machine.more k"
  "mem (say_hexLN v k) = mem k" "trace (say_hexLN v k) = trace k"
  "machine.more (say_hexLN v k) = machine.more k"
  "mem (say_hex64LN w k) = mem k" "trace (say_hex64LN w k) = trace k"
  "machine.more (say_hex64LN w k) = machine.more k"
  by (simp_all add: say_LN_def say_hexLN_def say_hex64LN_def say_hex_def say_hex64_def)

section \<open>Little-endian fields\<close>

definition read_u16 :: "memory \<Rightarrow> u64 \<Rightarrow> u16" where
  "read_u16 m a = ucast (m a) OR push_bit 8 (ucast (m (a + 1)))"

definition read_u32 :: "memory \<Rightarrow> u64 \<Rightarrow> u32" where
  "read_u32 m a = ucast (read_u16 m a) OR push_bit 16 (ucast (read_u16 m (a + 2)))"

definition read_u64 :: "memory \<Rightarrow> u64 \<Rightarrow> u64" where
  "read_u64 m a = ucast (read_u32 m a) OR push_bit 32 (ucast (read_u32 m (a + 4)))"

definition write_u16 :: "u64 \<Rightarrow> u16 \<Rightarrow> memory \<Rightarrow> memory" where
  "write_u16 a v m = m(a := ucast v, a + 1 := ucast (drop_bit 8 v))"

definition write_u32 :: "u64 \<Rightarrow> u32 \<Rightarrow> memory \<Rightarrow> memory" where
  "write_u32 a v m = write_u16 (a + 2) (ucast (drop_bit 16 v)) (write_u16 a (ucast v) m)"

definition write_u64 :: "u64 \<Rightarrow> u64 \<Rightarrow> memory \<Rightarrow> memory" where
  "write_u64 a v m = write_u32 (a + 4) (ucast (drop_bit 32 v)) (write_u32 a (ucast v) m)"

text \<open>The bytes of a run of memory.\<close>

definition bytes :: "memory \<Rightarrow> u64 \<Rightarrow> nat \<Rightarrow> u8 list" where
  "bytes m a n = map (\<lambda>k. m (a + word_of_nat k)) [0..<n]"

lemma length_bytes [simp]: "length (bytes m a n) = n"
  by (simp add: bytes_def)

lemma nth_bytes [simp]: "k < n \<Longrightarrow> bytes m a n ! k = m (a + word_of_nat k)"
  by (simp add: bytes_def)

lemma bytes_0 [simp]: "bytes m a 0 = []"
  by (simp add: bytes_def)

lemma bytes_Suc: "bytes m a (Suc n) = bytes m a n @ [m (a + word_of_nat n)]"
  by (simp add: bytes_def)

lemma split_word_16: "ucast (ucast (v :: u16) :: u8) OR push_bit 8 (ucast (ucast (drop_bit 8 v) :: u8)) = v"
  by (rule bit_eqI) (auto simp: bit_simps)

lemma split_word_32: "ucast (ucast (v :: u32) :: u16) OR push_bit 16 (ucast (ucast (drop_bit 16 v) :: u16)) = v"
  by (rule bit_eqI) (auto simp: bit_simps)

lemma split_word_64: "ucast (ucast (v :: u64) :: u32) OR push_bit 32 (ucast (ucast (drop_bit 32 v) :: u32)) = v"
  by (rule bit_eqI) (auto simp: bit_simps)

lemma write_u16_other: "a' \<noteq> a \<Longrightarrow> a' \<noteq> a + 1 \<Longrightarrow> write_u16 a v m a' = m a'"
  by (simp add: write_u16_def)

lemma read_write_u16: "read_u16 (write_u16 a v m) a = v"
  by (simp add: read_u16_def write_u16_def split_word_16)

lemma read_write_u32: "read_u32 (write_u32 a v m) a = v"
proof -
  have "read_u16 (write_u32 a v m) (a + 2) = ucast (drop_bit 16 v)"
    by (simp add: write_u32_def read_write_u16)
  moreover have "read_u16 (write_u32 a v m) a = ucast v"
    by (simp add: write_u32_def read_u16_def write_u16_def split_word_16 add.assoc)
  ultimately show ?thesis by (simp add: read_u32_def split_word_32)
qed

text \<open>Bytes 2 and 3 of a 64-bit field.\<close>

lemma read_u64_byte2: "drop_bit 16 (read_u64 m a) AND mask 8 = ucast (m (a + 2))"
proof (rule bit_word_eqI)
  fix n assume "n < LENGTH(64)"
  show "bit (drop_bit 16 (read_u64 m a) AND mask 8) n = bit (ucast (m (a + 2)) :: u64) n"
  proof (cases "n < 8")
    case True
    then show ?thesis by (auto simp: read_u64_def read_u32_def read_u16_def bit_simps dest: bit_imp_le_length)
  next
    case False
    then show ?thesis by (auto simp: bit_simps dest: bit_imp_le_length)
  qed
qed

lemma read_u64_byte3: "drop_bit 24 (read_u64 m a) AND mask 8 = ucast (m (a + 3))"
proof (rule bit_word_eqI)
  fix n assume "n < LENGTH(64)"
  show "bit (drop_bit 24 (read_u64 m a) AND mask 8) n = bit (ucast (m (a + 3)) :: u64) n"
  proof (cases "n < 8")
    case True
    then show ?thesis by (auto simp: read_u64_def read_u32_def read_u16_def bit_simps add.assoc dest: bit_imp_le_length)
  next
    case False
    then show ?thesis by (auto simp: bit_simps dest: bit_imp_le_length)
  qed
qed

end
