(* ===== verification/Acpi.thy ===== *)
theory Acpi
  imports Machine
begin

text \<open>
  The ACPI driver (\<^verbatim>\<open>drivers/acpi/acpi.c\<close>): the checksum, the search for the RSDP
  in the BIOS area and the lookup of a table in the RSDT. The tables are read from byte memory at the
  offsets of the packed structures of \<^verbatim>\<open>acpi.h\<close>.
\<close>

section \<open>State and layout\<close>

record acpi = machine +
  RSD_T :: u64

text \<open>\<^verbatim>\<open>RSD_P->rsdt_address\<close> is declared as a pointer, so eight bytes at offset
  16; \<^verbatim>\<open>length\<close> of a table header is at offset 4 and the header has 36 bytes.\<close>

definition rsdt_address :: "memory \<Rightarrow> u64 \<Rightarrow> u64" where
  "rsdt_address m p = read_u64 m (p + 16)"

definition table_length :: "memory \<Rightarrow> u64 \<Rightarrow> u32" where
  "table_length m t = read_u32 m (t + 4)"

definition rsdt_header_size :: u64 where
  "rsdt_header_size = 36"

section \<open>Operations\<close>

function sum_bytes :: "bytes_at \<Rightarrow> u8 \<Rightarrow> u8 \<Rightarrow> u8 \<Rightarrow> u8" where
  "sum_bytes d n i acc = (if i < n then sum_bytes d n (i + 1) (acc + d (ucast i)) else acc)"
  by pat_completeness auto
termination
  by (relation "measure (\<lambda>(_, n, i, _). unat n - unat i)") (auto, unat_arith)

declare sum_bytes.simps [simp del]

definition acpi_checksum :: "bytes_at \<Rightarrow> u8 \<Rightarrow> bool" where
  "acpi_checksum d n \<longleftrightarrow> sum_bytes d n 0 0 = 0"

text \<open>The checks on the candidate at address \<open>i\<close>; the second \<^verbatim>\<open>acpi_checksum\<close>
  gets the 32-bit length through its 8-bit parameter.\<close>

definition rsdp_at :: "memory \<Rightarrow> u64 \<Rightarrow> bool" where
  "rsdp_at m i \<longleftrightarrow>
     memcmp (at m i) (literal ''RSD PTR '') 8 = 0 \<and> acpi_checksum (at m i) 20 \<and>
     memcmp (at m (rsdt_address m i)) (literal ''RSDT'') 4 = 0 \<and>
     acpi_checksum (at m (rsdt_address m i)) (ucast (table_length m (rsdt_address m i)))"

function ACPI_scan :: "memory \<Rightarrow> u64 \<Rightarrow> u64 option" where
  "ACPI_scan m i =
     (if i < 0xFFFFF then
        if rsdp_at m i then Some (rsdt_address m i) else ACPI_scan m (i + 1)
      else None)"
  by pat_completeness auto
termination
  by (relation "measure (\<lambda>(_, i). unat (0xFFFFF :: u64) - unat i)") (use unat_step_less [of _ "0xFFFFF"] in auto)

declare ACPI_scan.simps [simp del]

definition ACPI_init :: "'z acpi_scheme \<Rightarrow> bool \<times> 'z acpi_scheme" where
  "ACPI_init k =
     (case ACPI_scan (mem k) 0xE0000 of None \<Rightarrow> (False, k) | Some r \<Rightarrow> (True, k\<lparr>RSD_T := r\<rparr>))"

text \<open>\<^verbatim>\<open>char sig[5]\<close>: the four signature bytes of the table and a NUL.\<close>

definition signature :: "memory \<Rightarrow> u64 \<Rightarrow> bytes_at" where
  "signature m t = (\<lambda>k. if k < 4 then m (t + k) else 0)"

definition rsdt_entry :: "memory \<Rightarrow> u64 \<Rightarrow> u64 \<Rightarrow> u64" where
  "rsdt_entry m r i = ucast (read_u32 m (r + rsdt_header_size + 4 * i))"

definition rsdt_count :: "memory \<Rightarrow> u64 \<Rightarrow> u32" where
  "rsdt_count m r = ucast ((ucast (table_length m r) - rsdt_header_size) div 4)"

function ACPI_table_from :: "memory \<Rightarrow> u64 \<Rightarrow> u64 \<Rightarrow> bytes_at \<Rightarrow> u64 \<Rightarrow> u64 result" where
  "ACPI_table_from m r count name i =
     (if i < count then
        (case strcmp (signature m (rsdt_entry m r i)) name of
           None \<Rightarrow> Inl Diverges
         | Some c \<Rightarrow> if c = 0 then Inr (rsdt_entry m r i) else ACPI_table_from m r count name (i + 1))
      else Inr 0)"
  by pat_completeness auto
termination
  by (relation "measure (\<lambda>(_, _, n, _, i). unat n - unat i)") (auto simp: unat_step_less)

declare ACPI_table_from.simps [simp del]

definition ACPI_get_table :: "bytes_at \<Rightarrow> 'z acpi_scheme \<Rightarrow> (u64 \<times> 'z acpi_scheme) result" where
  "ACPI_get_table name k =
     (if RSD_T k = 0 then Inr (0, say_LN ''ACPI RSD_T not found or not init'' k)
      else
        (case ACPI_table_from (mem k) (RSD_T k) (ucast (rsdt_count (mem k) (RSD_T k))) name 0 of
           Inl f \<Rightarrow> Inl f
         | Inr t \<Rightarrow> Inr (t, k)))"

section \<open>The checksum as a sum\<close>

definition byte_sum :: "bytes_at \<Rightarrow> nat \<Rightarrow> nat" where
  "byte_sum d n = (\<Sum>j<n. unat (d (word_of_nat j)))"

lemma sum_bytes_eq:
  "i \<le> n \<Longrightarrow> sum_bytes d n i acc = acc + word_of_nat (\<Sum>j=unat i..<unat n. unat (d (word_of_nat j)))"
proof (induction d n i acc rule: sum_bytes.induct)
  case (1 d n i acc)
  show ?case
  proof (cases "i < n")
    case True
    then have i1: "unat (i + 1) = Suc (unat i)" by unat_arith
    have "i + 1 \<le> n" using True by (metis inc_le)
    note IH = "1.IH" [OF True this]
    have "ucast i = (word_of_nat (unat i) :: u64)" by (metis of_nat_unat)
    moreover have "{unat i..<unat n} = insert (unat i) {Suc (unat i)..<unat n}"
      using True by (auto simp: word_less_nat_alt)
    ultimately show ?thesis
      using True IH by (subst sum_bytes.simps) (simp add: i1)
  next
    case False
    with "1.prems" show ?thesis by (subst sum_bytes.simps) simp
  qed
qed

lemma acpi_checksum_sum: "acpi_checksum d n \<longleftrightarrow> 256 dvd byte_sum d (unat n)"
proof -
  have "sum_bytes d n 0 0 = word_of_nat (byte_sum d (unat n))"
    using sum_bytes_eq [of 0 n d 0] by (simp add: byte_sum_def atLeast0LessThan)
  moreover have "(word_of_nat s = (0 :: u8)) \<longleftrightarrow> 256 dvd s" for s
    using word_of_nat_eq_0_iff [of s, where ?'a = 8] by simp
  ultimately show ?thesis by (simp add: acpi_checksum_def)
qed

section \<open>The searches\<close>

lemma ACPI_scan_find:
  assumes "unat i \<le> 0xFFFFF"
  shows "ACPI_scan m i =
    map_option (\<lambda>j. rsdt_address m (word_of_nat j)) (find (\<lambda>j. rsdp_at m (word_of_nat j)) [unat i..<0xFFFFF])"
  using assms
proof (induction m i rule: ACPI_scan.induct)
  case (1 m i)
  show ?case
  proof (cases "i < 0xFFFFF")
    case True
    then have lt: "unat i < 0xFFFFF" by (simp add: word_less_nat_alt)
    have w: "word_of_nat (unat i) = i" by (metis of_nat_unat ucast_id)
    have i1: "unat (i + 1) = Suc (unat i)" using True by (rule unat_Suc_less)
    have "[unat i..<0xFFFFF] = unat i # [Suc (unat i)..<0xFFFFF]"
      using lt by (rule upt_conv_Cons)
    then show ?thesis
      using True "1.IH" [OF True] lt by (subst ACPI_scan.simps) (simp add: i1 w)
  next
    case False
    then have "unat i = 0xFFFFF" using "1.prems" by (simp add: word_less_nat_alt)
    then show ?thesis using False by (subst ACPI_scan.simps) simp
  qed
qed

text \<open>The name that the comparison sees: the signature up to its first NUL.\<close>

definition table_name :: "memory \<Rightarrow> u64 \<Rightarrow> u8 list" where
  "table_name m t = takeWhile (\<lambda>b. b \<noteq> 0) (bytes m t 4)"

lemma signature_holds: "holds_string (signature m t) (table_name m t)"
proof -
  let ?n = "length (table_name m t)"
  have le: "?n \<le> 4" unfolding table_name_def using length_takeWhile_le [of _ "bytes m t 4"] by simp
  have nth: "table_name m t ! k = m (t + word_of_nat k)" if "k < ?n" for k
    using that le takeWhile_nth [of k "\<lambda>b. b \<noteq> 0" "bytes m t 4"] by (simp add: table_name_def)
  have sig: "signature m t (word_of_nat k) = m (t + word_of_nat k)" if "k < 4" for k
    using that unat_of_nat_u64 [of k] by (simp add: signature_def word_less_nat_alt)
  have stop: "signature m t (word_of_nat ?n) = 0"
  proof (cases "?n < 4")
    case True
    then have "bytes m t 4 ! ?n = 0"
      using nth_length_takeWhile [of "\<lambda>b. b \<noteq> 0" "bytes m t 4"] by (simp add: table_name_def)
    then show ?thesis using True sig by simp
  next
    case False
    then have "?n = 4" using le by simp
    then show ?thesis by (simp add: signature_def)
  qed
  have nz: "list_all (\<lambda>b. b \<noteq> 0) (table_name m t)"
    unfolding list_all_iff table_name_def by (blast dest: set_takeWhileD)
  show ?thesis
    unfolding holds_string_def using le nz stop nth sig by (auto simp: list_all_iff)
qed

section \<open>What makes a candidate acceptable\<close>

lemma memcmp_literal:
  assumes "length s = l" and "unat n = l"
  shows "memcmp (at m p) (literal s) n = 0 \<longleftrightarrow> bytes m p l = char_bytes s"
proof -
  have "memcmp (at m p) (literal s) n = 0 \<longleftrightarrow>
      (\<forall>k<l. m (p + word_of_nat k) = literal s (word_of_nat k))"
    using memcmp_from_zero [of 0 n "at m p" "literal s"] assms by (simp add: memcmp_def)
  moreover have "literal s (word_of_nat k) = char_bytes s ! k" if "k < l" for k
    using that assms unat_u64_less [of n] unat_of_nat_u64 [of k] by (simp add: literal_def char_bytes_def)
  ultimately show ?thesis using assms by (simp add: list_eq_iff_nth_eq char_bytes_def)
qed

lemma strcmp_zero:
  assumes "holds_string a s" and "holds_string b t"
  shows "\<exists>r. strcmp a b = Some r \<and> (r = 0 \<longleftrightarrow> s = t)"
  using strcmp_from_spec [OF assms, of 0] by (auto simp: strcmp_def)

definition acceptable_rsdp :: "memory \<Rightarrow> nat \<Rightarrow> bool" where
  "acceptable_rsdp m p \<longleftrightarrow>
     (let a = word_of_nat p; r = rsdt_address m a in
      bytes m a 8 = char_bytes ''RSD PTR '' \<and> 256 dvd byte_sum (at m a) 20 \<and>
      bytes m r 4 = char_bytes ''RSDT'' \<and> 256 dvd byte_sum (at m r) (unat (table_length m r) mod 256))"

lemma rsdp_at_iff: "rsdp_at m (word_of_nat p) \<longleftrightarrow> acceptable_rsdp m p"
proof -
  have u: "unat (ucast (x :: u32) :: u8) = unat x mod 256" for x
    by (simp add: unsigned_ucast_eq take_bit_eq_mod)
  show ?thesis
    using memcmp_literal [of "''RSD PTR ''" 8 8 m] memcmp_literal [of "''RSDT''" 4 4 m]
    by (simp add: rsdp_at_def acceptable_rsdp_def acpi_checksum_sum u Let_def)
qed

lemma ACPI_table_find:
  assumes "holds_string name s" and "i \<le> n"
  shows "ACPI_table_from m r n name i =
    Inr (case find (\<lambda>j. table_name m (rsdt_entry m r (word_of_nat j)) = s) [unat i..<unat n] of
           None \<Rightarrow> 0 | Some j \<Rightarrow> rsdt_entry m r (word_of_nat j))"
  using assms(2)
proof (induction "unat n - unat i" arbitrary: i)
  case 0
  then have "i = n" by (simp add: word_le_nat_alt unat_inject)
  then show ?case by (subst ACPI_table_from.simps) simp
next
  case (Suc d)
  then have lt: "i < n" by (simp add: word_less_nat_alt)
  have w: "word_of_nat (unat i) = i" by (metis of_nat_unat ucast_id)
  have i1: "unat (i + 1) = Suc (unat i)" using lt by (rule unat_Suc_less)
  have up: "[unat i..<unat n] = unat i # [Suc (unat i)..<unat n]"
    using lt by (intro upt_conv_Cons) (simp add: word_less_nat_alt)
  obtain c where c: "strcmp (signature m (rsdt_entry m r i)) name = Some c"
    "c = 0 \<longleftrightarrow> table_name m (rsdt_entry m r i) = s"
    using strcmp_zero [OF signature_holds assms(1)] by blast
  have "i + 1 \<le> n" using lt by (metis inc_le)
  moreover have "d = unat n - unat (i + 1)" using Suc.hyps(2) i1 by simp
  ultimately have "ACPI_table_from m r n name (i + 1) =
      Inr (case find (\<lambda>j. table_name m (rsdt_entry m r (word_of_nat j)) = s) [Suc (unat i)..<unat n] of
           None \<Rightarrow> 0 | Some j \<Rightarrow> rsdt_entry m r (word_of_nat j))"
    using Suc.hyps(1) [of "i + 1"] i1 by simp
  then show ?case using lt c by (subst ACPI_table_from.simps) (simp add: up w)
qed

lemma rsdt_count_nat:
  assumes "36 \<le> unat (table_length m r)"
  shows "unat (rsdt_count m r) = (unat (table_length m r) - 36) div 4"
proof -
  let ?l = "table_length m r"
  have l: "unat ?l < 2 ^ 32" using unsigned_less [of ?l, where ?'a = nat] by simp
  have ul: "unat (ucast ?l :: u64) = unat ?l"
    using l by (simp add: unsigned_ucast_eq take_bit_nat_eq_self)
  have "(36 :: u64) \<le> ucast ?l" using assms ul by (simp add: word_le_nat_alt)
  then have "unat (ucast ?l - rsdt_header_size :: u64) = unat ?l - 36"
    by (simp add: rsdt_header_size_def unat_sub ul)
  then have "unat ((ucast ?l - rsdt_header_size) div 4 :: u64) = (unat ?l - 36) div 4"
    by (simp add: unat_div_distrib)
  moreover have "(unat ?l - 36) div 4 < 2 ^ 32" using l by linarith
  ultimately show ?thesis
    by (simp add: rsdt_count_def unsigned_ucast_eq take_bit_nat_eq_self)
qed

lemma ACPI_scan_cases:
  assumes "unat i = lo" and "hi = 0xFFFFF" and "lo \<le> hi"
  shows "case ACPI_scan m i of
      Some r \<Rightarrow> \<exists>p. lo \<le> p \<and> p < hi \<and> acceptable_rsdp m p \<and>
        (\<forall>q. lo \<le> q \<and> q < p \<longrightarrow> \<not> acceptable_rsdp m q) \<and> r = rsdt_address m (word_of_nat p)
    | None \<Rightarrow> \<not> (\<exists>p. lo \<le> p \<and> p < hi \<and> acceptable_rsdp m p)"
proof -
  let ?F = "find (acceptable_rsdp m) [lo..<hi]"
  have scan: "ACPI_scan m i = map_option (\<lambda>j. rsdt_address m (word_of_nat j)) ?F"
    using ACPI_scan_find [of i m] assms by (simp only: rsdp_at_iff)
  show ?thesis
  proof (cases ?F)
    case None
    then have "ACPI_scan m i = None" using scan by simp
    moreover have "\<not> (\<exists>p. lo \<le> p \<and> p < hi \<and> acceptable_rsdp m p)"
      using None by (auto simp: find_None_iff)
    ultimately show ?thesis by simp
  next
    case (Some p)
    then have "ACPI_scan m i = Some (rsdt_address m (word_of_nat p))" using scan by simp
    with find_upt_first [OF Some] show ?thesis by auto
  qed
qed

text \<open>The lookup as a search of the list of entries.\<close>

definition rsdt_entries :: "memory \<Rightarrow> u64 \<Rightarrow> u64 list" where
  "rsdt_entries m r = map (\<lambda>j. rsdt_entry m r (word_of_nat j)) [0..<unat (rsdt_count m r)]"

definition find_table :: "memory \<Rightarrow> u64 \<Rightarrow> u8 list \<Rightarrow> u64" where
  "find_table m r s =
     (case find (\<lambda>e. table_name m e = s) (rsdt_entries m r) of None \<Rightarrow> 0 | Some e \<Rightarrow> e)"

lemma find_map: "find P (map f xs) = map_option f (find (\<lambda>x. P (f x)) xs)"
  by (induction xs) simp_all

lemma ACPI_get_table_eq:
  assumes "RSD_T k \<noteq> 0" and "holds_string name s"
  shows "ACPI_get_table name k = Inr (find_table (mem k) (RSD_T k) s, k)"
proof -
  let ?n = "ucast (rsdt_count (mem k) (RSD_T k)) :: u64"
  have n: "unat ?n = unat (rsdt_count (mem k) (RSD_T k))"
    using unsigned_less [of "rsdt_count (mem k) (RSD_T k)", where ?'a = nat]
    by (simp add: unsigned_ucast_eq take_bit_nat_eq_self)
  show ?thesis
    using ACPI_table_find [OF assms(2), of 0 ?n "mem k" "RSD_T k"] assms(1)
    by (simp add: ACPI_get_table_def find_table_def rsdt_entries_def find_map n split: option.split)
qed

section \<open>Properties\<close>

text \<open>
  C25. \<^verbatim>\<open>ACPI_init\<close> looks at every byte address of the BIOS area from 0xE0000 to
  0xFFFFE in order and takes the RSDT of the first acceptable RSDP. It fails, and leaves the state
  alone, exactly when there is none.
\<close>

theorem ACPI_init_first:
  "case ACPI_init k of
     (True, k') \<Rightarrow> \<exists>p. 0xE0000 \<le> p \<and> p < 0xFFFFF \<and> acceptable_rsdp (mem k) p \<and>
        (\<forall>q. 0xE0000 \<le> q \<and> q < p \<longrightarrow> \<not> acceptable_rsdp (mem k) q) \<and>
        k' = k\<lparr>RSD_T := rsdt_address (mem k) (word_of_nat p)\<rparr>
   | (False, k') \<Rightarrow> k' = k \<and> \<not> (\<exists>p. 0xE0000 \<le> p \<and> p < 0xFFFFF \<and> acceptable_rsdp (mem k) p)"
  using ACPI_scan_cases [of "0xE0000" "0xE0000" "0xFFFFF" "mem k"]
  by (auto simp: ACPI_init_def split: option.splits)

text \<open>
  C26. \<^verbatim>\<open>ACPI_get_table\<close> returns the address of the first table of the RSDT whose
  signature is the given name, and the null pointer exactly when no entry has it. It looks at
  (length - 36) / 4 entries, never faults on the name comparison and changes nothing.
\<close>

theorem ACPI_get_table_first:
  assumes "RSD_T k \<noteq> 0" and "holds_string name s" and "36 \<le> unat (table_length (mem k) (RSD_T k))"
  shows "\<exists>t. ACPI_get_table name k = Inr (t, k) \<and>
    (let entries = map (\<lambda>j. rsdt_entry (mem k) (RSD_T k) (word_of_nat j))
                       [0..<(unat (table_length (mem k) (RSD_T k)) - 36) div 4] in
     t = (case find (\<lambda>e. table_name (mem k) e = s) entries of None \<Rightarrow> 0 | Some e \<Rightarrow> e))"
  using ACPI_get_table_eq [OF assms(1,2)]
  by (simp add: find_table_def rsdt_entries_def rsdt_count_nat [OF assms(3)])

text \<open>
  C27. The length of the checked table is cut to its low eight bits on the way into
  \<^verbatim>\<open>acpi_checksum\<close>: the check adds up (length mod 256) bytes only, and a table
  whose length is a multiple of 256 passes whatever it holds.
\<close>

theorem acpi_checksum_low_byte:
  "(acpi_checksum d (ucast (len :: u32)) \<longleftrightarrow> 256 dvd byte_sum d (unat len mod 256)) \<and>
   acpi_checksum d (ucast (256 * len))"
proof -
  have u: "unat (ucast (x :: u32) :: u8) = unat x mod 256" for x
    by (simp add: unsigned_ucast_eq take_bit_eq_mod)
  have "(ucast (256 * len) :: u8) = 0"
    by (rule bit_eqI) (simp add: bit_simps bit_word_half_eq push_bit_eq_mult [of 8, symmetric, simplified] mult.commute)
  then show ?thesis by (simp add: acpi_checksum_sum u byte_sum_def)
qed

section \<open>Witness\<close>

text \<open>An RSDT at 0x1000 with one entry, a table with the signature MCFG at 0x2000.\<close>

definition acpi_demo :: acpi where
  "acpi_demo = \<lparr>mem = (\<lambda>_. 0)(0x1004 := 40, 0x1025 := 0x20, 0x2000 := 77, 0x2001 := 67, 0x2002 := 70,
                              0x2003 := 71),
                console = [], trace = [], RSD_T = 0x1000\<rparr>"

lemma MCFG_name: "holds_string (literal ''MCFG'') [77, 67, 70, 71]"
  using literal_holds [of "''MCFG''"] by (simp add: char_bytes_def)

lemma ACPI_get_table_first_witness:
  "ACPI_get_table (literal ''MCFG'') acpi_demo = Inr (0x2000, acpi_demo)"
proof -
  have len: "table_length (mem acpi_demo) (RSD_T acpi_demo) = 40"
    by (simp add: acpi_demo_def table_length_def read_u32_def read_u16_def)
  have e: "rsdt_entry (mem acpi_demo) (RSD_T acpi_demo) 0 = 0x2000"
    by (simp add: acpi_demo_def rsdt_entry_def rsdt_header_size_def read_u32_def read_u16_def)
  have n: "table_name (mem acpi_demo) 0x2000 = [77, 67, 70, 71]"
    by (simp add: acpi_demo_def table_name_def bytes_def upt_rec)
  have "RSD_T acpi_demo \<noteq> 0" by (simp add: acpi_demo_def)
  from ACPI_get_table_first [OF this MCFG_name] show ?thesis
    by (simp add: len e n upt_rec)
qed

text \<open>A machine whose BIOS area starts with an RSDP for an empty RSDT at 0x1000.\<close>

definition bios_demo :: acpi where
  "bios_demo = \<lparr>mem = (\<lambda>_. 0)(0xE0000 := 82, 0xE0001 := 83, 0xE0002 := 68, 0xE0003 := 32, 0xE0004 := 80,
                              0xE0005 := 84, 0xE0006 := 82, 0xE0007 := 32, 0xE0008 := 209, 0xE0011 := 16,
                              0x1000 := 82, 0x1001 := 83, 0x1002 := 68, 0x1003 := 84, 0x1004 := 36, 0x1009 := 159),
                console = [], trace = [], RSD_T = 0\<rparr>"

lemma bios_demo_acceptable: "acceptable_rsdp (mem bios_demo) 0xE0000"
proof -
  have r: "rsdt_address (mem bios_demo) 0xE0000 = 0x1000" "table_length (mem bios_demo) 0x1000 = 36"
    by (simp_all add: bios_demo_def rsdt_address_def table_length_def read_u64_def read_u32_def read_u16_def)
  have "byte_sum (at (mem bios_demo) 0xE0000) 20 = 768" "byte_sum (at (mem bios_demo) 0x1000) 36 = 512"
    by (simp_all add: byte_sum_def bios_demo_def lessThan_nat_numeral lessThan_Suc)
  moreover have "bytes (mem bios_demo) 0xE0000 8 = char_bytes ''RSD PTR ''"
    "bytes (mem bios_demo) 0x1000 4 = char_bytes ''RSDT''"
    by (simp_all add: bytes_def bios_demo_def upt_rec char_bytes_def)
  ultimately show ?thesis by (simp add: acceptable_rsdp_def r)
qed

lemma ACPI_init_first_witness: "ACPI_init bios_demo = (True, bios_demo\<lparr>RSD_T := 0x1000\<rparr>)"
proof -
  obtain ok k' where run: "ACPI_init bios_demo = (ok, k')" by (cases "ACPI_init bios_demo")
  have a: "0xE0000 \<le> (0xE0000 :: nat) \<and> (0xE0000 :: nat) < 0xFFFFF \<and> acceptable_rsdp (mem bios_demo) 0xE0000"
    using bios_demo_acceptable by simp
  note first = ACPI_init_first [of bios_demo, unfolded run prod.case]
  have ok: "ok"
  proof (rule ccontr)
    assume "\<not> ok"
    with first have "\<not> (\<exists>p. 0xE0000 \<le> p \<and> p < 0xFFFFF \<and> acceptable_rsdp (mem bios_demo) p)" by simp
    with a show False by blast
  qed
  then obtain p where p: "0xE0000 \<le> p" "\<forall>q. 0xE0000 \<le> q \<and> q < p \<longrightarrow> \<not> acceptable_rsdp (mem bios_demo) q"
    "k' = bios_demo\<lparr>RSD_T := rsdt_address (mem bios_demo) (word_of_nat p)\<rparr>" using first by auto
  then have "p = 0xE0000" using a by (metis nat_less_le)
  then show ?thesis
    using run ok p(3) by (simp add: bios_demo_def rsdt_address_def read_u64_def read_u32_def read_u16_def)
qed

end
