(* ===== verification/Allocator.thy ===== *)
theory Allocator
  imports Ketone_Base
begin

text \<open>
  The block allocator of \<^verbatim>\<open>mem_manager/allocator.c\<close>: \<^verbatim>\<open>alloc\<close>,
  \<^verbatim>\<open>alloc_aligned\<close> and \<^verbatim>\<open>free\<close> over the \<^verbatim>\<open>heap_t\<close> of
  \<^verbatim>\<open>manager.h\<close>. The block table \<^verbatim>\<open>blocks\<close> is a list; an index at or
  beyond its length is an access outside the table and ends in \<open>OutOfBounds\<close>.
\<close>

section \<open>Data\<close>

record allocation =
  isAllocated :: bool
  start_block :: u32
  end_block :: u32

record heap =
  block_size :: u16
  start_addr :: u64
  max_size :: u64
  blocks :: "allocation list"

text \<open>\<^verbatim>\<open>block_size\<close> as the 64-bit operand it is promoted to, and the number of
  blocks the loops compare with.\<close>

abbreviation bsize :: "heap \<Rightarrow> u64" where
  "bsize h \<equiv> ucast (block_size h)"

abbreviation total_blocks :: "heap \<Rightarrow> u64" where
  "total_blocks h \<equiv> max_size h div bsize h"

definition free_entry :: allocation where
  "free_entry = \<lparr>isAllocated = False, start_block = 0, end_block = 0\<rparr>"

definition read_block :: "heap \<Rightarrow> u64 \<Rightarrow> allocation result" where
  "read_block h i =
     (if unat i < length (blocks h) then Inr (blocks h ! unat i) else Inl OutOfBounds)"

definition write_block :: "u64 \<Rightarrow> allocation \<Rightarrow> heap \<Rightarrow> heap result" where
  "write_block i b h =
     (if unat i < length (blocks h) then Inr (h\<lparr>blocks := (blocks h)[unat i := b]\<rparr>)
      else Inl OutOfBounds)"

section \<open>Operations\<close>

text \<open>The inner loop of both allocators: look at \<^verbatim>\<open>blocks[i + j]\<close> for
  \<^verbatim>\<open>j < needed\<close> and stop at the first one that is taken (its \<^verbatim>\<open>j\<close> is the
  result); \<open>None\<close> says that the run is free.\<close>

function scan_run :: "heap \<Rightarrow> u64 \<Rightarrow> u64 \<Rightarrow> u64 \<Rightarrow> u64 option result" where
  "scan_run h i needed j =
     (if j < needed then
        (case read_block h (i + j) of
           Inl f \<Rightarrow> Inl f
         | Inr b \<Rightarrow> if isAllocated b then Inr (Some j) else scan_run h i needed (j + 1))
      else Inr None)"
  by pat_completeness auto
termination
  by (relation "measure (\<lambda>(_, _, n, j). unat n - unat j)") (auto simp: unat_step_less)

declare scan_run.simps [simp del]

text \<open>The search loop of \<^verbatim>\<open>alloc\<close>. Its result is the variable
  \<^verbatim>\<open>start\<close>, with -1 for "no start found". A free block whose run is not free
  advances \<^verbatim>\<open>i\<close> twice, once in the branch and once at the end of the body.\<close>

partial_function (option) alloc_search :: "heap \<Rightarrow> u64 \<Rightarrow> u64 \<Rightarrow> u64 result option" where
  "alloc_search h needed i =
     (if total_blocks h > i then
        (case read_block h i of
           Inl f \<Rightarrow> Some (Inl f)
         | Inr b \<Rightarrow>
             if \<not> isAllocated b then
               (case scan_run h i needed 0 of
                  Inl f \<Rightarrow> Some (Inl f)
                | Inr None \<Rightarrow> Some (Inr i)
                | Inr (Some _) \<Rightarrow> alloc_search h needed (i + 1 + 1))
             else if ucast (end_block b) > i then alloc_search h needed (ucast (end_block b))
             else alloc_search h needed (i + 1))
      else Some (Inr (- 1)))"

declare alloc_search.simps [code]

text \<open>\<^verbatim>\<open>for (f = start; f < start + needed; f++)\<close>: mark the run taken.\<close>

definition mark_run :: "u64 \<Rightarrow> u64 \<Rightarrow> heap \<Rightarrow> heap result" where
  "mark_run start needed =
     for_u64_r start (start + needed)
       (\<lambda>f. write_block f \<lparr>isAllocated = True, start_block = ucast start,
                           end_block = ucast (start + needed)\<rparr>)"

definition alloc :: "heap \<Rightarrow> u64 \<Rightarrow> (u64 \<times> heap) result" where
  "alloc h sz =
     (if sz = 0 then Inr (0, h)
      else if bsize h = 0 then Inl DivideByZero
      else
        let needed = (sz + bsize h - 1) div bsize h in
        (case alloc_search h needed 0 of
           None \<Rightarrow> Inl Diverges
         | Some (Inl f) \<Rightarrow> Inl f
         | Some (Inr start) \<Rightarrow>
             if start = - 1 then Inr (0, h)
             else (case mark_run start needed h of
                     Inl f \<Rightarrow> Inl f
                   | Inr h' \<Rightarrow> Inr (start_addr h + start * bsize h, h'))))"

text \<open>The loop of \<^verbatim>\<open>alloc_aligned\<close>: \<open>Some (Inr (Some i))\<close> when it takes the
  run that starts at block \<open>i\<close>, \<open>Some (Inr None)\<close> when it falls out of the loop.\<close>

partial_function (option) alloc_aligned_search ::
  "heap \<Rightarrow> u64 \<Rightarrow> u64 \<Rightarrow> u64 \<Rightarrow> u64 option result option" where
  "alloc_aligned_search h alignment needed i =
     (if i + needed \<le> total_blocks h then
        let addr = start_addr h + i * bsize h in
        if addr AND (alignment - 1) \<noteq> 0 then
          alloc_aligned_search h alignment needed
            ((align_up addr alignment - start_addr h + bsize h - 1) div bsize h)
        else
          (case scan_run h i needed 0 of
             Inl f \<Rightarrow> Some (Inl f)
           | Inr None \<Rightarrow> Some (Inr (Some i))
           | Inr (Some j) \<Rightarrow>
               (case read_block h (i + j) of
                  Inl f \<Rightarrow> Some (Inl f)
                | Inr b \<Rightarrow>
                    alloc_aligned_search h alignment needed
                      (if ucast (end_block b) > i + j then ucast (end_block b) else i + j + 1)))
      else Some (Inr None))"

declare alloc_aligned_search.simps [code]

definition alloc_aligned :: "heap \<Rightarrow> u64 \<Rightarrow> u64 \<Rightarrow> (u64 \<times> heap) result" where
  "alloc_aligned h sz align0 =
     (if sz = 0 then Inr (0, h)
      else
        let alignment = (if align0 = 0 then 1 else align0) in
        if alignment AND (alignment - 1) \<noteq> 0 then Inr (0, h)
        else if bsize h = 0 then Inl DivideByZero
        else
          let needed = (sz + bsize h - 1) div bsize h in
          if needed > total_blocks h then Inr (0, h)
          else
            (case alloc_aligned_search h alignment needed 0 of
               None \<Rightarrow> Inl Diverges
             | Some (Inl f) \<Rightarrow> Inl f
             | Some (Inr None) \<Rightarrow> Inr (0, h)
             | Some (Inr (Some i)) \<Rightarrow>
                 (case mark_run i needed h of
                    Inl f \<Rightarrow> Inl f
                  | Inr h' \<Rightarrow> Inr (start_addr h + i * bsize h, h'))))"

definition free :: "heap \<Rightarrow> u64 \<Rightarrow> heap result" where
  "free h ptr =
     (if ptr = 0 then Inr h
      else if bsize h = 0 then Inl DivideByZero
      else
        let block = (ptr - start_addr h) div bsize h in
        (case read_block h block of
           Inl f \<Rightarrow> Inl f
         | Inr b \<Rightarrow>
             for_u64_r block (ucast (end_block b)) (\<lambda>i. write_block i free_entry) h))"

end
