(* ===== verification/Provider.thy ===== *)
theory Provider
  imports Ketone_Base
begin

text \<open>
  The interface between the memory allocators and the code that calls them. \<open>provider\<close> is what
  a client relies on when it asks for memory: a grant is fresh and stays accounted for.
  \<open>reclaiming_provider\<close> adds a release that undoes a grant. The clients' lemmas are proved once
  here; the block allocator and the bump allocator interpret the locales on their own operations.
\<close>

text \<open>The addresses \<^verbatim>\<open>[p, p + size)\<close>, and a series of requests, which stops at the
  first fault.\<close>

definition extent :: "u64 \<Rightarrow> u64 \<Rightarrow> nat set" where
  "extent p sz = {unat p..<unat p + unat sz}"

fun request_all ::
  "('h \<Rightarrow> u64 \<Rightarrow> (u64 \<times> 'h) result) \<Rightarrow> 'h \<Rightarrow> u64 list \<Rightarrow> ((u64 \<times> u64) list \<times> 'h) result" where
  "request_all req h [] = Inr ([], h)"
| "request_all req h (sz # szs) =
     (case req h sz of
        Inl f \<Rightarrow> Inl f
      | Inr (p, h') \<Rightarrow>
          (case request_all req h' szs of
             Inl f \<Rightarrow> Inl f
           | Inr (grants, h'') \<Rightarrow> Inr (if p = 0 then grants else (p, sz) # grants, h'')))"

fun release_all :: "('h \<Rightarrow> u64 \<Rightarrow> 'h result) \<Rightarrow> 'h \<Rightarrow> u64 list \<Rightarrow> 'h result" where
  "release_all rel h [] = Inr h"
| "release_all rel h (p # ps) = (case rel h p of Inl f \<Rightarrow> Inl f | Inr h' \<Rightarrow> release_all rel h' ps)"

definition disjoint_grants :: "(u64 \<times> u64) list \<Rightarrow> bool" where
  "disjoint_grants = sorted_wrt (\<lambda>(p, sz) (q, tz). extent p sz \<inter> extent q tz = {})"

lemma release_all_append:
  "release_all rel h (ps @ qs) =
     (case release_all rel h ps of Inl f \<Rightarrow> Inl f | Inr h' \<Rightarrow> release_all rel h' qs)"
  by (induction ps arbitrary: h) (auto split: sum.splits)

locale provider =
  fixes inv :: "'h \<Rightarrow> bool"
    and used :: "'h \<Rightarrow> nat set"
    and fits :: "'h \<Rightarrow> u64 \<Rightarrow> bool"
    and request :: "'h \<Rightarrow> u64 \<Rightarrow> (u64 \<times> 'h) result"
  assumes request_inv: "inv h \<Longrightarrow> fits h sz \<Longrightarrow> request h sz = Inr (p, h') \<Longrightarrow> inv h'"
    and request_fits: "inv h \<Longrightarrow> fits h sz \<Longrightarrow> request h sz = Inr (p, h') \<Longrightarrow> fits h' = fits h"
    and request_refused: "inv h \<Longrightarrow> fits h sz \<Longrightarrow> request h sz = Inr (0, h') \<Longrightarrow> h' = h"
    and request_fresh: "inv h \<Longrightarrow> fits h sz \<Longrightarrow> request h sz = Inr (p, h') \<Longrightarrow> p \<noteq> 0 \<Longrightarrow>
          extent p sz \<inter> used h = {}"
    and request_used: "inv h \<Longrightarrow> fits h sz \<Longrightarrow> request h sz = Inr (p, h') \<Longrightarrow> p \<noteq> 0 \<Longrightarrow>
          used h \<union> extent p sz \<subseteq> used h'"
begin

lemma request_all_sound:
  "inv h \<Longrightarrow> (\<And>sz. sz \<in> set szs \<Longrightarrow> fits h sz) \<Longrightarrow> request_all request h szs = Inr (gs, h') \<Longrightarrow>
     inv h' \<and> used h \<subseteq> used h' \<and> disjoint_grants gs \<and>
     (\<forall>(p, sz) \<in> set gs. extent p sz \<inter> used h = {} \<and> extent p sz \<subseteq> used h')"
proof (induction szs arbitrary: h gs h')
  case Nil
  then show ?case by (simp add: disjoint_grants_def)
next
  case (Cons sz szs)
  from Cons.prems(3) obtain p h1 gs' where req: "request h sz = Inr (p, h1)"
    and rest: "request_all request h1 szs = Inr (gs', h')"
    and gs: "gs = (if p = 0 then gs' else (p, sz) # gs')"
    by (auto split: sum.splits)
  have fit: "fits h sz" using Cons.prems(2) by simp
  note step = Cons.prems(1) fit req
  have "inv h1" by (rule request_inv [OF step])
  moreover have "fits h1 tz" if "tz \<in> set szs" for tz
    using Cons.prems(2) that request_fits [OF step] by simp
  ultimately have IH: "inv h' \<and> used h1 \<subseteq> used h' \<and> disjoint_grants gs' \<and>
      (\<forall>(p, sz) \<in> set gs'. extent p sz \<inter> used h1 = {} \<and> extent p sz \<subseteq> used h')"
    using rest by (rule Cons.IH)
  show ?case
  proof (cases "p = 0")
    case True
    with step have "h1 = h" using request_refused by blast
    with IH True gs show ?thesis by simp
  next
    case False
    note fresh = request_fresh [OF step False] and grow = request_used [OF step False]
    from IH have inv': "inv h'" and up: "used h1 \<subseteq> used h'" and dis: "disjoint_grants gs'"
      and each: "\<And>q tz. (q, tz) \<in> set gs' \<Longrightarrow> extent q tz \<inter> used h1 = {} \<and> extent q tz \<subseteq> used h'"
      by auto
    have "disjoint_grants ((p, sz) # gs')"
      unfolding disjoint_grants_def sorted_wrt.simps
    proof (intro conjI ballI)
      fix g assume "g \<in> set gs'"
      then show "(case (p, sz) of (p, sz) \<Rightarrow> \<lambda>(q, tz). extent p sz \<inter> extent q tz = {}) g"
        using each [of "fst g" "snd g"] grow by (cases g) auto
    qed (use dis in \<open>simp add: disjoint_grants_def\<close>)
    moreover have "\<forall>(q, tz) \<in> set ((p, sz) # gs'). extent q tz \<inter> used h = {} \<and> extent q tz \<subseteq> used h'"
    proof (intro ballI)
      fix g assume g: "g \<in> set ((p, sz) # gs')"
      show "case g of (q, tz) \<Rightarrow> extent q tz \<inter> used h = {} \<and> extent q tz \<subseteq> used h'"
      proof (cases "g = (p, sz)")
        case True
        then show ?thesis using fresh grow up by auto
      next
        case False
        then show ?thesis using g each [of "fst g" "snd g"] grow by (cases g) auto
      qed
    qed
    moreover have "used h \<subseteq> used h'" using grow up by blast
    moreover have "gs = (p, sz) # gs'" using gs False by simp
    ultimately show ?thesis using inv' by blast
  qed
qed

end

locale reclaiming_provider = provider +
  fixes release :: "'h \<Rightarrow> u64 \<Rightarrow> 'h result"
  assumes release_undoes: "inv h \<Longrightarrow> fits h sz \<Longrightarrow> request h sz = Inr (p, h') \<Longrightarrow> p \<noteq> 0 \<Longrightarrow>
    release h' p = Inr h"
begin

text \<open>A series of grants released in the opposite order leaves the allocator as it was.\<close>

lemma release_all_undoes:
  "inv h \<Longrightarrow> (\<And>sz. sz \<in> set szs \<Longrightarrow> fits h sz) \<Longrightarrow> request_all request h szs = Inr (gs, h') \<Longrightarrow>
     release_all release h' (rev (map fst gs)) = Inr h"
proof (induction szs arbitrary: h gs h')
  case Nil
  then show ?case by simp
next
  case (Cons sz szs)
  from Cons.prems(3) obtain p h1 gs' where req: "request h sz = Inr (p, h1)"
    and rest: "request_all request h1 szs = Inr (gs', h')"
    and gs: "gs = (if p = 0 then gs' else (p, sz) # gs')"
    by (auto split: sum.splits)
  have fit: "fits h sz" using Cons.prems(2) by simp
  note step = Cons.prems(1) fit req
  have "fits h1 tz" if "tz \<in> set szs" for tz
    using Cons.prems(2) that request_fits [OF step] by simp
  then have IH: "release_all release h' (rev (map fst gs')) = Inr h1"
    using rest by (intro Cons.IH [OF request_inv [OF step]])
  show ?case
  proof (cases "p = 0")
    case True
    with step have "h1 = h" using request_refused by blast
    with IH True gs show ?thesis by simp
  next
    case False
    then show ?thesis
      using IH release_undoes [OF step False] gs by (simp add: release_all_append)
  qed
qed

end

end
