(* ===== verification/Bump_Alloc.thy ===== *)
theory Bump_Alloc
  imports Provider
begin

text \<open>
  The bump allocator of \<^verbatim>\<open>mem_manager/bump_allocator.c\<close>, which hands out address space
  for device registers and never takes it back. Its operations cannot fault: a refused request
  returns the null pointer.
\<close>

section \<open>Data and operations\<close>

record bump_heap =
  bump_start :: u64
  bump_next :: u64
  bump_size :: u64

definition bump_alloc_aligned :: "bump_heap \<Rightarrow> u64 \<Rightarrow> u64 \<Rightarrow> u64 \<times> bump_heap" where
  "bump_alloc_aligned h sz align0 =
     (if sz = 0 then (0, h)
      else
        let align = (if align0 = 0 then 1 else align0) in
        if align AND (align - 1) \<noteq> 0 then (0, h)
        else
          let end_addr = bump_start h + bump_size h;
              addr = align_up (bump_next h) align in
          if addr > end_addr \<or> sz > end_addr - addr then (0, h)
          else (addr, h\<lparr>bump_next := addr + sz\<rparr>))"

definition bump_alloc :: "bump_heap \<Rightarrow> u64 \<Rightarrow> u64 \<times> bump_heap" where
  "bump_alloc h sz = bump_alloc_aligned h sz 1"

section \<open>The invariant and the equation of a request\<close>

text \<open>The next free address lies in the region, the region does not start at the null pointer
  and ends in the lower half of the address space, so that no alignment can make the rounded
  address wrap (the kernel's region ends at 4 GiB).\<close>

definition bump_inv :: "bump_heap \<Rightarrow> bool" where
  "bump_inv h \<longleftrightarrow>
     0 < unat (bump_start h) \<and> unat (bump_start h) \<le> unat (bump_next h) \<and>
     unat (bump_next h) \<le> unat (bump_start h) + unat (bump_size h) \<and>
     unat (bump_start h) + unat (bump_size h) \<le> 2 ^ 63"

abbreviation bump_end :: "bump_heap \<Rightarrow> nat" where
  "bump_end h \<equiv> unat (bump_start h) + unat (bump_size h)"

definition bump_addr :: "bump_heap \<Rightarrow> nat \<Rightarrow> nat" where
  "bump_addr h A = (unat (bump_next h) + A - 1) div A * A"

lemma bump_invD:
  assumes "bump_inv h"
  shows "0 < unat (bump_start h)" "unat (bump_start h) \<le> unat (bump_next h)"
    "unat (bump_next h) \<le> bump_end h" "bump_end h \<le> 2 ^ 63"
    and "unat (bump_start h + bump_size h) = bump_end h"
proof -
  show "0 < unat (bump_start h)" "unat (bump_start h) \<le> unat (bump_next h)"
    "unat (bump_next h) \<le> bump_end h" "bump_end h \<le> 2 ^ 63"
    using assms by (simp_all add: bump_inv_def)
  then show "unat (bump_start h + bump_size h) = bump_end h"
    by (intro unat_add_u64) simp
qed

lemma bump_addr_bounds:
  assumes "0 < A"
  shows "unat (bump_next h) \<le> bump_addr h A" and "A dvd bump_addr h A"
    and "A dvd a \<Longrightarrow> unat (bump_next h) \<le> a \<Longrightarrow> bump_addr h A \<le> a"
proof -
  show "unat (bump_next h) \<le> bump_addr h A"
    unfolding bump_addr_def by (rule ceil_mult_bounds [OF assms])
  show "A dvd bump_addr h A" by (simp add: bump_addr_def)
  show "bump_addr h A \<le> a" if "A dvd a" "unat (bump_next h) \<le> a"
  proof (rule ccontr)
    assume "\<not> bump_addr h A \<le> a"
    moreover from \<open>A dvd a\<close> obtain m where "a = m * A" by (metis dvd_def mult.commute)
    ultimately show False
      using that(2) no_multiple_between [OF assms, of "unat (bump_next h)" m]
      by (simp add: bump_addr_def)
  qed
qed

lemma bump_alloc_aligned_eq:
  assumes "bump_inv h" and "sz \<noteq> 0" and "k < 64"
  shows "bump_alloc_aligned h sz (2 ^ k) =
    (if bump_addr h (2 ^ k) + unat sz \<le> bump_end h
     then (word_of_nat (bump_addr h (2 ^ k)),
           h\<lparr>bump_next := word_of_nat (bump_addr h (2 ^ k) + unat sz)\<rparr>)
     else (0, h))"
proof -
  let ?A = "2 ^ k :: nat" and ?a = "bump_addr h (2 ^ k)" and ?e = "bump_start h + bump_size h"
  note inv = bump_invD [OF assms(1)]
  have al0: "(2 ^ k :: u64) \<noteq> 0" using linorder_not_le [THEN iffD2, OF assms(3)] by simp
  have test: "(2 ^ k :: u64) AND (2 ^ k - 1) = 0"
    by (simp only: aligned_test [OF assms(3)] pow2_u64_nat [OF assms(3)] dvd_refl)
  have "?A \<le> 2 ^ 63" using assms(3) by (intro power_increasing) auto
  then have nowrap: "unat (bump_next h) + 2 ^ k - 1 < 2 ^ 64" using inv(3,4) by simp
  then have addr: "unat (align_up (bump_next h) (2 ^ k)) = ?a"
    by (simp only: unat_align_up [OF assms(3)] bump_addr_def)
  then have word: "align_up (bump_next h) (2 ^ k) = word_of_nat ?a" by (metis of_nat_unat ucast_id)
  have refuse: "align_up (bump_next h) (2 ^ k) > ?e \<or> sz > ?e - align_up (bump_next h) (2 ^ k) \<longleftrightarrow>
      \<not> ?a + unat sz \<le> bump_end h"
  proof (cases "?a \<le> bump_end h")
    case True
    then have "align_up (bump_next h) (2 ^ k) \<le> ?e" by (simp only: word_le_nat_alt addr inv(5))
    then have "unat (?e - align_up (bump_next h) (2 ^ k)) = bump_end h - ?a"
      by (simp only: unat_sub addr inv(5))
    then have "sz > ?e - align_up (bump_next h) (2 ^ k) \<longleftrightarrow> unat sz > bump_end h - ?a"
      by (simp only: word_less_nat_alt)
    moreover have "unat sz > bump_end h - ?a \<longleftrightarrow> \<not> ?a + unat sz \<le> bump_end h"
      using True by arith
    ultimately show ?thesis using True by (simp only: word_less_nat_alt addr inv(5)) simp
  next
    case False
    then show ?thesis by (simp only: word_less_nat_alt addr inv(5)) simp
  qed
  show ?thesis
    unfolding bump_alloc_aligned_def Let_def
    using assms(2) al0 test by (simp only: refuse if_False) (simp add: word)
qed

text \<open>Every granted request, for any alignment argument.\<close>

lemma bump_grantD:
  assumes "bump_inv h" and "sz \<noteq> 0" and "bump_alloc_aligned h sz a = (p, h')"
  shows "(p = 0 \<and> h' = h) \<or>
    (unat (bump_next h) \<le> unat p \<and> unat p + unat sz \<le> bump_end h \<and> p \<noteq> 0 \<and>
     h' = h\<lparr>bump_next := p + sz\<rparr> \<and> unat (p + sz) = unat p + unat sz)"
proof (cases "(if a = 0 then 1 else a) AND ((if a = 0 then 1 else a) - 1) = 0")
  case False
  then have "bump_alloc_aligned h sz a = (0, h)"
    using assms(2) by (auto simp: bump_alloc_aligned_def Let_def)
  with assms(3) show ?thesis by simp
next
  case True
  then obtain k where k: "k < 64" "(if a = 0 then 1 else a) = 2 ^ k" by (rule power_two_alignment)
  have "bump_alloc_aligned h sz a = bump_alloc_aligned h sz (2 ^ k)"
    using k linorder_not_le [THEN iffD2, OF k(1)] by (auto simp: bump_alloc_aligned_def split: if_splits)
  then have eq: "(p, h') = (if bump_addr h (2 ^ k) + unat sz \<le> bump_end h
     then (word_of_nat (bump_addr h (2 ^ k)),
           h\<lparr>bump_next := word_of_nat (bump_addr h (2 ^ k) + unat sz)\<rparr>) else (0, h))"
    using bump_alloc_aligned_eq [OF assms(1,2) k(1)] assms(3) by simp
  show ?thesis
  proof (cases "bump_addr h (2 ^ k) + unat sz \<le> bump_end h")
    case True
    note inv = bump_invD [OF assms(1)]
    have "bump_addr h (2 ^ k) < 2 ^ 64" "bump_addr h (2 ^ k) + unat sz < 2 ^ 64"
      using True inv(4) by simp_all
    moreover have p: "p = word_of_nat (bump_addr h (2 ^ k))"
      "h' = h\<lparr>bump_next := word_of_nat (bump_addr h (2 ^ k) + unat sz)\<rparr>"
      using eq True by simp_all
    ultimately have up: "unat p = bump_addr h (2 ^ k)" by (simp only: unat_of_nat_u64)
    have "word_of_nat (bump_addr h (2 ^ k) + unat sz) = p + sz" using p(1) by simp
    moreover have "unat (p + sz) = unat p + unat sz"
      using \<open>bump_addr h (2 ^ k) + unat sz < 2 ^ 64\<close> up by (intro unat_add_u64) simp
    moreover have "unat (bump_next h) \<le> unat p"
      unfolding up by (rule bump_addr_bounds) simp
    ultimately show ?thesis using p(2) True up inv(1,2) by auto
  next
    case False
    then show ?thesis using eq by simp
  qed
qed

section \<open>The bump allocator as a memory provider\<close>

definition bump_used :: "bump_heap \<Rightarrow> nat set" where
  "bump_used h = {unat (bump_start h)..<unat (bump_next h)}"

interpretation bump: provider bump_inv bump_used "\<lambda>h sz. sz \<noteq> 0"
  "\<lambda>h sz. Inr (bump_alloc_aligned h sz a)" for a
proof
  fix h sz p h' assume h: "bump_inv h" "sz \<noteq> 0"
    and a: "Inr (bump_alloc_aligned h sz a) = (Inr (p, h') :: (u64 \<times> bump_heap) result)"
  have "bump_alloc_aligned h sz a = (p, h')" using a by simp
  note grant = bump_grantD [OF h this]
  show "bump_inv h'" using grant h(1) by (auto simp: bump_inv_def)
  show "(\<lambda>sz. sz \<noteq> 0) = (\<lambda>sz. sz \<noteq> (0 :: u64))" by (rule refl)
  assume p: "p \<noteq> 0"
  show "extent p sz \<inter> bump_used h = {}" using grant p by (auto simp: extent_def bump_used_def)
  show "bump_used h \<union> extent p sz \<subseteq> bump_used h'"
    using grant p bump_invD(2) [OF h(1)] by (auto simp: extent_def bump_used_def)
next
  fix h sz h' assume "bump_inv h" "sz \<noteq> 0"
    "Inr (bump_alloc_aligned h sz a) = (Inr (0, h') :: (u64 \<times> bump_heap) result)"
  then show "h' = h" using bump_grantD by blast
qed

section \<open>Properties\<close>

definition bump4k :: bump_heap where
  "bump4k = \<lparr>bump_start = 0x1000, bump_next = 0x1010, bump_size = 0x1000\<rparr>"

lemma bump4k_inv: "bump_inv bump4k"
  by (simp add: bump4k_def bump_inv_def)

text \<open>
  C8. \<^verbatim>\<open>bump_alloc_aligned\<close> grants a request exactly when the lowest aligned
  address at or after the next free one leaves room for it before the end of the region; it
  returns that address and moves the next free address to the end of the grant.
\<close>

theorem bump_alloc_aligned_exact:
  assumes "bump_inv h" and "sz \<noteq> 0" and "k < 64"
  shows "\<exists>a. unat (bump_next h) \<le> a \<and> 2 ^ k dvd a \<and>
     (\<forall>b. unat (bump_next h) \<le> b \<and> 2 ^ k dvd b \<longrightarrow> a \<le> b) \<and>
     bump_alloc_aligned h sz (2 ^ k) =
       (if a + unat sz \<le> bump_end h
        then (word_of_nat a, h\<lparr>bump_next := word_of_nat (a + unat sz)\<rparr>) else (0, h))"
proof -
  have A: "(0 :: nat) < 2 ^ k" by simp
  show ?thesis
    using bump_addr_bounds [OF A, where h = h] bump_alloc_aligned_eq [OF assms]
    by (intro exI [of _ "bump_addr h (2 ^ k)"]) blast
qed

theorem bump_alloc_aligned_exact_witness:
  "\<exists>a. unat (bump_next bump4k) \<le> a \<and> 2 ^ 8 dvd a \<and>
     (\<forall>b. unat (bump_next bump4k) \<le> b \<and> 2 ^ 8 dvd b \<longrightarrow> a \<le> b) \<and>
     bump_alloc_aligned bump4k 64 (2 ^ 8) =
       (if a + unat (64 :: u64) \<le> bump_end bump4k
        then (word_of_nat a, bump4k\<lparr>bump_next := word_of_nat (a + unat (64 :: u64))\<rparr>)
        else (0, bump4k))"
  by (rule bump_alloc_aligned_exact [OF bump4k_inv]) simp_all

text \<open>
  C28. The address ranges a series of bump requests is granted, whatever their alignment, are
  pairwise disjoint, lie above everything granted before, and the region invariant still holds.
\<close>

theorem bump_requests_disjoint:
  assumes "bump_inv h" and "\<And>sz. sz \<in> set szs \<Longrightarrow> sz \<noteq> 0"
    and "request_all (\<lambda>h sz. Inr (bump_alloc_aligned h sz a)) h szs = Inr (gs, h')"
  shows "bump_inv h' \<and> bump_used h \<subseteq> bump_used h' \<and> disjoint_grants gs \<and>
     (\<forall>(p, sz) \<in> set gs. extent p sz \<inter> bump_used h = {} \<and> extent p sz \<subseteq> bump_used h')"
  using assms by (rule bump.request_all_sound)

theorem bump_requests_disjoint_witness:
  "\<exists>h'. request_all (\<lambda>h sz. Inr (bump_alloc_aligned h sz 256)) bump4k [16, 16] =
        Inr ([(0x1100, 16), (0x1200, 16)], h') \<and>
     bump_inv h' \<and> disjoint_grants [(0x1100, 16), (0x1200, 16)]"
proof -
  have "\<exists>h'. request_all (\<lambda>h sz. Inr (bump_alloc_aligned h sz 256)) bump4k [16, 16] =
      Inr ([(0x1100, 16), (0x1200, 16)], h')"
    by (rule exI, code_simp)
  then obtain h' where a: "request_all (\<lambda>h sz. Inr (bump_alloc_aligned h sz 256)) bump4k [16, 16] =
      Inr ([(0x1100, 16), (0x1200, 16)], h')" by blast
  have "bump_inv h' \<and> bump_used bump4k \<subseteq> bump_used h' \<and> disjoint_grants [(0x1100, 16), (0x1200, 16)] \<and>
     (\<forall>(p, sz) \<in> set [(0x1100, 16), (0x1200, 16)].
        extent p sz \<inter> bump_used bump4k = {} \<and> extent p sz \<subseteq> bump_used h')"
    by (rule bump_requests_disjoint [OF bump4k_inv _ a]) auto
  with a show ?thesis by blast
qed

end
