(* ===== verification/Mem_Manager.thy ===== *)
theory Mem_Manager
  imports Acpi Allocator Bump_Alloc
begin

text \<open>
  The memory manager (\<^verbatim>\<open>mem_manager/manager.c\<close>): it reads the E820 memory map,
  places the root heap and the low heap in usable memory, finds the largest hole below 4 GiB for
  device registers, and offers the allocators on the three heaps. The map, the heaps and their block
  tables are typed objects; a null pointer to one of them is \<open>None\<close>.
\<close>

section \<open>Data\<close>

record e820_entry =
  e_base :: u64
  e_length :: u64
  e_type :: u32
  e_attributes :: u32

text \<open>\<^verbatim>\<open>entries\<close> is an array of 64.\<close>

record e820_map =
  e_count :: u16
  e_entries :: "e820_entry list"

record mem_range =
  r_base :: u64
  r_end :: u64

text \<open>The static variables of \<^verbatim>\<open>manager.c\<close>; \<open>ranges\<close> holds the first
  \<^verbatim>\<open>range_count\<close> elements of the array of that name.\<close>

record manager = acpi +
  memory_map :: "e820_map option"
  ranges :: "mem_range list"
  root_heap :: "heap option"
  low_heap :: "heap option"
  bump_heap :: "bump_heap option"

definition E820_USABLE :: u32 where "E820_USABLE = 1"
definition E820_RESERVED :: u32 where "E820_RESERVED = 2"
definition E820_MAX_ENTRIES :: u16 where "E820_MAX_ENTRIES = 64"
definition FOUR_GIB :: u64 where "FOUR_GIB = 0x100000000"
definition MAX_RANGES :: nat where "MAX_RANGES = 72"
definition KERNEL_START :: u64 where "KERNEL_START = 0x120000"

text \<open>\<^verbatim>\<open>sizeof\<close> of the structures whose tables are laid out by hand.\<close>

definition sizeof_heap :: u64 where "sizeof_heap = 32"
definition sizeof_allocation :: u64 where "sizeof_allocation = 12"
definition sizeof_e820_map :: u64 where "sizeof_e820_map = 1538"
definition sizeof_bump_heap :: u64 where "sizeof_bump_heap = 24"

definition read_entry :: "e820_map \<Rightarrow> u16 \<Rightarrow> e820_entry result" where
  "read_entry mm i =
     (if unat i < length (e_entries mm) then Inr (e_entries mm ! unat i) else Inl OutOfBounds)"

section \<open>Finding a region of the map\<close>

text \<open>The body of the loop for one entry: the region it offers, if any.\<close>

definition e820_fit ::
  "u32 \<Rightarrow> u64 \<Rightarrow> u64 \<Rightarrow> u64 \<Rightarrow> u64 \<Rightarrow> e820_entry \<Rightarrow> (u64 \<times> u64) option" where
  "e820_fit ty min_size min_addr max_addr align e =
     (if e_type e \<noteq> ty then None
      else
        let start0 = (if e_base e > min_addr then e_base e else min_addr);
            end0 = (if e_length e > - 1 - e_base e then - 1 else e_base e + e_length e);
            end1 = (if end0 > max_addr then max_addr else end0) in
        if start0 > - 1 - (align - 1) then None
        else
          let start1 = align_up start0 align in
          if end1 \<le> start1 then None
          else if end1 - start1 < min_size then None
          else Some (start1, end1 - start1))"

function e820_find_from ::
  "e820_map \<Rightarrow> u32 \<Rightarrow> u64 \<Rightarrow> u64 \<Rightarrow> u64 \<Rightarrow> u64 \<Rightarrow> u16 \<Rightarrow> (u64 \<times> u64) option result" where
  "e820_find_from mm ty min_size min_addr max_addr align i =
     (if i < e_count mm then
        (case read_entry mm i of
           Inl f \<Rightarrow> Inl f
         | Inr e \<Rightarrow>
             (case e820_fit ty min_size min_addr max_addr align e of
                Some r \<Rightarrow> Inr (Some r)
              | None \<Rightarrow> e820_find_from mm ty min_size min_addr max_addr align (i + 1)))
      else Inr None)"
  by pat_completeness auto
termination
  by (relation "measure (\<lambda>(mm, _, _, _, _, _, i). unat (e_count mm) - unat i)") (auto, unat_arith)

declare e820_find_from.simps [simp del]

definition e820_find_region ::
  "u32 \<Rightarrow> u64 \<Rightarrow> u64 \<Rightarrow> u64 \<Rightarrow> u64 \<Rightarrow> 'z manager_scheme \<Rightarrow> (u64 \<times> u64) option result" where
  "e820_find_region ty min_size min_addr max_addr align0 k =
     (case memory_map k of
        None \<Rightarrow> Inr None
      | Some mm \<Rightarrow>
          let align = (if align0 = 0 then 1 else align0) in
          if align AND (align - 1) \<noteq> 0 then Inr None
          else e820_find_from mm ty min_size min_addr max_addr align 0)"

section \<open>The MMIO hole\<close>

definition range_add :: "u64 \<Rightarrow> u64 \<Rightarrow> mem_range list \<Rightarrow> mem_range list" where
  "range_add base end_addr rs =
     (if base \<ge> FOUR_GIB \<or> end_addr \<le> base \<or> length rs \<ge> MAX_RANGES then rs
      else rs @ [\<lparr>r_base = base, r_end = (if end_addr > FOUR_GIB then FOUR_GIB else end_addr)\<rparr>])"

function e820_ranges :: "e820_map \<Rightarrow> u16 \<Rightarrow> mem_range list \<Rightarrow> mem_range list result" where
  "e820_ranges mm i rs =
     (if i < e_count mm then
        (case read_entry mm i of
           Inl f \<Rightarrow> Inl f
         | Inr e \<Rightarrow> e820_ranges mm (i + 1) (range_add (e_base e) (e_base e + e_length e) rs))
      else Inr rs)"
  by pat_completeness auto
termination
  by (relation "measure (\<lambda>(mm, i, _). unat (e_count mm) - unat i)") (auto, unat_arith)

declare e820_ranges.simps [simp del]

definition fixed_ranges :: "mem_range list \<Rightarrow> mem_range list" where
  "fixed_ranges rs =
     range_add 0xFFC00000 FOUR_GIB
    (range_add 0xFEE00000 0xFEE01000
    (range_add 0xFED00000 0xFED00400
    (range_add 0xFEC00000 0xFEC01000 rs)))"

text \<open>\<^verbatim>\<open>e[i]\<close> of the MCFG, where \<^verbatim>\<open>e\<close> points right behind
  the 36-byte header.\<close>

definition mcfg_entry_addr :: "u64 \<Rightarrow> u32 \<Rightarrow> u64" where
  "mcfg_entry_addr mcfg i = mcfg + rsdt_header_size + 16 * ucast i"

definition ecam_base :: "memory \<Rightarrow> u64 \<Rightarrow> u64" where
  "ecam_base m a = read_u64 m a + push_bit 20 (ucast (m (a + 10)))"

definition ecam_end :: "memory \<Rightarrow> u64 \<Rightarrow> u64" where
  "ecam_end m a = read_u64 m a + push_bit 20 (ucast (m (a + 11)) + 1)"

function mcfg_ranges :: "u64 \<Rightarrow> u32 \<Rightarrow> u32 \<Rightarrow> 'z manager_scheme \<Rightarrow> 'z manager_scheme" where
  "mcfg_ranges mcfg n i k =
     (if i < n then
        let a = mcfg_entry_addr mcfg i; base = ecam_base (mem k) a; end_addr = ecam_end (mem k) a;
            k1 = k\<lparr>ranges := range_add base end_addr (ranges k)\<rparr>;
            k2 = say_hex64LN end_addr (say_hex64LN base
                   (say_hexLN (ucast (read_u16 (mem k1) (a + 8))) (say ''ECAM seg '' k1))) in
        mcfg_ranges mcfg n (i + 1) k2
      else k)"
  by pat_completeness auto
termination
  by (relation "measure (\<lambda>(_, n, i, _). unat n - unat i)") (auto, unat_arith)

declare mcfg_ranges.simps [simp del]

definition mcfg_count :: "memory \<Rightarrow> u64 \<Rightarrow> u32" where
  "mcfg_count m mcfg = ucast ((ucast (table_length m mcfg) - rsdt_header_size) div 16)"

text \<open>The insertion sort. \<open>sort_shift rs key j\<close> is its inner loop with \<open>j\<close> one more than
  in the code (which counts down to -1), and the assignment after it.\<close>

primrec sort_shift :: "mem_range list \<Rightarrow> mem_range \<Rightarrow> nat \<Rightarrow> mem_range list" where
  "sort_shift rs key 0 = rs[0 := key]"
| "sort_shift rs key (Suc j) =
     (if r_base (rs ! j) > r_base key then sort_shift (rs[Suc j := rs ! j]) key j
      else rs[Suc j := key])"

lemma length_sort_shift [simp]: "length (sort_shift rs key j) = length rs"
  by (induction j arbitrary: rs) simp_all

function sort_from :: "nat \<Rightarrow> mem_range list \<Rightarrow> mem_range list" where
  "sort_from i rs = (if i < length rs then sort_from (i + 1) (sort_shift rs (rs ! i) i) else rs)"
  by pat_completeness auto
termination
  by (relation "measure (\<lambda>(i, rs). length rs - i)") auto

declare sort_from.simps [simp del]

definition sort_ranges :: "mem_range list \<Rightarrow> mem_range list" where
  "sort_ranges rs = sort_from 1 rs"

text \<open>The walk over the sorted ranges; the state is \<^verbatim>\<open>cursor\<close>,
  \<^verbatim>\<open>best_base\<close> and \<^verbatim>\<open>best_size\<close>.\<close>

definition gap_step :: "u64 \<times> u64 \<times> u64 \<Rightarrow> mem_range \<Rightarrow> u64 \<times> u64 \<times> u64" where
  "gap_step = (\<lambda>(cursor, best_base, best_size) r.
     let (best_base, best_size) =
           (if r_base r > cursor \<and> r_base r - cursor > best_size then (cursor, r_base r - cursor)
            else (best_base, best_size)) in
     (if r_end r > cursor then r_end r else cursor, best_base, best_size))"

definition widest_gap :: "mem_range list \<Rightarrow> (u64 \<times> u64) option" where
  "widest_gap rs =
     (let (cursor, best_base, best_size) = foldl gap_step (0, 0, 0) rs;
          (best_base, best_size) =
            (if FOUR_GIB > cursor \<and> FOUR_GIB - cursor > best_size then (cursor, FOUR_GIB - cursor)
             else (best_base, best_size)) in
      if best_size = 0 then None else Some (best_base, best_base + best_size))"

definition find_mmio_hole :: "'z manager_scheme \<Rightarrow> ((u64 \<times> u64) option \<times> 'z manager_scheme) result" where
  "find_mmio_hole k =
     andthen (deref (memory_map k)) (\<lambda>mm.
     andthen (e820_ranges mm 0 []) (\<lambda>rs.
     andthen (ACPI_get_table (literal ''MCFG'') (k\<lparr>ranges := fixed_ranges rs\<rparr>)) (\<lambda>(mcfg, k1).
     if mcfg = 0 then Inl NullDeref
     else
       let k2 = mcfg_ranges mcfg (mcfg_count (mem k1) mcfg) 0 k1;
           k3 = k2\<lparr>ranges := sort_ranges (ranges k2)\<rparr> in
       Inr (widest_gap (ranges k3), k3))))"

section \<open>The low heap\<close>

text \<open>The structure is put at the start of the region. A region that starts at address 0 makes
  \<^verbatim>\<open>low_heap\<close> the null pointer, which the code then writes through.\<close>

definition low_heap_init :: "u64 \<Rightarrow> 'z manager_scheme \<Rightarrow> (bool \<times> 'z manager_scheme) result" where
  "low_heap_init low_heap_size k =
     andthen (e820_find_region E820_USABLE low_heap_size 0 0xFFFFFFFF 0x1000 k) (\<lambda>found.
     case found of
       None \<Rightarrow> Inr (False, k)
     | Some (base, _) \<Rightarrow>
         if base = 0 then Inl NullDeref
         else
           let table = base + sizeof_heap;
               nblocks = (low_heap_size - sizeof_heap - 0xFFF) div (512 + sizeof_allocation);
               start = align_up (table + nblocks * sizeof_allocation) 0x1000;
               h = \<lparr>block_size = 512, start_addr = start, max_size = nblocks * 512,
                    blocks = replicate (unat nblocks) free_entry\<rparr> in
           Inr (True, say_hex64LN start (say ''MEMORY MAN: low region at: '' (k\<lparr>low_heap := Some h\<rparr>))))"

section \<open>The allocation routines of the kernel\<close>

definition kalloc :: "u64 \<Rightarrow> 'z manager_scheme \<Rightarrow> (u64 \<times> 'z manager_scheme) result" where
  "kalloc sz k =
     andthen (deref (root_heap k)) (\<lambda>h. andthen (alloc h sz) (\<lambda>(p, h'). Inr (p, k\<lparr>root_heap := Some h'\<rparr>)))"

definition low_kalloc :: "u64 \<Rightarrow> 'z manager_scheme \<Rightarrow> (u64 \<times> 'z manager_scheme) result" where
  "low_kalloc sz k =
     andthen (deref (low_heap k)) (\<lambda>h. andthen (alloc h sz) (\<lambda>(p, h'). Inr (p, k\<lparr>low_heap := Some h'\<rparr>)))"

definition kalloc_aligned :: "u64 \<Rightarrow> u64 \<Rightarrow> 'z manager_scheme \<Rightarrow> (u64 \<times> 'z manager_scheme) result" where
  "kalloc_aligned sz align k =
     andthen (deref (root_heap k)) (\<lambda>h.
       andthen (alloc_aligned h sz align) (\<lambda>(p, h'). Inr (p, k\<lparr>root_heap := Some h'\<rparr>)))"

definition low_kalloc_aligned :: "u64 \<Rightarrow> u64 \<Rightarrow> 'z manager_scheme \<Rightarrow> (u64 \<times> 'z manager_scheme) result" where
  "low_kalloc_aligned sz align k =
     andthen (deref (low_heap k)) (\<lambda>h.
       andthen (alloc_aligned h sz align) (\<lambda>(p, h'). Inr (p, k\<lparr>low_heap := Some h'\<rparr>)))"

definition kfree :: "u64 \<Rightarrow> 'z manager_scheme \<Rightarrow> 'z manager_scheme result" where
  "kfree p k =
     andthen (deref (root_heap k)) (\<lambda>h. andthen (free h p) (\<lambda>h'. Inr (k\<lparr>root_heap := Some h'\<rparr>)))"

definition low_kfree :: "u64 \<Rightarrow> 'z manager_scheme \<Rightarrow> 'z manager_scheme result" where
  "low_kfree p k =
     andthen (deref (low_heap k)) (\<lambda>h. andthen (free h p) (\<lambda>h'. Inr (k\<lparr>low_heap := Some h'\<rparr>)))"

definition k_bump_alloc :: "u64 \<Rightarrow> 'z manager_scheme \<Rightarrow> (u64 \<times> 'z manager_scheme) result" where
  "k_bump_alloc sz k =
     andthen (deref (bump_heap k)) (\<lambda>h.
       let (p, h') = bump_alloc h sz in Inr (p, k\<lparr>bump_heap := Some h'\<rparr>))"

text \<open>\<^verbatim>\<open>k_bump_alloc_aligned\<close> has no \<^verbatim>\<open>return\<close>: what its caller
  sees is whatever the return register holds, the parameter \<open>reg\<close>.\<close>

definition k_bump_alloc_aligned ::
  "u64 \<Rightarrow> u64 \<Rightarrow> u64 \<Rightarrow> 'z manager_scheme \<Rightarrow> (u64 \<times> 'z manager_scheme) result" where
  "k_bump_alloc_aligned reg sz align k =
     andthen (deref (bump_heap k)) (\<lambda>h.
       let (p, h') = bump_alloc_aligned h sz align in Inr (reg, k\<lparr>bump_heap := Some h'\<rparr>))"

section \<open>Initialisation\<close>

text \<open>The loop that chooses the entry for the root heap; the result is its index and
  \<^verbatim>\<open>start\<close>.\<close>

definition root_fit :: "u64 \<Rightarrow> u64 \<Rightarrow> e820_entry \<Rightarrow> u64 option" where
  "root_fit kernel_end tot e =
     (if e_type e \<noteq> E820_USABLE then None
      else
        let start = align_up (if e_base e > kernel_end then e_base e else kernel_end) 0x1000;
            end0 = e_base e + e_length e;
            end1 = (if end0 > FOUR_GIB then FOUR_GIB else end0) in
        if end1 \<le> start \<or> end1 - start < tot then None else Some start)"

function choose_root :: "e820_map \<Rightarrow> u64 \<Rightarrow> u64 \<Rightarrow> u16 \<Rightarrow> (u16 \<times> u64) option result" where
  "choose_root mm kernel_end tot i =
     (if i < e_count mm then
        (case read_entry mm i of
           Inl f \<Rightarrow> Inl f
         | Inr e \<Rightarrow>
             (case root_fit kernel_end tot e of
                Some start \<Rightarrow> Inr (Some (i, start))
              | None \<Rightarrow> choose_root mm kernel_end tot (i + 1)))
      else Inr None)"
  by pat_completeness auto
termination
  by (relation "measure (\<lambda>(mm, _, _, i). unat (e_count mm) - unat i)") (auto, unat_arith)

declare choose_root.simps [simp del]

text \<open>The update of the map: the chosen entry becomes reserved up to the end of the heap, the rest
  of it a new usable entry if there is room.\<close>

definition reserve_root :: "e820_map \<Rightarrow> u16 \<Rightarrow> u64 \<Rightarrow> e820_map" where
  "reserve_root mm i heap_end =
     (let e = e_entries mm ! unat i;
          orig_end = e_base e + e_length e;
          es = (e_entries mm)[unat i := e\<lparr>e_type := E820_RESERVED, e_length := heap_end - e_base e\<rparr>] in
      if orig_end > heap_end \<and> e_count mm < E820_MAX_ENTRIES then
        mm\<lparr>e_entries := es[unat (e_count mm) := \<lparr>e_base = heap_end, e_length = orig_end - heap_end,
                                                   e_type = E820_USABLE, e_attributes = 1\<rparr>],
           e_count := e_count mm + 1\<rparr>
      else mm\<lparr>e_entries := es\<rparr>)"

definition root_heap_at :: "u64 \<Rightarrow> u64 \<Rightarrow> heap" where
  "root_heap_at start sz =
     \<lparr>block_size = 512,
      start_addr = align_up (start + sizeof_heap + sizeof_allocation * (sz div 512)) 0x1000,
      max_size = sz, blocks = replicate (unat (sz div 512)) free_entry\<rparr>"

text \<open>\<^verbatim>\<open>mem_manager_init\<close>, in three parts: the bump heap on the hole, the low
  heap before it, and the root heap and the map before that. Where the code gives up it prints a
  message and calls \<^verbatim>\<open>halt()\<close>, the outcome \<open>Halted\<close>.\<close>

definition init_bump :: "'z manager_scheme \<Rightarrow> 'z manager_scheme result" where
  "init_bump k =
     andthen (find_mmio_hole k) (\<lambda>(hole, k1).
     case hole of
       None \<Rightarrow> Inl Halted
     | Some (hole_start, hole_end) \<Rightarrow>
         andthen (kalloc sizeof_bump_heap
                   (say_hex64LN hole_end (say ''MMIO hole end: ''
                     (say_hex64LN hole_start (say ''MMIO hole start: '' k1))))) (\<lambda>(p, k2).
         if p = 0 then Inl NullDeref
         else Inr (k2\<lparr>bump_heap := Some \<lparr>bump_start = hole_start, bump_next = hole_start,
                                            bump_size = hole_end - hole_start\<rparr>\<rparr>)))"

definition init_low_and_bump :: "u64 \<Rightarrow> 'z manager_scheme \<Rightarrow> 'z manager_scheme result" where
  "init_low_and_bump low_size k =
     andthen (low_heap_init low_size k) (\<lambda>(ok, k1). if \<not> ok then Inl Halted else init_bump k1)"

definition init_root :: "u64 \<Rightarrow> e820_map \<Rightarrow> u16 \<Rightarrow> u64 \<Rightarrow> 'z manager_scheme \<Rightarrow> 'z manager_scheme" where
  "init_root sz e820 i start k =
     (let k1 = say_hex64LN start (say ''MEMORY MAN: region at: '' k); h = root_heap_at start sz in
      k1\<lparr>root_heap := Some h, memory_map := Some (reserve_root e820 i (start_addr h + sz))\<rparr>)"

definition mem_manager_init ::
  "u64 \<Rightarrow> u32 \<Rightarrow> e820_map \<Rightarrow> u64 \<Rightarrow> 'z manager_scheme \<Rightarrow> 'z manager_scheme result" where
  "mem_manager_init sz sectors e820 low_size k =
     (let kernel_end = KERNEL_START + ucast (sectors * 512);
          table_bytes = sizeof_allocation * (sz div 512);
          tot = sizeof_heap + table_bytes + 0xFFF + sz in
      andthen (choose_root e820 kernel_end tot 0) (\<lambda>chosen.
      case chosen of
        None \<Rightarrow> Inl Halted
      | Some (i, start) \<Rightarrow>
          andthen (kalloc sizeof_e820_map (init_root sz e820 i start (k\<lparr>memory_map := Some e820\<rparr>))) (\<lambda>(map_buff, k1).
          if map_buff = 0 then Inl Halted else init_low_and_bump low_size k1)))"

end
