(* ===== verification/Mmio_Hole.thy ===== *)
theory Mmio_Hole
  imports Mem_Manager "HOL-Library.Multiset"
begin

text \<open>
  The hole for device registers: the insertion sort orders the ranges, and the walk over the sorted
  ranges finds an interval below 4 GiB that no range touches and that is as wide as any such interval.
\<close>

section \<open>The insertion sort\<close>

definition placed :: "mem_range list \<Rightarrow> mem_range \<Rightarrow> mem_range list" where
  "placed xs key = filter (\<lambda>r. r_base r \<le> r_base key) xs @ key # filter (\<lambda>r. r_base key < r_base r) xs"

lemma sort_shift_placed:
  "j < length rs \<Longrightarrow> sorted (map r_base (take j rs)) \<Longrightarrow>
     sort_shift rs key j = placed (take j rs) key @ drop (Suc j) rs"
proof (induction j arbitrary: rs)
  case 0
  then show ?case by (cases rs) (simp_all add: placed_def)
next
  case (Suc j)
  have tk: "take (Suc j) rs = take j rs @ [rs ! j]" using Suc.prems(1) by (simp add: take_Suc_conv_app_nth)
  then have sorted: "sorted (map r_base (take j rs))" "\<forall>r \<in> set (take j rs). r_base r \<le> r_base (rs ! j)"
    using Suc.prems(2) by (auto simp: sorted_append)
  show ?case
  proof (cases "r_base key < r_base (rs ! j)")
    case True
    let ?rs = "rs[Suc j := rs ! j]"
    have "drop (Suc j) ?rs = rs ! j # drop (Suc (Suc j)) rs"
      using Suc.prems(1) by (simp add: Cons_nth_drop_Suc [symmetric])
    then show ?thesis
      using Suc.IH [of ?rs] Suc.prems(1) sorted(1) True tk by (simp add: placed_def)
  next
    case False
    then have small: "\<forall>r \<in> set (take (Suc j) rs). r_base r \<le> r_base key"
      using sorted(2) tk by fastforce
    then have "filter (\<lambda>r. r_base r \<le> r_base key) (take (Suc j) rs) = take (Suc j) rs"
      "filter (\<lambda>r. r_base key < r_base r) (take (Suc j) rs) = []"
      by (auto simp: filter_id_conv filter_empty_conv linorder_not_less [symmetric])
    then show ?thesis using False Suc.prems(1) by (simp add: placed_def upd_conv_take_nth_drop)
  qed
qed

lemma sorted_placed: "sorted (map r_base xs) \<Longrightarrow> sorted (map r_base (placed xs key))"
  by (auto simp: placed_def sorted_append sorted_filter intro: less_imp_le)

lemma mset_placed: "mset (placed xs key) = add_mset key (mset xs)"
proof -
  have "mset (filter P xs) + mset (filter (\<lambda>x. \<not> P x) xs) = mset xs" for P
    by (induction xs) simp_all
  from this [of "\<lambda>r. r_base r \<le> r_base key"] show ?thesis
    by (simp add: placed_def linorder_not_le)
qed

lemma sort_from_sorted:
  assumes "i \<le> length rs" and "sorted (map r_base (take i rs))"
  shows "sorted (map r_base (sort_from i rs)) \<and> mset (sort_from i rs) = mset rs"
  using assms
proof (induction i rs rule: sort_from.induct)
  case (1 i rs)
  show ?case
  proof (cases "i < length rs")
    case True
    let ?rs = "sort_shift rs (rs ! i) i"
    have sh: "?rs = placed (take i rs) (rs ! i) @ drop (Suc i) rs"
      using True "1.prems"(2) by (rule sort_shift_placed)
    have len: "length (placed (take i rs) (rs ! i)) = i + 1"
      using True mset_placed [of "take i rs" "rs ! i", THEN arg_cong, of size] by simp
    then have "take (i + 1) ?rs = placed (take i rs) (rs ! i)" unfolding sh by simp
    then have "sorted (map r_base (take (i + 1) ?rs))" using sorted_placed [OF "1.prems"(2)] by simp
    moreover have "mset ?rs = mset rs"
    proof -
      have "rs = take i rs @ rs ! i # drop (Suc i) rs" using True by (simp add: id_take_nth_drop)
      then have "mset rs = mset (take i rs) + add_mset (rs ! i) (mset (drop (Suc i) rs))"
        by (metis mset.simps(2) mset_append)
      then show ?thesis unfolding sh by (simp add: mset_placed)
    qed
    ultimately show ?thesis
      using "1.IH" [OF True] True by (subst (1 2) sort_from.simps) simp
  next
    case False
    with "1.prems" show ?thesis by (subst (1 2) sort_from.simps) simp
  qed
qed

lemma sort_ranges_sorted:
  "sorted (map r_base (sort_ranges rs))" "mset (sort_ranges rs) = mset rs"
proof -
  have "sorted (map r_base (sort_ranges rs)) \<and> mset (sort_ranges rs) = mset rs"
  proof (cases rs)
    case Nil
    then show ?thesis by (simp add: sort_ranges_def sort_from.simps)
  next
    case (Cons r rs')
    then show ?thesis unfolding sort_ranges_def by (intro sort_from_sorted) simp_all
  qed
  then show "sorted (map r_base (sort_ranges rs))" "mset (sort_ranges rs) = mset rs" by simp_all
qed

lemma set_sort_ranges [simp]: "set (sort_ranges rs) = set rs"
  using sort_ranges_sorted(2) by (metis set_mset_mset)

section \<open>The walk over the gaps\<close>

definition span :: "mem_range \<Rightarrow> nat set" where
  "span r = {unat (r_base r)..<unat (r_end r)}"

definition range_ok :: "mem_range \<Rightarrow> bool" where
  "range_ok r \<longleftrightarrow> r_base r < r_end r \<and> unat (r_end r) \<le> 2 ^ 32 + 1"

text \<open>After a prefix of the sorted ranges: the cursor is the largest end seen, the best gap touches
  none of the ranges and ends where one of them starts, and no gap below the cursor is wider.\<close>

definition gap_inv :: "mem_range list \<Rightarrow> u64 \<times> u64 \<times> u64 \<Rightarrow> bool" where
  "gap_inv p = (\<lambda>(c, b, s).
     (\<forall>r \<in> set p. r_end r \<le> c) \<and> (c = 0 \<or> (\<exists>r \<in> set p. r_end r = c)) \<and>
     unat c \<le> 2 ^ 32 + 1 \<and>
     (s \<noteq> 0 \<longrightarrow> {unat b..<unat b + unat s} \<inter> (\<Union>r \<in> set p. span r) = {} \<and>
               (\<exists>r \<in> set p. unat b + unat s \<le> unat (r_base r))) \<and>
     (\<forall>x y. x < y \<and> y \<le> unat c \<and> {x..<y} \<inter> (\<Union>r \<in> set p. span r) = {} \<longrightarrow> y - x \<le> unat s))"

lemma gap_invD:
  assumes "gap_inv p (c, b, s)"
  shows "\<And>r. r \<in> set p \<Longrightarrow> r_end r \<le> c" and "c \<noteq> 0 \<Longrightarrow> \<exists>r \<in> set p. r_end r = c"
    and "unat c \<le> 2 ^ 32 + 1"
    and "s \<noteq> 0 \<Longrightarrow> {unat b..<unat b + unat s} \<inter> (\<Union>r \<in> set p. span r) = {}"
    and "s \<noteq> 0 \<Longrightarrow> \<exists>r \<in> set p. unat b + unat s \<le> unat (r_base r)"
    and "\<And>x y. x < y \<Longrightarrow> y \<le> unat c \<Longrightarrow> {x..<y} \<inter> (\<Union>r \<in> set p. span r) = {} \<Longrightarrow> y - x \<le> unat s"
  using assms unfolding gap_inv_def by blast+

text \<open>A gap beyond the cursor starts at or behind it: the byte before the cursor is in a range.\<close>

lemma gap_behind_cursor:
  assumes "gap_inv p (c, b, s)" and "\<forall>r \<in> set p. range_ok r"
    and "{x..<y} \<inter> (\<Union>r \<in> set p. span r) = {}" and "unat c < y"
  shows "unat c \<le> x"
proof (rule ccontr)
  assume "\<not> unat c \<le> x"
  then have c: "c \<noteq> 0" "x \<le> unat c - 1" "unat c - 1 < y" using assms(4) by auto
  then obtain r where r: "r \<in> set p" "r_end r = c" using gap_invD(2) [OF assms(1)] by blast
  then have "unat (r_base r) < unat c" using assms(2) by (auto simp: range_ok_def word_less_nat_alt)
  then have "unat c - 1 \<in> span r" using r(2) by (auto simp: span_def)
  then show False using assms(3) r(1) c by auto
qed

lemma gap_inv_step:
  assumes inv: "gap_inv p (c, b, s)" and ok: "\<forall>r \<in> set p. range_ok r" "range_ok r"
    and sorted: "\<forall>q \<in> set p. r_base q \<le> r_base r"
  shows "gap_inv (p @ [r]) (gap_step (c, b, s) r)"
proof -
  let ?c = "if r_end r > c then r_end r else c"
  let ?better = "r_base r > c \<and> r_base r - c > s"
  define b' s' where "b' = (if ?better then c else b)" and "s' = (if ?better then r_base r - c else s)"
  have step: "gap_step (c, b, s) r = (?c, b', s')" by (simp add: gap_step_def b'_def s'_def)
  have diff: "unat (r_base r - c) = unat (r_base r) - unat c" if "r_base r > c"
    using that by (simp add: unat_sub)
  have s_le: "unat s \<le> unat s'" by (auto simp: s'_def word_less_nat_alt)
  have gap_le: "unat (r_base r) - unat c \<le> unat s'" if "r_base r > c"
    using that diff [OF that] by (auto simp: s'_def word_less_nat_alt word_le_nat_alt)
  have disj: "{unat b'..<unat b' + unat s'} \<inter> (\<Union>q \<in> set (p @ [r]). span q) = {}"
    and ends: "unat b' + unat s' \<le> unat (r_base r)" if ne: "s' \<noteq> 0"
  proof -
    have "{unat b'..<unat b' + unat s'} \<inter> (\<Union>q \<in> set p. span q) = {} \<and> unat b' + unat s' \<le> unat (r_base r)"
    proof (cases ?better)
      case True
      then have b': "unat b' = unat c" "unat s' = unat (r_base r) - unat c"
        using diff by (simp_all add: b'_def s'_def)
      have "unat (r_end q) \<le> unat c" if "q \<in> set p" for q
        using gap_invD(1) [OF inv that] by (simp add: word_le_nat_alt)
      then show ?thesis using True b' by (fastforce simp: span_def word_less_nat_alt)
    next
      case False
      then have "b' = b" "s' = s" by (simp_all only: b'_def s'_def if_False)
      then show ?thesis
        using gap_invD(4,5) [OF inv] ne sorted by (auto simp: word_le_nat_alt)
    qed
    then show "unat b' + unat s' \<le> unat (r_base r)"
      "{unat b'..<unat b' + unat s'} \<inter> (\<Union>q \<in> set (p @ [r]). span q) = {}"
      by (auto simp: span_def)
  qed
  have wide: "y - x \<le> unat s'"
    if xy: "x < y" "y \<le> unat ?c" and free: "{x..<y} \<inter> (\<Union>q \<in> set (p @ [r]). span q) = {}" for x y
  proof -
    have freep: "{x..<y} \<inter> (\<Union>q \<in> set p. span q) = {}" using free by auto
    show ?thesis
    proof (cases "y \<le> unat c")
      case True
      then show ?thesis using gap_invD(6) [OF inv xy(1) _ freep] s_le by linarith
    next
      case False
      then have cx: "unat c \<le> x" using gap_behind_cursor [OF inv ok(1) freep] by simp
      have "y \<le> unat (r_end r)" using False xy(2) by (simp split: if_splits)
      then have "y \<le> unat (r_base r)"
        using free xy(1) by (cases "y \<le> unat (r_base r)") (auto simp: span_def dest!: equals0D [of _ "y - 1"])
      moreover have "c < r_base r" using calculation False by (simp add: word_less_nat_alt)
      ultimately show ?thesis using gap_le cx by linarith
    qed
  qed
  have c1: "\<forall>q \<in> set (p @ [r]). r_end q \<le> ?c"
    using gap_invD(1) [OF inv] by (auto, meson order.strict_implies_order order.trans)
  have c2: "?c = 0 \<or> (\<exists>q \<in> set (p @ [r]). r_end q = ?c)" using gap_invD(2) [OF inv] by auto
  have c3: "unat ?c \<le> 2 ^ 32 + 1" using gap_invD(3) [OF inv] ok(2) by (auto simp: range_ok_def)
  have c4: "s' \<noteq> 0 \<longrightarrow> {unat b'..<unat b' + unat s'} \<inter> (\<Union>q \<in> set (p @ [r]). span q) = {} \<and>
      (\<exists>q \<in> set (p @ [r]). unat b' + unat s' \<le> unat (r_base q))"
    using disj ends by (intro impI conjI bexI [of _ r]) simp_all
  have c5: "\<forall>x y. x < y \<and> y \<le> unat ?c \<and> {x..<y} \<inter> (\<Union>q \<in> set (p @ [r]). span q) = {} \<longrightarrow>
      y - x \<le> unat s'"
    using wide by blast
  show ?thesis
    unfolding step gap_inv_def split_conv by (intro conjI c1 c2 c3 c4 c5)
qed

lemma gap_inv_foldl:
  "sorted (map r_base rs) \<Longrightarrow> \<forall>r \<in> set rs. range_ok r \<Longrightarrow> gap_inv rs (foldl gap_step (0, 0, 0) rs)"
proof (induction rs rule: rev_induct)
  case Nil
  then show ?case by (simp add: gap_inv_def)
next
  case (snoc r rs)
  obtain c b s where st: "foldl gap_step (0, 0, 0) rs = (c, b, s)" by (cases "foldl gap_step (0, 0, 0) rs")
  have "gap_inv rs (c, b, s)" using snoc st by (simp add: sorted_append)
  then have "gap_inv (rs @ [r]) (gap_step (c, b, s) r)"
    using snoc.prems by (intro gap_inv_step) (auto simp: sorted_append)
  then show ?case by (simp add: st)
qed

text \<open>The last comparison of the walk, with 4 GiB, is one more step with a range that starts
  there.\<close>

definition sentinel :: mem_range where
  "sentinel = \<lparr>r_base = FOUR_GIB, r_end = FOUR_GIB + 1\<rparr>"

lemma widest_gap_sentinel:
  "widest_gap rs = (case foldl gap_step (0, 0, 0) (rs @ [sentinel]) of
     (c, b, s) \<Rightarrow> if s = 0 then None else Some (b, b + s))"
  by (simp add: widest_gap_def gap_step_def sentinel_def split_beta Let_def)

abbreviation touched :: "mem_range list \<Rightarrow> nat set" where
  "touched rs \<equiv> \<Union>r \<in> set rs. span r"

definition recorded :: "mem_range \<Rightarrow> bool" where
  "recorded r \<longleftrightarrow> r_base r < r_end r \<and> r_end r \<le> FOUR_GIB"

definition hole_of :: "mem_range list \<Rightarrow> (u64 \<times> u64) option \<Rightarrow> bool" where
  "hole_of rs hole \<longleftrightarrow>
     (case hole of
        None \<Rightarrow> {0..<2 ^ 32} \<subseteq> touched rs
      | Some (b, e) \<Rightarrow> b < e \<and> unat e \<le> 2 ^ 32 \<and> {unat b..<unat e} \<inter> touched rs = {} \<and>
          (\<forall>x y. x < y \<and> y \<le> 2 ^ 32 \<and> {x..<y} \<inter> touched rs = {} \<longrightarrow> y - x \<le> unat e - unat b))"

lemma FOUR_GIB_nat: "unat FOUR_GIB = 2 ^ 32" "unat (FOUR_GIB + 1) = 2 ^ 32 + 1"
  by (simp_all add: FOUR_GIB_def)

lemma widest_gap_hole:
  assumes rec: "\<forall>r \<in> set rs. recorded r" and sorted: "sorted (map r_base rs)"
  shows "hole_of rs (widest_gap rs)"
proof -
  obtain c b s where st: "foldl gap_step (0, 0, 0) (rs @ [sentinel]) = (c, b, s)" by (metis prod_cases3)
  have base: "r_base r \<le> FOUR_GIB" if "r \<in> set rs" for r
    using rec that by (auto simp: recorded_def)
  have "\<forall>r \<in> set (rs @ [sentinel]). range_ok r"
  proof
    fix r assume "r \<in> set (rs @ [sentinel])"
    then show "range_ok r"
      using rec FOUR_GIB_nat by (auto simp: recorded_def range_ok_def sentinel_def word_le_nat_alt word_less_nat_alt)
  qed
  moreover have "sorted (map r_base (rs @ [sentinel]))"
    using sorted base by (auto simp: sorted_append sentinel_def)
  ultimately have inv: "gap_inv (rs @ [sentinel]) (c, b, s)"
    using gap_inv_foldl [of "rs @ [sentinel]"] by (simp only: st)
  have sp: "touched (rs @ [sentinel]) = touched rs \<union> {2 ^ 32}"
    using FOUR_GIB_nat by (auto simp: span_def sentinel_def)
  have "FOUR_GIB + 1 \<le> c" using gap_invD(1) [OF inv, of sentinel] by (simp add: sentinel_def)
  then have c: "2 ^ 32 + 1 \<le> unat c" using FOUR_GIB_nat(2) by (simp add: word_le_nat_alt)
  have wide: "y - x \<le> unat s" if "x < y" "y \<le> 2 ^ 32" "{x..<y} \<inter> touched rs = {}" for x y
  proof -
    have "{x..<y} \<inter> touched (rs @ [sentinel]) = {}" unfolding sp using that by auto
    then show ?thesis using that c by (intro gap_invD(6) [OF inv]) simp_all
  qed
  show ?thesis
  proof (cases "s = 0")
    case True
    have "a \<in> touched rs" if "a < 2 ^ 32" for a
      using wide [of a "Suc a"] that True by (cases "a \<in> touched rs") auto
    then show ?thesis using True st by (auto simp: widest_gap_sentinel hole_of_def)
  next
    case False
    note gap = gap_invD(4,5) [OF inv False]
    have "\<exists>r \<in> set (rs @ [sentinel]). unat b + unat s \<le> unat (r_base r) \<and> r_base r \<le> FOUR_GIB"
      using gap(2) base by (auto simp: sentinel_def)
    then have bs: "unat b + unat s \<le> 2 ^ 32"
      using FOUR_GIB_nat(1) by (auto simp: word_le_nat_alt)
    then have e: "unat (b + s) = unat b + unat s" by (intro unat_add_u64) simp
    have "0 < unat s" using False by (simp add: unat_gt_0)
    then show ?thesis
      using False st gap(1) bs wide by (simp add: widest_gap_sentinel hole_of_def e word_less_nat_alt sp) blast
  qed
qed

end
