(* ===== verification/Mem_Map.thy ===== *)
theory Mem_Map
  imports Mmio_Hole
begin

text \<open>
  The loops of the memory manager over the E820 map as searches of the list of its entries, and the
  arithmetic of one entry on natural numbers.
\<close>

section \<open>First hit of a partial function\<close>

primrec first_some :: "('a \<Rightarrow> 'b option) \<Rightarrow> 'a list \<Rightarrow> 'b option" where
  "first_some f [] = None"
| "first_some f (x # xs) = (case f x of Some y \<Rightarrow> Some y | None \<Rightarrow> first_some f xs)"

lemma first_some_None: "first_some f xs = None \<longleftrightarrow> (\<forall>x \<in> set xs. f x = None)"
  by (induction xs) (auto split: option.splits)

lemma first_some_Some:
  "first_some f xs = Some y \<longleftrightarrow>
     (\<exists>i<length xs. f (xs ! i) = Some y \<and> (\<forall>j<i. f (xs ! j) = None))"
proof (induction xs)
  case Nil
  then show ?case by simp
next
  case (Cons x xs)
  show ?case
  proof (cases "f x")
    case None
    then show ?thesis
      using Cons by (simp add: Ex_less_Suc2 All_less_Suc2)
  next
    case (Some z)
then show ?thesis by (auto simp: Ex_less_Suc2 All_less_Suc2)
  qed
qed

section \<open>The entries of the map\<close>

definition map_entries :: "e820_map \<Rightarrow> e820_entry list" where
  "map_entries mm = take (unat (e_count mm)) (e_entries mm)"

text \<open>The count stays within the array.\<close>

definition map_ok :: "e820_map \<Rightarrow> bool" where
  "map_ok mm \<longleftrightarrow> length (e_entries mm) = 64 \<and> unat (e_count mm) \<le> 64"

lemma length_map_entries [simp]: "map_ok mm \<Longrightarrow> length (map_entries mm) = unat (e_count mm)"
  by (simp add: map_ok_def map_entries_def)

lemma u16_step: "i < n \<Longrightarrow> unat (i + 1 :: u16) = Suc (unat i)"
  by unat_arith

lemma read_entry_drop:
  assumes "map_ok mm" and "i < e_count mm"
  shows "\<exists>e. read_entry mm i = Inr e \<and> e = e_entries mm ! unat i \<and>
           drop (unat i) (map_entries mm) = e # drop (unat (i + 1)) (map_entries mm)"
proof -
  have lt: "unat i < unat (e_count mm)" "unat i < length (map_entries mm)"
    using assms by (simp_all add: word_less_nat_alt)
  then have "read_entry mm i = Inr (e_entries mm ! unat i)"
    using assms(1) by (simp add: read_entry_def map_ok_def)
  moreover have "e_entries mm ! unat i = map_entries mm ! unat i"
    using lt(1) by (simp add: map_entries_def)
  ultimately show ?thesis
    using lt(2) u16_step [OF assms(2)] by (simp add: Cons_nth_drop_Suc)
qed

lemma map_entries_done: "map_ok mm \<Longrightarrow> \<not> i < e_count mm \<Longrightarrow> drop (unat i) (map_entries mm) = []"
  by (simp add: word_less_nat_alt)

lemma e820_find_from_eq:
  "map_ok mm \<Longrightarrow> e820_find_from mm ty ms lo hi al i =
     Inr (first_some (e820_fit ty ms lo hi al) (drop (unat i) (map_entries mm)))"
proof (induction mm ty ms lo hi al i rule: e820_find_from.induct)
  case (1 mm ty ms lo hi al i)
  show ?case
  proof (cases "i < e_count mm")
    case True
    from read_entry_drop [OF "1.prems" True] obtain e where
      e: "read_entry mm i = Inr e" "drop (unat i) (map_entries mm) = e # drop (unat (i + 1)) (map_entries mm)"
      by blast
    then show ?thesis
      using "1.IH" [OF True e(1)] "1.prems" True
      by (subst e820_find_from.simps) (auto split: option.split)
  next
    case False
    then show ?thesis
      using map_entries_done [OF "1.prems" False] by (subst e820_find_from.simps) simp
  qed
qed

lemma e820_ranges_eq:
  "map_ok mm \<Longrightarrow> e820_ranges mm i rs =
     Inr (fold (\<lambda>e. range_add (e_base e) (e_base e + e_length e)) (drop (unat i) (map_entries mm)) rs)"
proof (induction mm i rs rule: e820_ranges.induct)
  case (1 mm i rs)
  show ?case
  proof (cases "i < e_count mm")
    case True
    from read_entry_drop [OF "1.prems" True] obtain e where
      e: "read_entry mm i = Inr e" "drop (unat i) (map_entries mm) = e # drop (unat (i + 1)) (map_entries mm)"
      by blast
    then show ?thesis
      using "1.IH" [OF True e(1)] "1.prems" True by (subst e820_ranges.simps) simp
  next
    case False
    then show ?thesis
      using map_entries_done [OF "1.prems" False] by (subst e820_ranges.simps) simp
  qed
qed

text \<open>\<^verbatim>\<open>choose_root\<close> also returns the index.\<close>

lemma choose_root_eq:
  "map_ok mm \<Longrightarrow> choose_root mm ke tot i =
     Inr (first_some (\<lambda>j. map_option (Pair (word_of_nat j)) (root_fit ke tot (e_entries mm ! j)))
            [unat i..<unat (e_count mm)])"
proof (induction mm ke tot i rule: choose_root.induct)
  case (1 mm ke tot i)
  show ?case
  proof (cases "i < e_count mm")
    case True
    from read_entry_drop [OF "1.prems" True] obtain e where
      e: "read_entry mm i = Inr e" "e = e_entries mm ! unat i" by blast
    have up: "[unat i..<unat (e_count mm)] = unat i # [unat (i + 1)..<unat (e_count mm)]"
      using True u16_step [OF True] by (simp add: upt_conv_Cons word_less_nat_alt)
    have w: "word_of_nat (unat i) = i" by (metis of_nat_unat ucast_id)
    show ?thesis
      using "1.IH" [OF True e(1)] "1.prems" True e(1)
      by (subst choose_root.simps) (auto simp: up w e(2) [symmetric] split: option.split)
  next
    case False
    then show ?thesis by (subst choose_root.simps) (simp add: word_less_nat_alt)
  qed
qed

section \<open>One entry\<close>

definition ceil_to :: "nat \<Rightarrow> nat \<Rightarrow> nat" where
  "ceil_to A x = (x + A - 1) div A * A"

text \<open>The start of the aligned window of an entry between two bounds, and its end.\<close>

definition window_start :: "nat \<Rightarrow> u64 \<Rightarrow> e820_entry \<Rightarrow> nat" where
  "window_start A lo e = ceil_to A (max (unat (e_base e)) (unat lo))"

definition window_end :: "u64 \<Rightarrow> e820_entry \<Rightarrow> nat" where
  "window_end hi e = min (unat (e_base e) + unat (e_length e)) (unat hi)"

lemma ceil_to_bounds:
  assumes "0 < A"
  shows "x \<le> ceil_to A x" "ceil_to A x < x + A" "A dvd ceil_to A x"
  using ceil_mult_bounds [OF assms, of x] by (simp_all add: ceil_to_def)

lemma ceil_to_least: "0 < A \<Longrightarrow> A dvd y \<Longrightarrow> x \<le> y \<Longrightarrow> ceil_to A x \<le> y"
  using no_multiple_between [of A x "y div A"] unfolding ceil_to_def
  by (metis dvd_div_mult_self linorder_not_le)

lemma max_u64: "unat (- 1 :: u64) = 2 ^ 64 - 1"
  by (simp add: unsigned_minus_1_eq_mask mask_eq_exp_minus_1)

lemma e820_fit_eq:
  assumes "k < 64"
  shows "e820_fit ty ms lo hi (2 ^ k) e =
    (if e_type e = ty \<and> window_start (2 ^ k) lo e < window_end hi e \<and>
        unat ms \<le> window_end hi e - window_start (2 ^ k) lo e
     then Some (word_of_nat (window_start (2 ^ k) lo e),
                word_of_nat (window_end hi e - window_start (2 ^ k) lo e))
     else None)"
proof -
  let ?A = "2 ^ k :: nat"
  define s0 where "s0 = (if e_base e > lo then e_base e else lo)"
  define e1 where "e1 = (let e0 = (if e_length e > - 1 - e_base e then - 1 else e_base e + e_length e) in
     if e0 > hi then hi else e0)"
  have A: "0 < ?A" by simp
  have s0: "unat s0 = max (unat (e_base e)) (unat lo)" by (auto simp: s0_def word_less_nat_alt)
  have "unat (- 1 - e_base e) = 2 ^ 64 - 1 - unat (e_base e)"
    by (simp only: unat_sub [OF word_n1_ge] max_u64)
  then have sat: "e_length e > - 1 - e_base e \<longleftrightarrow> 2 ^ 64 \<le> unat (e_base e) + unat (e_length e)"
    using unat_u64_less [of "e_base e"] by (simp only: word_less_nat_alt) arith
  have e1: "unat e1 = window_end hi e"
  proof (cases "2 ^ 64 \<le> unat (e_base e) + unat (e_length e)")
    case True
    then show ?thesis
      using sat max_u64 unat_u64_less [of hi]
      by (auto simp: e1_def window_end_def Let_def word_less_nat_alt)
  next
    case False
    then have "unat (e_base e + e_length e) = unat (e_base e) + unat (e_length e)"
      by (intro unat_add_u64) simp
    then show ?thesis using False sat by (auto simp: e1_def window_end_def Let_def word_less_nat_alt)
  qed
  have m1: "unat (2 ^ k - 1 :: u64) = ?A - 1"
    using pow2_u64_nat [OF assms] by (metis power_not_zero unat_0 unat_minus_one zero_neq_numeral)
  have "unat (- 1 - (2 ^ k - 1) :: u64) = 2 ^ 64 - 1 - (?A - 1)"
    by (simp only: unat_sub [OF word_n1_ge] max_u64 m1)
  moreover have "?A \<le> 2 ^ 64" using assms by (intro power_increasing) auto
  ultimately have guard: "s0 > - 1 - (2 ^ k - 1) \<longleftrightarrow> 2 ^ 64 \<le> unat s0 + ?A - 1"
    using A by (simp only: word_less_nat_alt) arith
  have ws: "window_start ?A lo e = ceil_to ?A (unat s0)" by (simp add: window_start_def s0)
  have body: "e820_fit ty ms lo hi (2 ^ k) e =
      (if e_type e \<noteq> ty then None else if s0 > - 1 - (2 ^ k - 1) then None
       else if e1 \<le> align_up s0 (2 ^ k) then None else if e1 - align_up s0 (2 ^ k) < ms then None
       else Some (align_up s0 (2 ^ k), e1 - align_up s0 (2 ^ k)))"
    by (simp only: e820_fit_def s0_def e1_def Let_def)
  show ?thesis
  proof (cases "2 ^ 64 \<le> unat s0 + ?A - 1")
    case True
    have "?A dvd 2 ^ 64" using assms by (intro le_imp_power_dvd) simp
    then obtain q where q: "(2 :: nat) ^ 64 = q * ?A" by (metis dvd_def mult.commute)
    then have "q \<le> (unat s0 + ?A - 1) div ?A" using True A by (simp add: less_eq_div_iff_mult_less_eq)
    then have "2 ^ 64 \<le> ceil_to ?A (unat s0)" unfolding ceil_to_def q by (rule mult_le_mono1)
    then have "\<not> window_start ?A lo e < window_end hi e"
      using unat_u64_less [of e1] by (simp only: ws e1 [symmetric])
    moreover have "s0 > - 1 - (2 ^ k - 1)" using True guard by blast
    ultimately show ?thesis unfolding body by (simp only: if_True if_False simp_thms if_cancel)
  next
    case False
    then have up: "unat (align_up s0 (2 ^ k)) = window_start ?A lo e"
      using unat_align_up [OF assms, of s0] by (simp only: ws ceil_to_def)
    then have upw: "align_up s0 (2 ^ k) = word_of_nat (window_start ?A lo e)" by (metis of_nat_unat ucast_id)
    show ?thesis
    proof (cases "window_start ?A lo e < window_end hi e")
      case True
      then have "align_up s0 (2 ^ k) \<le> e1" by (simp add: word_le_nat_alt up e1)
      then have d: "unat (e1 - align_up s0 (2 ^ k)) = window_end hi e - window_start ?A lo e"
        by (simp only: unat_sub up e1)
      then have dw: "e1 - align_up s0 (2 ^ k) = word_of_nat (window_end hi e - window_start ?A lo e)"
        by (metis of_nat_unat ucast_id)
      have "e1 - align_up s0 (2 ^ k) < ms \<longleftrightarrow> \<not> unat ms \<le> window_end hi e - window_start ?A lo e"
        by (simp only: word_less_nat_alt d) arith
      moreover have "\<not> e1 \<le> align_up s0 (2 ^ k)" using True by (simp add: word_le_nat_alt up e1)
      moreover have "\<not> s0 > - 1 - (2 ^ k - 1)" using False guard by blast
      ultimately show ?thesis unfolding body using True by (simp only: upw [symmetric] dw [symmetric]) simp
    next
      case False
      then have "e1 \<le> align_up s0 (2 ^ k)" by (simp add: word_le_nat_alt up e1)
      then show ?thesis unfolding body using False by simp
    qed
  qed
qed

end
