(* ===== verification/Allocator_Table.thy ===== *)
theory Allocator_Table
  imports Allocator
begin

text \<open>
  The block table behind the allocator: what it means for it to be well formed, and what the loops
  of \<^verbatim>\<open>alloc\<close>, \<^verbatim>\<open>alloc_aligned\<close> and \<^verbatim>\<open>free\<close>
  compute on it, stated on lists and natural numbers. \<open>alloc_eq\<close>, \<open>alloc_aligned_eq\<close> and
  \<open>free_eq\<close> are the equations the other theories use instead of the loops.
\<close>

section \<open>The block table as a list\<close>

definition taken :: "allocation list \<Rightarrow> nat \<Rightarrow> bool" where
  "taken bs k \<longleftrightarrow> k < length bs \<and> isAllocated (bs ! k)"

definition blocked :: "allocation list \<Rightarrow> nat \<Rightarrow> nat \<Rightarrow> bool" where
  "blocked bs n s \<longleftrightarrow> list_ex (taken bs) [s..<s + n]"

definition fill :: "allocation list \<Rightarrow> nat \<Rightarrow> nat \<Rightarrow> allocation \<Rightarrow> allocation list" where
  "fill bs lo hi b = map (\<lambda>k. if lo \<le> k \<and> k < hi then b else bs ! k) [0..<length bs]"

definition run_entry :: "nat \<Rightarrow> nat \<Rightarrow> allocation" where
  "run_entry s n = \<lparr>isAllocated = True, start_block = word_of_nat s, end_block = word_of_nat (s + n)\<rparr>"

definition entry_ok :: "allocation list \<Rightarrow> nat \<Rightarrow> bool" where
  "entry_ok bs k \<longleftrightarrow>
     (if isAllocated (bs ! k) then
        unat (start_block (bs ! k)) \<le> k \<and> k < unat (end_block (bs ! k)) \<and>
        unat (end_block (bs ! k)) \<le> length bs \<and>
        list_all (\<lambda>j. bs ! j = bs ! k) [unat (start_block (bs ! k))..<unat (end_block (bs ! k))]
      else bs ! k = free_entry)"

definition table_inv :: "allocation list \<Rightarrow> bool" where
  "table_inv bs \<longleftrightarrow> list_all (entry_ok bs) [0..<length bs]"

definition heap_inv :: "heap \<Rightarrow> bool" where
  "heap_inv h \<longleftrightarrow>
     1 < unat (block_size h) \<and>
     length (blocks h) = unat (max_size h) div unat (block_size h) \<and>
     length (blocks h) < 2 ^ 32 \<and>
     unat (block_size h) \<le> unat (start_addr h) \<and> unat (start_addr h) + unat (max_size h) < 2 ^ 64 \<and>
     table_inv (blocks h)"

abbreviation bsz :: "heap \<Rightarrow> nat" where
  "bsz h \<equiv> unat (block_size h)"

lemma blocked_iff: "blocked bs n s \<longleftrightarrow> (\<exists>k. s \<le> k \<and> k < s + n \<and> taken bs k)"
  by (auto simp: blocked_def list_ex_iff Bex_def)

lemma length_fill [simp]: "length (fill bs lo hi b) = length bs"
  by (simp add: fill_def)

lemma nth_fill: "k < length bs \<Longrightarrow> fill bs lo hi b ! k = (if lo \<le> k \<and> k < hi then b else bs ! k)"
  by (simp add: fill_def)

lemma fill_empty: "hi \<le> lo \<Longrightarrow> fill bs lo hi b = bs"
  by (rule nth_equalityI) (auto simp: nth_fill)

lemma fill_step: "lo \<le> k \<Longrightarrow> k < length bs \<Longrightarrow> (fill bs lo k b)[k := b] = fill bs lo (Suc k) b"
  by (rule nth_equalityI) (auto simp: nth_fill nth_list_update)

lemma bsize_nat [word_nat]: "unat (bsize h) = bsz h"
proof -
  have "unat (block_size h) < 2 ^ 16"
    using unsigned_less [of "block_size h", where ?'a = nat] by simp
  then show ?thesis
    by (simp add: unsigned_ucast_eq take_bit_nat_eq_self)
qed

lemma end_block_nat [word_nat]: "unat (ucast (x :: u32) :: u64) = unat x"
proof -
  have "unat x < 2 ^ 32"
    using unsigned_less [of x, where ?'a = nat] by simp
  then show ?thesis
    by (simp add: unsigned_ucast_eq take_bit_nat_eq_self)
qed

lemma table_invD: "table_inv bs \<Longrightarrow> k < length bs \<Longrightarrow> entry_ok bs k"
  by (simp add: table_inv_def list_all_iff)

lemma entry_taken:
  assumes "table_inv bs" and "taken bs k"
  shows "unat (start_block (bs ! k)) \<le> k" "k < unat (end_block (bs ! k))"
    "unat (end_block (bs ! k)) \<le> length bs"
    and "\<And>j. unat (start_block (bs ! k)) \<le> j \<Longrightarrow> j < unat (end_block (bs ! k)) \<Longrightarrow> bs ! j = bs ! k"
proof -
  have "entry_ok bs k" and a: "isAllocated (bs ! k)"
    using table_invD [OF assms(1)] assms(2) by (auto simp: taken_def)
  then have e: "unat (start_block (bs ! k)) \<le> k \<and> k < unat (end_block (bs ! k)) \<and>
      unat (end_block (bs ! k)) \<le> length bs \<and>
      list_all (\<lambda>j. bs ! j = bs ! k) [unat (start_block (bs ! k))..<unat (end_block (bs ! k))]"
    unfolding entry_ok_def by (simp only: if_True)
  from e show "unat (start_block (bs ! k)) \<le> k" "k < unat (end_block (bs ! k))"
    "unat (end_block (bs ! k)) \<le> length bs" by blast+
  show "bs ! j = bs ! k" if "unat (start_block (bs ! k)) \<le> j" "j < unat (end_block (bs ! k))" for j
    using e that unfolding list_all_iff by (metis atLeastLessThan_iff set_upt)
qed

lemma entry_free: "table_inv bs \<Longrightarrow> k < length bs \<Longrightarrow> \<not> taken bs k \<Longrightarrow> bs ! k = free_entry"
  using table_invD [of bs k] by (auto simp: entry_ok_def taken_def)

lemma total_blocks_nat [word_nat]:
  "heap_inv h \<Longrightarrow> unat (total_blocks h) = length (blocks h)"
  unfolding heap_inv_def by (simp only: unat_div_distrib bsize_nat)

section \<open>The loops over the table\<close>

lemma for_write_block:
  assumes "unat hi \<le> length (blocks h)" and "lo \<le> hi"
  shows "for_u64_r lo hi (\<lambda>i. write_block i b) h =
         Inr (h\<lparr>blocks := fill (blocks h) (unat lo) (unat hi) b\<rparr>)"
proof -
  have "\<exists>t. for_u64_r lo hi (\<lambda>i. write_block i b) h = Inr t \<and>
      t = h\<lparr>blocks := fill (blocks h) (unat lo) (unat hi) b\<rparr>"
  proof (rule for_u64_r_rule [where P = "\<lambda>j t. t = h\<lparr>blocks := fill (blocks h) (unat lo) j b\<rparr>"])
    show "lo \<le> hi" by (rule assms(2))
    show "h = h\<lparr>blocks := fill (blocks h) (unat lo) (unat lo) b\<rparr>" by (simp add: fill_empty)
  next
    fix j t
    assume j: "unat lo \<le> j" "j < unat hi" and t: "t = h\<lparr>blocks := fill (blocks h) (unat lo) j b\<rparr>"
    have "j < 2 ^ 64" using j(2) unat_u64_less [of hi] by linarith
    then show "\<exists>t'. write_block (word_of_nat j) b t = Inr t' \<and>
        t' = h\<lparr>blocks := fill (blocks h) (unat lo) (Suc j) b\<rparr>"
      using j assms(1) by (simp add: write_block_def t unat_of_nat_u64 fill_step)
  qed
  then show ?thesis by simp
qed

definition run_stop :: "allocation list \<Rightarrow> nat \<Rightarrow> nat \<Rightarrow> nat \<Rightarrow> nat option" where
  "run_stop bs i j n = find (\<lambda>k. length bs \<le> i + k \<or> taken bs (i + k)) [j..<n]"

lemma scan_run_eq:
  assumes "unat i + unat needed < 2 ^ 64" and "j \<le> needed"
  shows "scan_run h i needed j =
    (case run_stop (blocks h) (unat i) (unat j) (unat needed) of
       None \<Rightarrow> Inr None
     | Some k \<Rightarrow> if unat i + k < length (blocks h) then Inr (Some (word_of_nat k))
                 else Inl OutOfBounds)"
  using assms
proof (induction h i needed j rule: scan_run.induct)
  case (1 h i needed j)
  show ?case
  proof (cases "j < needed")
    case False
    with "1.prems"(2) have "j = needed" by simp
    then show ?thesis by (simp add: scan_run.simps run_stop_def)
  next
    case True
    then have jn: "unat j < unat needed" by (simp add: word_less_nat_alt)
    have ij: "unat (i + j) = unat i + unat j"
      using "1.prems"(1) jn by (simp add: unat_add_u64)
    have j1: "unat (j + 1) = Suc (unat j)" using True by (rule unat_Suc_less)
    have upt: "[unat j..<unat needed] = unat j # [Suc (unat j)..<unat needed]"
      using jn by (rule upt_conv_Cons)
    consider (stop) "length (blocks h) \<le> unat i + unat j \<or> taken (blocks h) (unat i + unat j)"
      | (clear) "unat i + unat j < length (blocks h)" "\<not> taken (blocks h) (unat i + unat j)"
      by (meson not_le)
    then show ?thesis
    proof cases
      case stop
      then show ?thesis
        by (auto simp: scan_run.simps [of h i needed j] True read_block_def ij taken_def
            run_stop_def upt)
    next
      case clear
      let ?b = "blocks h ! (unat i + unat j)"
      have rb: "read_block h (i + j) = Inr ?b" and nb: "\<not> isAllocated ?b"
        using clear by (auto simp: read_block_def ij taken_def)
      have "j + 1 \<le> needed" using True by (rule inc_le)
      from "1.IH" [OF True rb nb "1.prems"(1) this] show ?thesis
        using clear by (simp add: scan_run.simps [of h i needed j] True rb nb run_stop_def upt j1)
    qed
  qed
qed

lemma run_stop_None:
  "run_stop bs i 0 n = None \<Longrightarrow> \<not> blocked bs n i \<and> (0 < n \<longrightarrow> i + n \<le> length bs)"
proof -
  assume "run_stop bs i 0 n = None"
  then have *: "i + k < length bs \<and> \<not> taken bs (i + k)" if "k < n" for k
    using that by (auto simp: run_stop_def find_None_iff not_le)
  have "\<not> taken bs k" if "i \<le> k" "k < i + n" for k
    using * [of "k - i"] that by simp
  moreover have "0 < n \<Longrightarrow> i + n \<le> length bs" using conjunct1 [OF * [of "n - 1"]] by arith
  ultimately show ?thesis by (auto simp: blocked_iff)
qed

lemma run_stop_Some:
  assumes "run_stop bs i 0 n = Some k"
  shows "k < n" and "i + k < length bs \<Longrightarrow> taken bs (i + k)"
    and "length bs \<le> i + k \<Longrightarrow> \<not> blocked bs n i \<and> length bs < i + n"
proof -
  from assms obtain m where m: "m < n" "k = m" and P: "length bs \<le> i + k \<or> taken bs (i + k)"
    and least: "\<forall>l<m. \<not> (length bs \<le> i + l \<or> taken bs (i + l))"
    by (auto simp: run_stop_def find_Some_iff)
  show "k < n" using m by simp
  show "taken bs (i + k)" if "i + k < length bs" using P that by simp
  show "\<not> blocked bs n i \<and> length bs < i + n" if oob: "length bs \<le> i + k"
  proof -
    have "\<not> taken bs x" if "i \<le> x" for x
    proof (cases "x < i + k")
      case True
      with least that m show ?thesis by (metis le_add_diff_inverse nat_add_left_cancel_less)
    next
      case False
      with oob show ?thesis by (simp add: taken_def)
    qed
    then show ?thesis using oob m by (auto simp: blocked_iff)
  qed
qed


section \<open>The search of \<^verbatim>\<open>alloc\<close>: first fit\<close>

text \<open>The first start that no taken block blocks, and the outcome it leads to: the search looks
  at the blocks of its run and leaves the table if the run does.\<close>

definition first_unblocked :: "allocation list \<Rightarrow> nat \<Rightarrow> nat \<Rightarrow> nat option" where
  "first_unblocked bs n i = find (\<lambda>s. \<not> blocked bs n s) [i..<length bs]"

definition search_result :: "allocation list \<Rightarrow> nat \<Rightarrow> nat \<Rightarrow> u64 result" where
  "search_result bs n i =
     (case first_unblocked bs n i of
        None \<Rightarrow> Inr (- 1)
      | Some s \<Rightarrow> if s + n \<le> length bs then Inr (word_of_nat s) else Inl OutOfBounds)"

lemma search_result_skip:
  "i \<le> i' \<Longrightarrow> (\<And>s. i \<le> s \<Longrightarrow> s < i' \<Longrightarrow> s < length bs \<Longrightarrow> blocked bs n s) \<Longrightarrow>
     search_result bs n i = search_result bs n i'"
  unfolding search_result_def first_unblocked_def
  by (subst find_upt_skip [of i i']) auto

lemma taken_run_blocked:
  assumes "table_inv bs" and "taken bs k" and "0 < n"
    and "k \<le> s" and "s < unat (end_block (bs ! k))"
  shows "blocked bs n s"
proof -
  have "bs ! s = bs ! k"
    using entry_taken(1) [OF assms(1,2)] assms(4,5) by (intro entry_taken(4) [OF assms(1,2)]) auto
  moreover have "s < length bs"
    using entry_taken(3) [OF assms(1,2)] assms(5) by simp
  ultimately have "taken bs s" using assms(2) by (simp add: taken_def)
  then show ?thesis using assms(3) by (auto simp: blocked_iff)
qed

lemma alloc_search_eq:
  assumes "heap_inv h" and "0 < unat needed" and "unat needed < 2 ^ 63" and "unat i \<le> 2 ^ 32"
  shows "alloc_search h needed i = Some (search_result (blocks h) (unat needed) (unat i))"
  using assms(4)
proof (induction "length (blocks h) - unat i" arbitrary: i rule: less_induct)
  case less
  let ?bs = "blocks h" and ?n = "unat needed"
  have inv: "table_inv ?bs" and len: "length ?bs < 2 ^ 32" using assms(1) by (simp_all add: heap_inv_def)
  have guard: "i < total_blocks h \<longleftrightarrow> unat i < length ?bs"
    by (simp only: word_less_nat_alt total_blocks_nat [OF assms(1)])
  show ?case
  proof (cases "unat i < length ?bs")
    case False
    then have "search_result ?bs ?n (unat i) = Inr (- 1)"
      by (simp add: search_result_def first_unblocked_def)
    moreover have "\<not> i < total_blocks h" using False guard by blast
    ultimately show ?thesis by (simp add: alloc_search.simps [of h needed i])
  next
    case True
    note lt = iffD2 [OF guard True]
    have rb: "read_block h i = Inr (?bs ! unat i)" using True by (simp add: read_block_def)
    have i1: "unat (i + 1) = Suc (unat i)" using lt by (rule unat_Suc_less)
    have i2: "unat (i + 1 + 1) = Suc (Suc (unat i))"
      using unat_add_u64 [of "i + 1" 1] i1 True len by simp
    have go: "alloc_search h needed j = Some (search_result ?bs ?n (unat i))"
      if "unat i < unat j" "unat j \<le> 2 ^ 32"
        "\<And>s. unat i \<le> s \<Longrightarrow> s < unat j \<Longrightarrow> s < length ?bs \<Longrightarrow> blocked ?bs ?n s" for j
    proof -
      have "alloc_search h needed j = Some (search_result ?bs ?n (unat j))"
        using that True by (intro less) auto
      then show ?thesis using that by (simp add: search_result_skip [of "unat i" "unat j"])
    qed
    show ?thesis
    proof (cases "taken ?bs (unat i)")
      case False
      then have nb: "\<not> isAllocated (?bs ! unat i)" using True by (simp add: taken_def)
      have scan: "scan_run h i needed 0 = (case run_stop ?bs (unat i) 0 ?n of None \<Rightarrow> Inr None
          | Some k \<Rightarrow> if unat i + k < length ?bs then Inr (Some (word_of_nat k)) else Inl OutOfBounds)"
        using scan_run_eq [of i needed 0 h] assms(3) less.prems by simp
      show ?thesis
      proof (cases "run_stop ?bs (unat i) 0 ?n")
        case None
        with run_stop_None [OF None] assms(2) True
        have "search_result ?bs ?n (unat i) = Inr i"
          by (simp add: search_result_def first_unblocked_def upt_conv_Cons)
        with None show ?thesis
          by (simp add: alloc_search.simps [of h needed i] lt rb nb scan)
      next
        case (Some k)
        note stop = run_stop_Some [OF Some]
        show ?thesis
        proof (cases "unat i + k < length ?bs")
          case True
          have tk: "taken ?bs (unat i + k)" using stop(2) True by blast
          then have "k \<noteq> 0" using False by (metis add_0_right)
          then have "blocked ?bs ?n s" if "unat i \<le> s" "s < Suc (Suc (unat i))" for s
            using that tk stop(1) by (auto simp: blocked_iff intro!: exI [of _ "unat i + k"])
          moreover have "unat i < unat (i + 1 + 1)" "unat (i + 1 + 1) \<le> 2 ^ 32"
            using \<open>unat i < length ?bs\<close> len unfolding i2 by arith+
          ultimately have "alloc_search h needed (i + 1 + 1) = Some (search_result ?bs ?n (unat i))"
            by (intro go) (unfold i2, blast+)
          then show ?thesis
            using Some True by (simp add: alloc_search.simps [of h needed i] lt rb nb scan)
        next
          case oob: False
          with stop(3) True have "search_result ?bs ?n (unat i) = Inl OutOfBounds"
            by (simp add: search_result_def first_unblocked_def upt_conv_Cons)
          with Some oob show ?thesis
            by (simp add: alloc_search.simps [of h needed i] lt rb nb scan)
        qed
      qed
    next
      case tk: True
      then have al: "isAllocated (?bs ! unat i)" by (simp add: taken_def)
      let ?e = "ucast (end_block (?bs ! unat i)) :: u64"
      have e: "unat ?e = unat (end_block (?bs ! unat i))" by (rule end_block_nat)
      have ei: "unat i < unat ?e" and el: "unat ?e \<le> length ?bs"
        using entry_taken(2,3) [OF inv tk] by (simp_all only: e)
      have "alloc_search h needed ?e = Some (search_result ?bs ?n (unat i))"
        using ei el len taken_run_blocked [OF inv tk assms(2)] by (intro go) (auto simp: e)
      moreover have "i < ?e" using ei by (simp only: word_less_nat_alt)
      ultimately show ?thesis
        by (simp add: alloc_search.simps [of h needed i] lt rb al)
    qed
  qed
qed


section \<open>\<^verbatim>\<open>alloc\<close> and \<^verbatim>\<open>free\<close> on the table\<close>

definition needed_blocks :: "heap \<Rightarrow> u64 \<Rightarrow> nat" where
  "needed_blocks h sz = (unat sz + bsz h - 1) div bsz h"

text \<open>The rounding \<^verbatim>\<open>size + block_size - 1\<close> does not wrap.\<close>

abbreviation size_ok :: "heap \<Rightarrow> u64 \<Rightarrow> bool" where
  "size_ok h sz \<equiv> sz \<noteq> 0 \<and> unat sz + bsz h - 1 < 2 ^ 64"

definition take_run :: "heap \<Rightarrow> nat \<Rightarrow> nat \<Rightarrow> heap" where
  "take_run h s n = h\<lparr>blocks := fill (blocks h) s (s + n) (run_entry s n)\<rparr>"

definition clear_run :: "heap \<Rightarrow> nat \<Rightarrow> nat \<Rightarrow> heap" where
  "clear_run h s e = h\<lparr>blocks := fill (blocks h) s e free_entry\<rparr>"

definition block_addr :: "heap \<Rightarrow> nat \<Rightarrow> u64" where
  "block_addr h s = start_addr h + word_of_nat (s * bsz h)"

lemma heap_invD:
  assumes "heap_inv h"
  shows "1 < bsz h" and "length (blocks h) < 2 ^ 32" and "table_inv (blocks h)"
    and "bsize h \<noteq> 0" and "length (blocks h) * bsz h \<le> unat (max_size h)"
    and "unat (start_addr h) + unat (max_size h) < 2 ^ 64" and "bsz h \<le> unat (start_addr h)"
proof -
  show "1 < bsz h" "length (blocks h) < 2 ^ 32" "table_inv (blocks h)"
    "unat (start_addr h) + unat (max_size h) < 2 ^ 64" "bsz h \<le> unat (start_addr h)"
    using assms unfolding heap_inv_def by blast+
  then have "unat (bsize h) \<noteq> 0" by (simp only: bsize_nat)
  then show "bsize h \<noteq> 0" by (metis unat_0)
  show "length (blocks h) * bsz h \<le> unat (max_size h)"
    using assms unfolding heap_inv_def by (metis div_times_less_eq_dividend)
qed

lemma needed_nat:
  assumes "heap_inv h" and "size_ok h sz"
  shows "unat ((sz + bsize h - 1) div bsize h) = needed_blocks h sz"
    and "0 < needed_blocks h sz" and "needed_blocks h sz < 2 ^ 63"
  unfolding needed_blocks_def
proof -
  have b: "1 < bsz h" using assms(1) by (rule heap_invD)
  have "unat (bsize h - 1) = bsz h - 1"
    using unat_minus_one [OF heap_invD(4) [OF assms(1)]] by (simp only: bsize_nat)
  then have "unat (sz + (bsize h - 1)) = unat sz + bsz h - 1"
    using unat_add_u64 [of sz "bsize h - 1"] assms(2) b by simp
  then have "unat (sz + bsize h - 1) = unat sz + bsz h - 1" by (simp only: add_diff_eq)
  then show "unat ((sz + bsize h - 1) div bsize h) = (unat sz + bsz h - 1) div bsz h"
    by (simp only: unat_div_distrib bsize_nat)
  have "0 < unat sz" using assms(2) by (simp add: unat_gt_0)
  then have "bsz h \<le> unat sz + bsz h - 1" by simp
  then show "0 < (unat sz + bsz h - 1) div bsz h" using b by (simp add: div_greater_zero_iff)
  have "(unat sz + bsz h - 1) div bsz h * 2 \<le> (unat sz + bsz h - 1) div bsz h * bsz h" using b by simp
  also have "\<dots> \<le> unat sz + bsz h - 1" by (rule div_times_less_eq_dividend)
  also have "\<dots> < 2 ^ 64" using assms(2) by blast
  finally show "(unat sz + bsz h - 1) div bsz h < 2 ^ 63" by simp
qed

lemma block_addr_nat:
  assumes "heap_inv h" and "s \<le> length (blocks h)"
  shows "unat (block_addr h s) = unat (start_addr h) + s * bsz h"
    and "unat (word_of_nat (s * bsz h) :: u64) = s * bsz h"
proof -
  have le: "s * bsz h \<le> unat (max_size h)"
    using heap_invD(5) [OF assms(1)] assms(2) by (meson le_trans mult_le_mono1)
  then have lt: "s * bsz h < 2 ^ 64" using unat_u64_less [of "max_size h"] by linarith
  then show "unat (word_of_nat (s * bsz h) :: u64) = s * bsz h" by (rule unat_of_nat_u64)
  then show "unat (block_addr h s) = unat (start_addr h) + s * bsz h"
    unfolding block_addr_def using heap_invD(6) [OF assms(1)] le
    by (subst unat_add_u64) auto
qed

lemma block_addr_word:
  "start_addr h + word_of_nat s * bsize h = block_addr h s"
proof -
  have "bsize h = word_of_nat (bsz h)" by (metis bsize_nat of_nat_unat ucast_id)
  then show ?thesis by (simp add: block_addr_def)
qed

lemma mark_run_eq:
  assumes "s + n \<le> length (blocks h)" and "length (blocks h) < 2 ^ 32" and "unat needed = n"
  shows "mark_run (word_of_nat s) needed h = Inr (take_run h s n)"
proof -
  have s: "unat (word_of_nat s :: u64) = s" using assms(1,2) by (intro unat_of_nat_u64) simp
  have e: "unat (word_of_nat s + needed) = s + n"
    using assms s by (subst unat_add_u64) auto
  have ns: "word_of_nat s + needed = (word_of_nat (s + n) :: u64)"
    using e by (metis of_nat_unat ucast_id)
  have c: "ucast (word_of_nat k :: u64) = (word_of_nat k :: u32)" if "k < 2 ^ 32" for k
    using that by (intro unat_inject)
      (simp add: unsigned_ucast_eq unat_of_nat take_bit_eq_mod)
  have loop: "for_u64_r (word_of_nat s) e (\<lambda>f. write_block f b) h =
      Inr (h\<lparr>blocks := fill (blocks h) s (s + n) b\<rparr>)" if "unat e = s + n" for e b
    using for_write_block [of e h "word_of_nat s" b] assms(1) that s by (simp add: word_le_nat_alt)
  have "ucast (word_of_nat s :: u64) = (word_of_nat s :: u32)"
    "ucast (word_of_nat s + needed) = (word_of_nat (s + n) :: u32)"
    using assms(1,2) unfolding ns by (intro c; linarith)+
  then show ?thesis
    unfolding mark_run_def take_run_def run_entry_def by (simp only: loop [OF e])
qed

text \<open>What \<^verbatim>\<open>alloc\<close> does, for every request whose rounding does not wrap.\<close>

lemma alloc_eq:
  assumes "heap_inv h" and "size_ok h sz"
  shows "alloc h sz =
    (case first_unblocked (blocks h) (needed_blocks h sz) 0 of
       None \<Rightarrow> Inr (0, h)
     | Some s \<Rightarrow> if s + needed_blocks h sz \<le> length (blocks h)
                then Inr (block_addr h s, take_run h s (needed_blocks h sz))
                else Inl OutOfBounds)"
proof -
  let ?w = "(sz + bsize h - 1) div bsize h" and ?n = "needed_blocks h sz"
  note n = needed_nat [OF assms]
  have search: "alloc_search h ?w 0 = Some (search_result (blocks h) ?n 0)"
    using alloc_search_eq [OF assms(1), of ?w 0] n by (simp only: n unat_0)
  note bs0 = heap_invD(4) [OF assms(1)]
  have sz0: "sz \<noteq> 0" using assms(2) by blast
  have len: "length (blocks h) < 2 ^ 32" using assms(1) by (rule heap_invD)
  show ?thesis
  proof (cases "first_unblocked (blocks h) ?n 0")
    case None
    then have "search_result (blocks h) ?n 0 = Inr (- 1)" by (simp add: search_result_def)
    with None search show ?thesis by (simp add: alloc_def Let_def sz0 bs0)
  next
    case (Some s)
    show ?thesis
    proof (cases "s + ?n \<le> length (blocks h)")
      case True
      then have "s < 2 ^ 64 - 1" using len by simp
      then have "unat (word_of_nat s :: u64) \<noteq> unat (- 1 :: u64)"
        using unat_of_nat_u64 [of s] by (simp add: unsigned_minus_1_eq_mask mask_eq_exp_minus_1)
      then have "word_of_nat s \<noteq> (- 1 :: u64)" by metis
      moreover have "search_result (blocks h) ?n 0 = Inr (word_of_nat s)"
        using Some True by (simp add: search_result_def)
      ultimately show ?thesis
        using Some True search mark_run_eq [OF True len n(1)]
        by (simp add: alloc_def Let_def sz0 bs0 block_addr_word)
    next
      case False
      then have "search_result (blocks h) ?n 0 = Inl OutOfBounds"
        using Some by (simp add: search_result_def)
      with Some False search show ?thesis by (simp add: alloc_def Let_def sz0 bs0)
    qed
  qed
qed

text \<open>What \<^verbatim>\<open>free\<close> does with an address inside block \<open>k\<close>.\<close>

lemma free_eq:
  assumes "heap_inv h" and "k < length (blocks h)" and "off < bsz h"
  shows "free h (block_addr h k + word_of_nat off) =
         Inr (clear_run h k (unat (end_block (blocks h ! k))))"
proof -
  let ?p = "block_addr h k + word_of_nat off" and ?e = "unat (end_block (blocks h ! k))"
  note k = block_addr_nat [OF assms(1) less_imp_le [OF assms(2)]]
  have "(k + 1) * bsz h \<le> length (blocks h) * bsz h" using assms(2) by (intro mult_le_mono1) simp
  then have in_span: "k * bsz h + off < unat (max_size h)"
    using assms(3) heap_invD(5) [OF assms(1)] by simp
  then have lt: "k * bsz h + off < 2 ^ 64" using unat_u64_less [of "max_size h"] by linarith
  have diff: "?p - start_addr h = word_of_nat (k * bsz h + off)"
    by (simp add: block_addr_def)
  have blk: "unat ((?p - start_addr h) div bsize h) = k"
    unfolding diff unat_div_distrib bsize_nat unat_of_nat_u64 [OF lt]
    using assms(3) by (simp add: div_add1_eq)
  have "unat (word_of_nat off :: u64) = off" using lt by (intro unat_of_nat_u64) simp
  then have "unat ?p = unat (start_addr h) + k * bsz h + off"
    using heap_invD(6) [OF assms(1)] in_span by (subst unat_add_u64) (simp_all add: k)
  then have "unat ?p \<noteq> 0" using heap_invD(1,7) [OF assms(1)] by simp
  then have p0: "?p \<noteq> 0" by (metis unat_0)
  have e: "unat (ucast (end_block (blocks h ! k)) :: u64) = ?e" by (rule end_block_nat)
  have rb: "read_block h ((?p - start_addr h) div bsize h) = Inr (blocks h ! k)"
    using assms(2) by (simp only: read_block_def blk if_True)
  have "for_u64_r ((?p - start_addr h) div bsize h) (ucast (end_block (blocks h ! k)))
          (\<lambda>i. write_block i free_entry) h = Inr (clear_run h k ?e)"
  proof (cases "k \<le> ?e")
    case True
    have "?e \<le> length (blocks h)"
    proof (cases "taken (blocks h) k")
      case True
      show ?thesis by (rule entry_taken(3) [OF heap_invD(3) [OF assms(1)] True])
    next
      case False
      then show ?thesis
        using entry_free [OF heap_invD(3) [OF assms(1)] assms(2)] by (simp add: free_entry_def)
    qed
    with True show ?thesis
      by (subst for_write_block) (simp_all only: word_le_nat_alt blk e clear_run_def)
  next
    case False
    then have "\<not> (?p - start_addr h) div bsize h < ucast (end_block (blocks h ! k))"
      by (simp only: word_less_nat_alt blk e)
    then show ?thesis
      using False by (subst for_u64_r.simps) (simp add: clear_run_def fill_empty)
  qed
  then show ?thesis
    using heap_invD(4) [OF assms(1)] by (simp add: free_def Let_def p0 rb)
qed

section \<open>The search of \<^verbatim>\<open>alloc_aligned\<close>\<close>

definition start_aligned :: "heap \<Rightarrow> nat \<Rightarrow> nat \<Rightarrow> bool" where
  "start_aligned h A s \<longleftrightarrow> A dvd unat (start_addr h) + s * bsz h"

definition first_aligned :: "heap \<Rightarrow> nat \<Rightarrow> nat \<Rightarrow> nat \<Rightarrow> nat option" where
  "first_aligned h A n i =
     find (\<lambda>s. start_aligned h A s \<and> \<not> blocked (blocks h) n s) [i..<length (blocks h) + 1 - n]"

lemma aligned_jump:
  assumes inv: "heap_inv h" and k: "k < 64" and i: "unat i < length (blocks h)"
    and un: "\<not> start_aligned h (2 ^ k) (unat i)"
  defines "i' \<equiv> unat ((align_up (block_addr h (unat i)) (2 ^ k) - start_addr h + bsize h - 1) div bsize h)"
  shows "unat i < i'" and "i' < 2 ^ 63"
    and "\<And>s. unat i \<le> s \<Longrightarrow> s < i' \<Longrightarrow> \<not> start_aligned h (2 ^ k) s"
proof -
  let ?A = "2 ^ k :: nat" and ?s = "unat (start_addr h)" and ?b = "bsz h"
  define a where "a = ?s + unat i * ?b"
  define M where "M = (a + ?A - 1) div ?A * ?A"
  have addr: "unat (block_addr h (unat i)) = a"
    using block_addr_nat(1) [OF inv less_imp_le [OF i]] by (simp add: a_def)
  have a64: "a < 2 ^ 64" using unat_u64_less addr by metis
  have b: "1 < ?b" "?b \<le> ?s" using heap_invD [OF inv] by blast+
  have "a \<le> M" unfolding M_def by (rule ceil_mult_bounds) simp
  moreover have "a \<noteq> M" using un by (metis M_def a_def dvd_triv_right start_aligned_def)
  ultimately have aM: "a < M" by simp
  have "?A * 2 ^ (64 - k) = (2 :: nat) ^ 64" using k by (simp add: power_add [symmetric])
  then have M64: "M \<le> 2 ^ 64"
  proof -
    assume p: "?A * 2 ^ (64 - k) = (2 :: nat) ^ 64"
    have "M < a + ?A" unfolding M_def by (rule ceil_mult_bounds) simp
    then have "M < (2 ^ (64 - k) + 1) * ?A" using a64 p by (simp add: algebra_simps)
    then have "(a + ?A - 1) div ?A < 2 ^ (64 - k) + 1" unfolding M_def using mult_less_cancel2 by blast
    then have "(a + ?A - 1) div ?A \<le> 2 ^ (64 - k)" by simp
    then have "M \<le> 2 ^ (64 - k) * ?A" unfolding M_def by (rule mult_le_mono1)
    then show ?thesis using p by (simp add: mult.commute)
  qed
  have sM: "?s \<le> M" using aM a_def by simp
  have "align_up (block_addr h (unat i)) (2 ^ k) - start_addr h + bsize h - 1 = word_of_nat (M - ?s + ?b - 1)"
  proof -
    have "align_up (block_addr h (unat i)) (2 ^ k) = word_of_nat M"
      by (simp only: align_up_word [OF k] addr M_def)
    moreover have "bsize h = word_of_nat ?b" by (metis bsize_nat of_nat_unat ucast_id)
    moreover have "start_addr h = word_of_nat ?s" by simp
    ultimately show ?thesis using sM b by (simp add: of_nat_diff)
  qed
  then have w: "unat (align_up (block_addr h (unat i)) (2 ^ k) - start_addr h + bsize h - 1) = M - ?s + ?b - 1"
    using M64 b sM by (simp only: unat_of_nat_u64)
  then have i': "i' = (M - ?s + ?b - 1) div ?b"
    unfolding i'_def by (simp only: unat_div_distrib bsize_nat)
  have ceil: "M - ?s \<le> i' * ?b" "i' * ?b < M - ?s + ?b"
    unfolding i' using b by (intro ceil_mult_bounds; simp)+
  have "unat i * ?b < i' * ?b" using ceil(1) aM a_def by linarith
  then show "unat i < i'" by simp
  have "i' * 2 \<le> i' * ?b" using b by simp
  moreover have "M - ?s + ?b \<le> 2 ^ 64" using sM M64 b by arith
  ultimately have "i' * 2 < 2 ^ 64" using ceil(2) by linarith
  then show "i' < 2 ^ 63" by simp
  show "\<not> start_aligned h (2 ^ k) s" if s: "unat i \<le> s" "s < i'" for s
  proof
    assume "start_aligned h (2 ^ k) s"
    then obtain m where m: "?s + s * ?b = m * ?A" by (auto simp: start_aligned_def dvd_def mult.commute)
    have "a \<le> m * ?A" using s(1) m a_def by (metis add_le_mono le_refl mult_le_mono1)
    moreover have "s * ?b + ?b \<le> i' * ?b"
      using s(2) by (metis Suc_leI add.commute mult_Suc mult_le_mono1)
    then have "m * ?A < M" using ceil(2) m sM by linarith
    ultimately show False
      unfolding M_def by (intro no_multiple_between [of ?A a m]) simp_all
  qed
qed


lemma first_aligned_skip:
  "i \<le> i' \<Longrightarrow> (\<And>s. i \<le> s \<Longrightarrow> s < i' \<Longrightarrow> s + n \<le> length (blocks h) \<Longrightarrow>
        \<not> start_aligned h A s \<or> blocked (blocks h) n s) \<Longrightarrow>
     first_aligned h A n i = first_aligned h A n i'"
  unfolding first_aligned_def by (rule find_upt_skip) auto

lemma alloc_aligned_search_eq:
  assumes inv: "heap_inv h" and n: "0 < unat needed" "unat needed \<le> length (blocks h)"
    and k: "k < 64" and "unat i < 2 ^ 63"
  shows "alloc_aligned_search h (2 ^ k) needed i =
     Some (Inr (map_option word_of_nat (first_aligned h (2 ^ k) (unat needed) (unat i))))"
  using assms(5)
proof (induction "length (blocks h) + 1 - unat i" arbitrary: i rule: less_induct)
  case less
  let ?bs = "blocks h" and ?n = "unat needed" and ?A = "2 ^ k :: nat"
  note tinv = heap_invD(3) [OF inv] and len = heap_invD(2) [OF inv]
  have in64: "unat i + ?n < 2 ^ 64" using less.prems n len by simp
  have guard: "i + needed \<le> total_blocks h \<longleftrightarrow> unat i + ?n \<le> length ?bs"
    by (simp only: word_le_nat_alt total_blocks_nat [OF inv] unat_add_u64 [OF in64])
  note unfold = alloc_aligned_search.simps [of h "2 ^ k" needed i]
  show ?case
  proof (cases "unat i + ?n \<le> length ?bs")
    case False
    then have "first_aligned h ?A ?n (unat i) = None" by (simp add: first_aligned_def)
    moreover have "\<not> i + needed \<le> total_blocks h" using False guard by blast
    ultimately show ?thesis by (simp add: unfold)
  next
    case True
    note le = iffD2 [OF guard True]
    have il: "unat i < length ?bs" using True n by simp
    have addr: "start_addr h + i * bsize h = block_addr h (unat i)"
      using block_addr_word [of h "unat i"] by simp
    have test: "block_addr h (unat i) AND (2 ^ k - 1) \<noteq> 0 \<longleftrightarrow> \<not> start_aligned h ?A (unat i)"
      by (simp only: aligned_test [OF k] start_aligned_def
          block_addr_nat(1) [OF inv less_imp_le [OF il]])
    have go: "alloc_aligned_search h (2 ^ k) needed j =
        Some (Inr (map_option word_of_nat (first_aligned h ?A ?n (unat i))))"
      if "unat i < unat j" "unat j < 2 ^ 63"
        "\<And>s. unat i \<le> s \<Longrightarrow> s < unat j \<Longrightarrow> s + ?n \<le> length ?bs \<Longrightarrow>
           \<not> start_aligned h ?A s \<or> blocked ?bs ?n s" for j
    proof -
      have "alloc_aligned_search h (2 ^ k) needed j =
          Some (Inr (map_option word_of_nat (first_aligned h ?A ?n (unat j))))"
        using that il by (intro less) auto
      then show ?thesis using first_aligned_skip [of "unat i" "unat j" ?n h ?A] that by simp
    qed
    show ?thesis
    proof (cases "start_aligned h ?A (unat i)")
      case False
      note jump = aligned_jump [OF inv k il False]
      have "alloc_aligned_search h (2 ^ k) needed
          ((align_up (block_addr h (unat i)) (2 ^ k) - start_addr h + bsize h - 1) div bsize h) =
        Some (Inr (map_option word_of_nat (first_aligned h ?A ?n (unat i))))"
        using jump by (intro go) blast+
      then show ?thesis using False test by (simp add: unfold le addr Let_def)
    next
      case al: True
      have scan: "scan_run h i needed 0 = (case run_stop ?bs (unat i) 0 ?n of None \<Rightarrow> Inr None
          | Some j \<Rightarrow> if unat i + j < length ?bs then Inr (Some (word_of_nat j)) else Inl OutOfBounds)"
        using scan_run_eq [of i needed 0 h] in64 by simp
      show ?thesis
      proof (cases "run_stop ?bs (unat i) 0 ?n")
        case None
        have "first_aligned h ?A ?n (unat i) = Some (unat i)"
          using run_stop_None [OF None] al True by (simp add: first_aligned_def upt_conv_Cons)
        then show ?thesis using None test al by (simp add: unfold le addr Let_def scan)
      next
        case (Some j)
        have j: "j < ?n" by (rule run_stop_Some(1) [OF Some])
        have ij: "unat i + j < length ?bs" using j True by simp
        have tk: "taken ?bs (unat i + j)" using run_stop_Some(2) [OF Some] ij by blast
        have "j < 2 ^ 64" using j in64 by simp
        then have w: "unat (i + word_of_nat j) = unat i + j"
          using in64 j by (subst unat_add_u64) (simp_all add: unat_of_nat_u64)
        let ?e = "end_block (?bs ! (unat i + j))"
        have rb: "read_block h (i + word_of_nat j) = Inr (?bs ! (unat i + j))"
          using ij by (simp add: read_block_def w)
        have e: "unat i + j < unat ?e" "unat ?e \<le> length ?bs"
          using entry_taken(2,3) [OF tinv tk] by blast+
        have ew: "ucast ?e > i + word_of_nat j" using e(1) by (simp only: word_less_nat_alt end_block_nat w)
        have "alloc_aligned_search h (2 ^ k) needed (ucast ?e) =
            Some (Inr (map_option word_of_nat (first_aligned h ?A ?n (unat i))))"
        proof (rule go; unfold end_block_nat)
          show "unat i < unat ?e" using e by simp
          show "unat ?e < 2 ^ 63" using e len by simp
          fix s assume s: "unat i \<le> s" "s < unat ?e"
          show "\<not> start_aligned h ?A s \<or> blocked ?bs ?n s"
          proof (cases "s \<le> unat i + j")
            case True
            then show ?thesis using s tk j by (auto simp: blocked_iff intro!: exI [of _ "unat i + j"])
          next
            case False
            then show ?thesis using taken_run_blocked [OF tinv tk n(1), of s] s by simp
          qed
        qed
        then show ?thesis
          using Some test al ij ew by (simp add: unfold le addr Let_def scan rb)
      qed
    qed
  qed
qed

text \<open>What \<^verbatim>\<open>alloc_aligned\<close> does for a power-of-two alignment.\<close>

lemma alloc_aligned_eq:
  assumes "heap_inv h" and "size_ok h sz" and "k < 64"
  shows "alloc_aligned h sz (2 ^ k) =
    (if length (blocks h) < needed_blocks h sz then Inr (0, h)
     else case first_aligned h (2 ^ k) (needed_blocks h sz) 0 of
       None \<Rightarrow> Inr (0, h)
     | Some s \<Rightarrow> Inr (block_addr h s, take_run h s (needed_blocks h sz)))"
proof -
  let ?w = "(sz + bsize h - 1) div bsize h" and ?n = "needed_blocks h sz"
  note n = needed_nat [OF assms(1,2)]
  note bs0 = heap_invD(4) [OF assms(1)] and len = heap_invD(2) [OF assms(1)]
  have sz0: "sz \<noteq> 0" using assms(2) by blast
  have al0: "(2 ^ k :: u64) \<noteq> 0" using pow2_u64_nat [OF assms(3)] by (metis power_not_zero unat_0 zero_neq_numeral)
  have al: "(2 ^ k :: u64) AND (2 ^ k - 1) = 0"
    by (simp only: aligned_test [OF assms(3)] pow2_u64_nat [OF assms(3)] dvd_refl)
  have guard: "?w > total_blocks h \<longleftrightarrow> length (blocks h) < ?n"
    by (simp only: word_less_nat_alt total_blocks_nat [OF assms(1)] n)
  show ?thesis
  proof (cases "length (blocks h) < ?n")
    case True
    then have "?w > total_blocks h" using guard by blast
    with True show ?thesis by (simp add: alloc_aligned_def Let_def sz0 bs0 al0 al linorder_not_le [THEN iffD2, OF assms(3)])
  next
    case False
    have ng: "\<not> ?w > total_blocks h" using False guard by blast
    have search: "alloc_aligned_search h (2 ^ k) ?w 0 =
        Some (Inr (map_option word_of_nat (first_aligned h (2 ^ k) ?n 0)))"
      using alloc_aligned_search_eq [OF assms(1) _ _ assms(3), of ?w 0] n(2) False
      by (simp only: n(1) unat_0) simp
    show ?thesis
    proof (cases "first_aligned h (2 ^ k) ?n 0")
      case None
      with search ng False show ?thesis by (simp add: alloc_aligned_def Let_def sz0 bs0 al0 al linorder_not_le [THEN iffD2, OF assms(3)])
    next
      case (Some s)
      then have "s + ?n \<le> length (blocks h)"
        using False by (auto simp: first_aligned_def find_Some_iff)
      from mark_run_eq [OF this len n(1)] Some search ng False show ?thesis
        by (simp add: alloc_aligned_def Let_def sz0 bs0 al0 al linorder_not_le [THEN iffD2, OF assms(3)] block_addr_word)
    qed
  qed
qed

section \<open>The invariant\<close>

lemma take_run_simps [simp]:
  "block_size (take_run h s n) = block_size h" "start_addr (take_run h s n) = start_addr h"
  "max_size (take_run h s n) = max_size h"
  "blocks (take_run h s n) = fill (blocks h) s (s + n) (run_entry s n)"
  by (simp_all add: take_run_def)

lemma clear_run_simps [simp]:
  "block_size (clear_run h s e) = block_size h" "start_addr (clear_run h s e) = start_addr h"
  "max_size (clear_run h s e) = max_size h"
  "blocks (clear_run h s e) = fill (blocks h) s e free_entry"
  by (simp_all add: clear_run_def)

lemma heap_inv_table:
  "heap_inv h \<Longrightarrow> table_inv (blocks h') \<Longrightarrow> block_size h' = block_size h \<Longrightarrow>
     start_addr h' = start_addr h \<Longrightarrow> max_size h' = max_size h \<Longrightarrow>
     length (blocks h') = length (blocks h) \<Longrightarrow> heap_inv h'"
  unfolding heap_inv_def by metis

lemma table_invI: "(\<And>k. k < length bs \<Longrightarrow> entry_ok bs k) \<Longrightarrow> table_inv bs"
  by (simp add: table_inv_def list_all_iff)

lemma entry_okI_taken:
  "isAllocated (bs ! k) \<Longrightarrow> unat (start_block (bs ! k)) \<le> k \<Longrightarrow> k < unat (end_block (bs ! k)) \<Longrightarrow>
     unat (end_block (bs ! k)) \<le> length bs \<Longrightarrow>
     (\<And>j. unat (start_block (bs ! k)) \<le> j \<Longrightarrow> j < unat (end_block (bs ! k)) \<Longrightarrow> bs ! j = bs ! k) \<Longrightarrow>
     entry_ok bs k"
  unfolding entry_ok_def list_all_iff by (metis atLeastLessThan_iff set_upt)

lemma run_entry_simps:
  assumes "s + n < 2 ^ 32"
  shows "isAllocated (run_entry s n)" "unat (start_block (run_entry s n)) = s"
    "unat (end_block (run_entry s n)) = s + n"
  using assms by (simp_all add: run_entry_def unat_of_nat del: of_nat_add)

lemma table_inv_take:
  assumes inv: "table_inv bs" and "length bs < 2 ^ 32" and "s + n \<le> length bs"
    and free: "\<not> blocked bs n s"
  shows "table_inv (fill bs s (s + n) (run_entry s n))"
proof (rule table_invI)
  let ?bs = "fill bs s (s + n) (run_entry s n)"
  have sn: "s + n < 2 ^ 32" using assms by linarith
  fix k assume "k < length ?bs"
  then have k: "k < length bs" by simp
  show "entry_ok ?bs k"
  proof (cases "s \<le> k \<and> k < s + n")
    case True
    then have "?bs ! k = run_entry s n" using k by (simp add: nth_fill)
    then show ?thesis
      using True assms(3) by (intro entry_okI_taken) (simp_all add: run_entry_simps [OF sn] nth_fill)
  next
    case out: False
    then have eq: "?bs ! k = bs ! k" using k by (auto simp: nth_fill)
    show ?thesis
    proof (cases "taken bs k")
      case True
      note t = entry_taken [OF inv True]
      have "?bs ! j = bs ! k"
        if j: "unat (start_block (bs ! k)) \<le> j" "j < unat (end_block (bs ! k))" for j
      proof -
        have "bs ! j = bs ! k" using j by (rule t(4))
        moreover have "j < length bs" using j t(3) by simp
        ultimately have "taken bs j" using True by (simp add: taken_def)
        then have "\<not> (s \<le> j \<and> j < s + n)" using free by (auto simp: blocked_iff)
        then show ?thesis using \<open>bs ! j = bs ! k\<close> \<open>j < length bs\<close> by (auto simp: nth_fill)
      qed
      then show ?thesis
        using True t(1-3) by (intro entry_okI_taken) (simp_all only: eq length_fill taken_def)
    next
      case False
      then show ?thesis using entry_free [OF inv k] eq by (simp add: entry_ok_def free_entry_def)
    qed
  qed
qed

lemma same_run:
  assumes inv: "table_inv bs" and "taken bs k" and "taken bs l"
    and "unat (start_block (bs ! k)) \<le> j" "j < unat (end_block (bs ! k))"
    and "unat (start_block (bs ! l)) \<le> j" "j < unat (end_block (bs ! l))"
  shows "bs ! k = bs ! l"
proof -
  have "bs ! j = bs ! k" using assms(4,5) by (rule entry_taken(4) [OF inv assms(2)])
  moreover have "bs ! j = bs ! l" using assms(6,7) by (rule entry_taken(4) [OF inv assms(3)])
  ultimately show ?thesis by simp
qed

lemma table_inv_clear:
  assumes inv: "table_inv bs" and tk: "taken bs s" and start: "unat (start_block (bs ! s)) = s"
  shows "table_inv (fill bs s (unat (end_block (bs ! s))) free_entry)"
proof (rule table_invI)
  let ?e = "unat (end_block (bs ! s))" let ?bs = "fill bs s ?e free_entry"
  fix k assume "k < length ?bs"
  then have k: "k < length bs" by simp
  show "entry_ok ?bs k"
  proof (cases "s \<le> k \<and> k < ?e")
    case True
    then have "?bs ! k = free_entry" using k by (simp add: nth_fill)
    then show ?thesis by (simp add: entry_ok_def free_entry_def)
  next
    case out: False
    then have eq: "?bs ! k = bs ! k" using k by (auto simp: nth_fill)
    show ?thesis
    proof (cases "taken bs k")
      case True
      note t = entry_taken [OF inv True]
      have "?bs ! j = bs ! k"
        if j: "unat (start_block (bs ! k)) \<le> j" "j < unat (end_block (bs ! k))" for j
      proof -
        have "\<not> (s \<le> j \<and> j < ?e)"
        proof
          assume "s \<le> j \<and> j < ?e"
          then have "bs ! k = bs ! s"
            using same_run [OF inv True tk, of j] j start by simp
          then show False using t(1,2) out start by simp
        qed
        moreover have "bs ! j = bs ! k" using j by (rule t(4))
        moreover have "j < length bs" using j t(3) by simp
        ultimately show ?thesis by (auto simp: nth_fill)
      qed
      then show ?thesis
        using True t(1-3) by (intro entry_okI_taken) (simp_all only: eq length_fill taken_def)
    next
      case False
      then show ?thesis using entry_free [OF inv k] eq by (simp add: entry_ok_def free_entry_def)
    qed
  qed
qed

end
