(* ===== verification/Allocator_Props.thy ===== *)
theory Allocator_Props
  imports Allocator_Table Provider
begin

text \<open>
  The properties of the block allocator: the exact outcome of each operation, the invariant of the
  heap, the abstract view of the table as a set of live runs, the requests that the code does not
  handle (a run that leaves the table, a size whose rounding wraps), and the interpretation of the
  memory-provider interfaces on \<^verbatim>\<open>alloc\<close>, \<^verbatim>\<open>alloc_aligned\<close>
  and \<^verbatim>\<open>free\<close>.
\<close>

section \<open>Searches that succeed and searches that fail\<close>

lemma first_unblocked_Some:
  assumes "first_unblocked bs n 0 = Some s"
  shows "s < length bs" and "\<not> blocked bs n s" and "\<And>t. t < s \<Longrightarrow> blocked bs n t"
  using assms by (auto simp: first_unblocked_def find_Some_iff)

lemma first_unblocked_None:
  "first_unblocked bs n 0 = None \<longleftrightarrow> (\<forall>s<length bs. blocked bs n s)"
  by (auto simp: first_unblocked_def find_None_iff)

lemma first_aligned_Some:
  assumes "first_aligned h A n 0 = Some s" and "n \<le> length (blocks h)"
  shows "s + n \<le> length (blocks h)" and "\<not> blocked (blocks h) n s" and "start_aligned h A s"
    and "\<And>t. t < s \<Longrightarrow> \<not> start_aligned h A t \<or> blocked (blocks h) n t"
  using assms by (auto simp: first_aligned_def find_Some_iff)

lemma first_aligned_None:
  "first_aligned h A n 0 = None \<Longrightarrow> s + n \<le> length (blocks h) \<Longrightarrow>
     \<not> start_aligned h A s \<or> blocked (blocks h) n s"
  by (auto simp: first_aligned_def find_None_iff)

text \<open>A run is free when it lies in the table and no block of it is taken.\<close>

definition run_free :: "heap \<Rightarrow> nat \<Rightarrow> nat \<Rightarrow> bool" where
  "run_free h s n \<longleftrightarrow> s + n \<le> length (blocks h) \<and> \<not> blocked (blocks h) n s"

text \<open>The three ways \<^verbatim>\<open>alloc\<close> ends.\<close>

lemma alloc_cases:
  assumes "heap_inv h" and "size_ok h sz"
  obtains (grant) s where "run_free h s (needed_blocks h sz)"
      "\<And>t. t < s \<Longrightarrow> \<not> run_free h t (needed_blocks h sz)"
      "alloc h sz = Inr (block_addr h s, take_run h s (needed_blocks h sz))"
  | (refuse) "\<And>s. s < length (blocks h) \<Longrightarrow> blocked (blocks h) (needed_blocks h sz) s"
      "alloc h sz = Inr (0, h)"
  | (outside) s where "s < length (blocks h)" "length (blocks h) < s + needed_blocks h sz"
      "\<not> blocked (blocks h) (needed_blocks h sz) s"
      "\<And>t. t < s \<Longrightarrow> blocked (blocks h) (needed_blocks h sz) t" "alloc h sz = Inl OutOfBounds"
proof (cases "first_unblocked (blocks h) (needed_blocks h sz) 0")
  case None
  have "alloc h sz = Inr (0, h)" using alloc_eq [OF assms] by (simp add: None)
  with None show thesis by (intro refuse) (simp_all add: first_unblocked_None)
next
  case (Some s)
  note f = first_unblocked_Some [OF Some]
  show thesis
  proof (cases "s + needed_blocks h sz \<le> length (blocks h)")
    case True
    then show thesis using Some f alloc_eq [OF assms] by (intro grant) (auto simp: run_free_def)
  next
    case False
    then show thesis using Some f alloc_eq [OF assms] by (intro outside) auto
  qed
qed

lemma alloc_lowest:
  assumes "heap_inv h" and "size_ok h sz" and "run_free h s (needed_blocks h sz)"
  shows "\<exists>t \<le> s. run_free h t (needed_blocks h sz) \<and> (\<forall>u<t. \<not> run_free h u (needed_blocks h sz)) \<and>
           alloc h sz = Inr (block_addr h t, take_run h t (needed_blocks h sz))"
  using assms(1,2)
proof (cases rule: alloc_cases)
  case (grant t)
  then show ?thesis using assms(3) by (metis not_le)
next
  case refuse
  then show ?thesis
    using assms(3) needed_nat(2) [OF assms(1,2)] by (auto simp: run_free_def)
next
  case (outside t)
  then have "\<not> run_free h s (needed_blocks h sz)"
    by (cases "s < t") (auto simp: run_free_def)
  with assms(3) show ?thesis by contradiction
qed

lemma block_addr_nonzero:
  "heap_inv h \<Longrightarrow> s \<le> length (blocks h) \<Longrightarrow> block_addr h s \<noteq> 0"
  using block_addr_nat(1) [of h s] heap_invD(1,7) [of h] by (metis add_is_0 not_less_zero le_zero_eq unat_0)

lemma heap_inv_take:
  "heap_inv h \<Longrightarrow> run_free h s n \<Longrightarrow> heap_inv (take_run h s n)"
  by (rule heap_inv_table [of h])
    (simp_all add: run_free_def table_inv_take [OF heap_invD(3) heap_invD(2)])

lemma alloc_grantD:
  assumes "heap_inv h" and "size_ok h sz" and "alloc h sz = Inr (p, h')"
  shows "(p = 0 \<and> h' = h) \<or>
    (\<exists>s. run_free h s (needed_blocks h sz) \<and> p = block_addr h s \<and> p \<noteq> 0 \<and>
         h' = take_run h s (needed_blocks h sz))"
  using assms(1,2)
proof (cases rule: alloc_cases)
  case (grant s)
  then show ?thesis using assms(3) block_addr_nonzero [OF assms(1), of s] by (auto simp: run_free_def)
qed (use assms(3) in simp_all)

lemma alloc_aligned_grantD:
  assumes "heap_inv h" and "size_ok h sz" and "alloc_aligned h sz a = Inr (p, h')"
  shows "(p = 0 \<and> h' = h) \<or>
    (\<exists>s. run_free h s (needed_blocks h sz) \<and> p = block_addr h s \<and> p \<noteq> 0 \<and>
         h' = take_run h s (needed_blocks h sz))"
proof (cases "(if a = 0 then 1 else a) AND ((if a = 0 then 1 else a) - 1) = 0")
  case False
  then have "alloc_aligned h sz a = Inr (0, h)"
    using assms(2) by (auto simp: alloc_aligned_def Let_def split: if_splits)
  with assms(3) show ?thesis by simp
next
  case True
  then obtain k where k: "k < 64" "(if a = 0 then 1 else a) = 2 ^ k" by (rule power_two_alignment)
  have "alloc_aligned h sz a = alloc_aligned h sz (2 ^ k)"
    using k linorder_not_le [THEN iffD2, OF k(1)] by (auto simp: alloc_aligned_def split: if_splits)
  then have eq: "alloc_aligned h sz (2 ^ k) = Inr (p, h')" using assms(3) by simp
  note outcome = alloc_aligned_eq [OF assms(1,2) k(1)]
  show ?thesis
  proof (cases "length (blocks h) < needed_blocks h sz \<or> first_aligned h (2 ^ k) (needed_blocks h sz) 0 = None")
    case True
    then have "alloc_aligned h sz (2 ^ k) = Inr (0, h)"
      using outcome by (elim disjE) (simp_all (no_asm_simp))
    then show ?thesis using eq by simp
  next
    case False
    then obtain s where s: "first_aligned h (2 ^ k) (needed_blocks h sz) 0 = Some s"
      and le: "needed_blocks h sz \<le> length (blocks h)" by auto
    note f = first_aligned_Some [OF s le]
    have "block_addr h s \<noteq> 0" using f(1) by (intro block_addr_nonzero [OF assms(1)]) simp
    moreover have "p = block_addr h s \<and> h' = take_run h s (needed_blocks h sz)"
      using outcome eq s le by simp
    ultimately show ?thesis using f by (auto simp: run_free_def)
  qed
qed

section \<open>Undoing a grant\<close>

lemma clear_take:
  assumes "heap_inv h" and "run_free h s n"
  shows "clear_run (take_run h s n) s (s + n) = h"
proof -
  have "fill (fill (blocks h) s (s + n) (run_entry s n)) s (s + n) free_entry = blocks h"
  proof (rule nth_equalityI)
    fix k assume "k < length (fill (fill (blocks h) s (s + n) (run_entry s n)) s (s + n) free_entry)"
    then have k: "k < length (blocks h)" by simp
    show "fill (fill (blocks h) s (s + n) (run_entry s n)) s (s + n) free_entry ! k = blocks h ! k"
    proof (cases "s \<le> k \<and> k < s + n")
      case True
      then have "\<not> taken (blocks h) k" using assms(2) by (auto simp: run_free_def blocked_iff)
      then have "blocks h ! k = free_entry" by (rule entry_free [OF heap_invD(3) [OF assms(1)] k])
      then show ?thesis using True k by (simp add: nth_fill)
    next
      case False
      then show ?thesis using k by (auto simp: nth_fill)
    qed
  qed simp
  then show ?thesis by (simp add: clear_run_def take_run_def)
qed

lemma free_take:
  assumes "heap_inv h" and "run_free h s n" and "0 < n"
  shows "free (take_run h s n) (block_addr h s) = Inr h"
proof -
  let ?h = "take_run h s n"
  have inv: "heap_inv ?h" using assms(1,2) by (rule heap_inv_take)
  have len: "s + n \<le> length (blocks h)" using assms(2) by (simp add: run_free_def)
  have "free ?h (block_addr ?h s + word_of_nat 0) =
      Inr (clear_run ?h s (unat (end_block (blocks ?h ! s))))"
    using len assms(3) heap_invD(1) [OF inv] by (intro free_eq [OF inv]) auto
  moreover have "blocks ?h ! s = run_entry s n" using len assms(3) by (simp add: nth_fill)
  moreover have "s + n < 2 ^ 32" using len heap_invD(2) [OF assms(1)] by simp
  ultimately show ?thesis
    by (simp add: run_entry_simps clear_take [OF assms(1,2)]) (simp add: block_addr_def)
qed

section \<open>The abstract view: a set of live runs\<close>

definition live :: "heap \<Rightarrow> (nat \<times> nat) set" where
  "live h = set (map (\<lambda>k. (unat (start_block (blocks h ! k)), unat (end_block (blocks h ! k))))
                   (filter (taken (blocks h)) [0..<length (blocks h)]))"

lemma live_iff:
  "(s, e) \<in> live h \<longleftrightarrow> (\<exists>k. taken (blocks h) k \<and> s = unat (start_block (blocks h ! k)) \<and>
                                e = unat (end_block (blocks h ! k)))"
  by (auto simp: live_def taken_def)

text \<open>The blocks of a live run are exactly the ones that carry its bounds.\<close>

lemma live_blocks:
  assumes "heap_inv h" and "(s, e) \<in> live h" and "s \<le> j" and "j < e"
  shows "taken (blocks h) j \<and> unat (start_block (blocks h ! j)) = s \<and> unat (end_block (blocks h ! j)) = e"
proof -
  obtain k where k: "taken (blocks h) k" "s = unat (start_block (blocks h ! k))"
    "e = unat (end_block (blocks h ! k))"
    using assms(2) by (auto simp: live_iff)
  note t = entry_taken [OF heap_invD(3) [OF assms(1)] k(1)]
  have "blocks h ! j = blocks h ! k" using assms(3,4) k by (intro t(4)) auto
  moreover have "j < length (blocks h)" using t(3) assms(4) k by simp
  ultimately show ?thesis using k by (simp add: taken_def)
qed

lemma live_bounds:
  assumes "heap_inv h" and "(s, e) \<in> live h"
  shows "s < e" and "e \<le> length (blocks h)"
proof -
  obtain k where k: "taken (blocks h) k" "s = unat (start_block (blocks h ! k))"
    "e = unat (end_block (blocks h ! k))"
    using assms(2) by (auto simp: live_iff)
  show "s < e" "e \<le> length (blocks h)"
    using entry_taken(1-3) [OF heap_invD(3) [OF assms(1)] k(1)] k by auto
qed

lemma live_disjoint:
  assumes "heap_inv h" and "(s, e) \<in> live h" and "(t, f) \<in> live h" and "(s, e) \<noteq> (t, f)"
  shows "e \<le> t \<or> f \<le> s"
proof (rule ccontr)
  assume "\<not> (e \<le> t \<or> f \<le> s)"
  then have "s \<le> max s t" "max s t < e" "t \<le> max s t" "max s t < f"
    using live_bounds(1) [OF assms(1,2)] live_bounds(1) [OF assms(1,3)] by auto
  then show False
    using live_blocks [OF assms(1,2)] live_blocks [OF assms(1,3)] assms(4) by (metis prod.inject)
qed

lemma taken_take:
  "s + n \<le> length (blocks h) \<Longrightarrow>
     taken (blocks (take_run h s n)) k \<longleftrightarrow> (s \<le> k \<and> k < s + n) \<or> taken (blocks h) k"
  by (auto simp: taken_def nth_fill run_entry_def split: if_splits)

lemma live_take:
  assumes "heap_inv h" and "run_free h s n" and "0 < n"
  shows "live (take_run h s n) = insert (s, s + n) (live h)"
proof -
  have len: "s + n \<le> length (blocks h)" using assms(2) by (simp add: run_free_def)
  have sn: "s + n < 2 ^ 32" using len heap_invD(2) [OF assms(1)] by simp
  have old: "\<not> (s \<le> k \<and> k < s + n)" if "taken (blocks h) k" for k
    using assms(2) that by (auto simp: run_free_def blocked_iff)
  have in_run: "blocks (take_run h s n) ! k = run_entry s n" if "s \<le> k" "k < s + n" for k
    using that len by (simp add: nth_fill)
  have out_run: "blocks (take_run h s n) ! k = blocks h ! k" if "taken (blocks h) k" for k
    using that old [OF that] by (auto simp: nth_fill taken_def)
  have "(t, e) \<in> live (take_run h s n) \<longleftrightarrow> (t, e) \<in> insert (s, s + n) (live h)" for t e
  proof
    assume "(t, e) \<in> live (take_run h s n)"
    then obtain k where k: "taken (blocks (take_run h s n)) k"
      "t = unat (start_block (blocks (take_run h s n) ! k))"
      "e = unat (end_block (blocks (take_run h s n) ! k))"
      by (auto simp: live_iff)
    from k(1) consider "s \<le> k" "k < s + n" | "taken (blocks h) k" using taken_take [OF len] by blast
    then show "(t, e) \<in> insert (s, s + n) (live h)"
    proof cases
      case 1
      then show ?thesis using in_run [OF 1] k(2,3) by (simp add: run_entry_simps [OF sn])
    next
      case 2
      then show ?thesis using out_run [OF 2] k(2,3) by (auto simp: live_iff)
    qed
  next
    assume te: "(t, e) \<in> insert (s, s + n) (live h)"
    show "(t, e) \<in> live (take_run h s n)"
    proof (cases "(t, e) \<in> live h")
      case True
      then obtain k where k: "taken (blocks h) k" "t = unat (start_block (blocks h ! k))"
        "e = unat (end_block (blocks h ! k))" by (auto simp: live_iff)
      then show ?thesis
        using out_run [OF k(1)] taken_take [OF len, of k] unfolding live_iff by metis
    next
      case False
      with te have "t = s" "e = s + n" by auto
      then show ?thesis
        using in_run [of s] taken_take [OF len, of s] assms(3) run_entry_simps [OF sn]
        unfolding live_iff by (intro exI [of _ s]) auto
    qed
  qed
  then show ?thesis by auto
qed

lemma live_clear:
  assumes "heap_inv h" and se: "(s, e) \<in> live h"
  shows "live (clear_run h s e) = live h - {(s, e)}" and "heap_inv (clear_run h s e)"
proof -
  note b = live_bounds [OF assms]
  have tk: "taken (blocks (clear_run h s e)) k \<longleftrightarrow> taken (blocks h) k \<and> \<not> (s \<le> k \<and> k < e)" for k
    by (auto simp: taken_def nth_fill free_entry_def split: if_splits)
  have out: "blocks (clear_run h s e) ! k = blocks h ! k" if "taken (blocks h) k" "\<not> (s \<le> k \<and> k < e)" for k
    using that by (auto simp: nth_fill taken_def)
  have "(t, f) \<in> live (clear_run h s e) \<longleftrightarrow> (t, f) \<in> live h \<and> (t, f) \<noteq> (s, e)" for t f
  proof
    assume "(t, f) \<in> live (clear_run h s e)"
    then obtain k where k: "taken (blocks h) k" "\<not> (s \<le> k \<and> k < e)"
      "t = unat (start_block (blocks h ! k))" "f = unat (end_block (blocks h ! k))"
      using out tk by (auto simp: live_iff)
    then show "(t, f) \<in> live h \<and> (t, f) \<noteq> (s, e)"
      using entry_taken(1,2) [OF heap_invD(3) [OF assms(1)] k(1)] by (auto simp: live_iff)
  next
    assume "(t, f) \<in> live h \<and> (t, f) \<noteq> (s, e)"
    then obtain k where k: "taken (blocks h) k" "t = unat (start_block (blocks h ! k))"
      "f = unat (end_block (blocks h ! k))" "(t, f) \<noteq> (s, e)" by (auto simp: live_iff)
    then have "\<not> (s \<le> k \<and> k < e)" using live_blocks [OF assms] by blast
    then show "(t, f) \<in> live (clear_run h s e)"
      using k out [OF k(1)] tk unfolding live_iff by metis
  qed
  then show "live (clear_run h s e) = live h - {(s, e)}" by auto
  have "taken (blocks h) s \<and> unat (start_block (blocks h ! s)) = s \<and> unat (end_block (blocks h ! s)) = e"
    using b by (intro live_blocks [OF assms]) auto
  then have "table_inv (fill (blocks h) s e free_entry)"
    using table_inv_clear [OF heap_invD(3) [OF assms(1)]] by metis
  then show "heap_inv (clear_run h s e)" by (intro heap_inv_table [OF assms(1)]) simp_all
qed

lemma free_live:
  assumes "heap_inv h" and "(s, e) \<in> live h"
  shows "free h (block_addr h s) = Inr (clear_run h s e)"
proof -
  note b = live_bounds [OF assms]
  have "unat (end_block (blocks h ! s)) = e" using live_blocks [OF assms, of s] b by simp
  then show ?thesis
    using free_eq [OF assms(1), of s 0] b heap_invD(1) [OF assms(1)] by simp
qed

section \<open>The allocator as a memory provider\<close>

definition heap_used :: "heap \<Rightarrow> nat set" where
  "heap_used h = {a. unat (start_addr h) \<le> a \<and> taken (blocks h) ((a - unat (start_addr h)) div bsz h)}"

lemma extent_blocks:
  assumes "heap_inv h" and "s \<le> length (blocks h)" and "a \<in> extent (block_addr h s) sz"
  shows "unat (start_addr h) \<le> a" and "s \<le> (a - unat (start_addr h)) div bsz h"
    and "(a - unat (start_addr h)) div bsz h < s + needed_blocks h sz"
proof -
  let ?b = "bsz h" and ?n = "needed_blocks h sz"
  have b: "1 < ?b" using heap_invD(1) [OF assms(1)] .
  note addr = block_addr_nat(1) [OF assms(1,2)]
  have lo: "unat (start_addr h) + s * ?b \<le> a" and hi: "a < unat (start_addr h) + s * ?b + unat sz"
    using assms(3) by (auto simp: extent_def addr)
  show "unat (start_addr h) \<le> a" using lo by simp
  have "s * ?b div ?b \<le> (a - unat (start_addr h)) div ?b" using lo by (intro div_le_mono) simp
  then show "s \<le> (a - unat (start_addr h)) div ?b" using b by simp
  have "unat sz \<le> ?n * ?b" unfolding needed_blocks_def using b by (intro ceil_mult_bounds) simp
  then have "a - unat (start_addr h) < (s + ?n) * ?b" using lo hi by (simp add: algebra_simps)
  then show "(a - unat (start_addr h)) div ?b < s + ?n" by (rule less_mult_imp_div_less)
qed

lemma run_block:
  assumes "heap_inv h" and "run_free h s (needed_blocks h sz)" and "a \<in> extent (block_addr h s) sz"
  shows "unat (start_addr h) \<le> a" and "s \<le> (a - unat (start_addr h)) div bsz h"
    and "(a - unat (start_addr h)) div bsz h < s + needed_blocks h sz"
proof -
  have "s \<le> length (blocks h)" using assms(2) by (simp add: run_free_def)
  note b = extent_blocks [OF assms(1) this assms(3)]
  show "unat (start_addr h) \<le> a" "s \<le> (a - unat (start_addr h)) div bsz h"
    "(a - unat (start_addr h)) div bsz h < s + needed_blocks h sz" by (fact b)+
qed

lemma grant_fresh:
  assumes "heap_inv h" and "run_free h s (needed_blocks h sz)"
  shows "extent (block_addr h s) sz \<inter> heap_used h = {}"
  using run_block [OF assms] assms(2) by (fastforce simp: heap_used_def run_free_def blocked_iff)

lemma grant_used:
  assumes "heap_inv h" and "run_free h s (needed_blocks h sz)"
  shows "heap_used h \<union> extent (block_addr h s) sz \<subseteq> heap_used (take_run h s (needed_blocks h sz))"
proof -
  have "s + needed_blocks h sz \<le> length (blocks h)" using assms(2) by (simp add: run_free_def)
  then show ?thesis
    using run_block [OF assms] by (auto simp: heap_used_def taken_take [simplified])
qed

lemma needed_blocks_take [simp]: "needed_blocks (take_run h s n) = needed_blocks h"
  by (rule ext) (simp add: needed_blocks_def)

text \<open>Both allocation routines provide memory, for any alignment argument, and
  \<^verbatim>\<open>free\<close> undoes either.\<close>

interpretation block_alloc: reclaiming_provider heap_inv heap_used "\<lambda>h sz. size_ok h sz" alloc free
proof
  fix h sz p h' assume h: "heap_inv h" "size_ok h sz" and a: "alloc h sz = Inr (p, h')"
  note grant = alloc_grantD [OF h a]
  show "heap_inv h'" using grant heap_inv_take [OF h(1)] h(1) by auto
  show "(\<lambda>sz. size_ok h' sz) = (\<lambda>sz. size_ok h sz)" using grant by auto
  assume p: "p \<noteq> 0"
  show "extent p sz \<inter> heap_used h = {}" using grant p grant_fresh [OF h(1)] by auto
  show "heap_used h \<union> extent p sz \<subseteq> heap_used h'" using grant p grant_used [OF h(1)] by blast
  show "free h' p = Inr h" using grant p free_take [OF h(1) _ needed_nat(2) [OF h]] by auto
next
  fix h sz h' assume "heap_inv h" "size_ok h sz" "alloc h sz = Inr (0, h')"
  then show "h' = h" using alloc_grantD by blast
qed

interpretation aligned_alloc:
  reclaiming_provider heap_inv heap_used "\<lambda>h sz. size_ok h sz" "\<lambda>h sz. alloc_aligned h sz a" free for a
proof
  fix h sz p h' assume h: "heap_inv h" "size_ok h sz" and al: "alloc_aligned h sz a = Inr (p, h')"
  note grant = alloc_aligned_grantD [OF h al]
  show "heap_inv h'" using grant heap_inv_take [OF h(1)] h(1) by auto
  show "(\<lambda>sz. size_ok h' sz) = (\<lambda>sz. size_ok h sz)" using grant by auto
  assume p: "p \<noteq> 0"
  show "extent p sz \<inter> heap_used h = {}" using grant p grant_fresh [OF h(1)] by auto
  show "heap_used h \<union> extent p sz \<subseteq> heap_used h'" using grant p grant_used [OF h(1)] by blast
  show "free h' p = Inr h" using grant p free_take [OF h(1) _ needed_nat(2) [OF h]] by auto
next
  fix h sz h' assume "heap_inv h" "size_ok h sz" "alloc_aligned h sz a = Inr (0, h')"
  then show "h' = h" using alloc_aligned_grantD by blast
qed

section \<open>Properties\<close>

text \<open>A heap of four blocks of 512 bytes at address 4096, its first two blocks taken by one run,
  on which the witnesses below are evaluated.\<close>

definition heap4 :: heap where
  "heap4 = \<lparr>block_size = 512, start_addr = 4096, max_size = 2048,
            blocks = [\<lparr>isAllocated = True, start_block = 0, end_block = 2\<rparr>,
                      \<lparr>isAllocated = True, start_block = 0, end_block = 2\<rparr>,
                      \<lparr>isAllocated = False, start_block = 0, end_block = 0\<rparr>,
                      \<lparr>isAllocated = False, start_block = 0, end_block = 0\<rparr>]\<rparr>"

lemma heap4_inv: "heap_inv heap4"
  by (simp add: heap4_def heap_inv_def table_inv_def entry_ok_def free_entry_def upt_rec list_all_iff)

lemmas heap4_eval = heap4_def needed_blocks_def run_free_def blocked_def taken_def upt_rec

text \<open>
  C1. First fit. If some run of the blocks a request needs is free, \<^verbatim>\<open>alloc\<close>
  succeeds: it returns the address of the lowest such run and marks exactly that run.
\<close>

theorem alloc_first_fit:
  assumes "heap_inv h" and "size_ok h sz" and "run_free h s (needed_blocks h sz)"
  shows "\<exists>t \<le> s. run_free h t (needed_blocks h sz) \<and> (\<forall>u<t. \<not> run_free h u (needed_blocks h sz)) \<and>
           alloc h sz = Inr (block_addr h t, take_run h t (needed_blocks h sz))"
  using assms by (rule alloc_lowest)

theorem alloc_first_fit_witness:
  "\<exists>t\<le>2. run_free heap4 t (needed_blocks heap4 600) \<and>
     (\<forall>u<t. \<not> run_free heap4 u (needed_blocks heap4 600)) \<and>
     alloc heap4 600 = Inr (block_addr heap4 t, take_run heap4 t (needed_blocks heap4 600))"
proof (rule alloc_first_fit [OF heap4_inv])
  show "size_ok heap4 600" by (simp add: heap4_def)
  show "run_free heap4 2 (needed_blocks heap4 600)" by (simp add: heap4_eval)
qed

text \<open>
  C2. When no free run is large enough, the outcome depends on the last block only:
  if it is taken \<^verbatim>\<open>alloc\<close> returns the null pointer and changes nothing; if it is
  free the search follows the trailing free blocks past the end of the block table.
\<close>

theorem alloc_no_fit:
  assumes "heap_inv h" and "size_ok h sz" and "\<And>s. \<not> run_free h s (needed_blocks h sz)"
  shows "alloc h sz = (if blocks h \<noteq> [] \<and> \<not> isAllocated (last (blocks h)) then Inl OutOfBounds
                       else Inr (0, h))"
  using assms(1,2)
proof (cases rule: alloc_cases)
  case (grant t)
  with assms(3) show ?thesis by blast
next
  case refuse
  have "isAllocated (last (blocks h))" if ne: "blocks h \<noteq> []"
  proof -
    obtain j where "length (blocks h) - 1 \<le> j" and "taken (blocks h) j"
      using refuse(1) [of "length (blocks h) - 1"] ne by (auto simp: blocked_iff)
    moreover from this have "j = length (blocks h) - 1" by (auto simp: taken_def)
    ultimately show ?thesis using ne by (simp add: taken_def last_conv_nth)
  qed
  with refuse(2) show ?thesis by (cases "blocks h = []") simp_all
next
  case (outside t)
  have "\<not> taken (blocks h) (length (blocks h) - 1)"
    using outside(1-3) by (auto simp: blocked_iff)
  moreover have "blocks h \<noteq> []" using outside(1) by auto
  ultimately have "\<not> isAllocated (last (blocks h))" by (simp add: taken_def last_conv_nth)
  with outside(1,5) show ?thesis by auto
qed

theorem alloc_no_fit_witness: "alloc heap4 1536 = Inl OutOfBounds"
proof -
  have "\<not> run_free heap4 s (needed_blocks heap4 1536)" for s
  proof
    assume r: "run_free heap4 s (needed_blocks heap4 1536)"
    have "needed_blocks heap4 1536 = 3" by (simp add: heap4_eval)
    moreover have "length (blocks heap4) = 4" by (simp add: heap4_def)
    ultimately have "s \<le> 1" and "\<not> blocked (blocks heap4) 3 s" using r by (auto simp: run_free_def)
    moreover have "taken (blocks heap4) 1" by (simp add: heap4_eval)
    ultimately show False by (auto simp: blocked_iff)
  qed
  moreover have "size_ok heap4 1536" by (simp add: heap4_def)
  ultimately have "alloc heap4 1536 = (if blocks heap4 \<noteq> [] \<and> \<not> isAllocated (last (blocks heap4))
      then Inl OutOfBounds else Inr (0, heap4))"
    by (intro alloc_no_fit [OF heap4_inv])
  then show ?thesis by (simp add: heap4_def free_entry_def)
qed

text \<open>
  C3. A grant refines the abstract allocator: the invariant is kept, the live runs are the old
  ones and one new run of the blocks needed, which overlaps none of them, and the address returned
  is that run's.
\<close>

theorem alloc_refines:
  assumes "heap_inv h" and "size_ok h sz" and "alloc h sz = Inr (p, h')" and "p \<noteq> 0"
  shows "heap_inv h' \<and>
    (\<exists>s. p = block_addr h s \<and> live h' = insert (s, s + needed_blocks h sz) (live h) \<and>
         (\<forall>(t, e) \<in> live h. e \<le> s \<or> s + needed_blocks h sz \<le> t))"
proof -
  note n0 = needed_nat(2) [OF assms(1,2)]
  obtain s where s: "run_free h s (needed_blocks h sz)" "p = block_addr h s"
    "h' = take_run h s (needed_blocks h sz)"
    using alloc_grantD [OF assms(1-3)] assms(4) by blast
  have inv': "heap_inv h'" using heap_inv_take [OF assms(1) s(1)] s(3) by simp
  have live': "live h' = insert (s, s + needed_blocks h sz) (live h)"
    using live_take [OF assms(1) s(1) n0] s(3) by simp
  have "e \<le> s \<or> s + needed_blocks h sz \<le> t" if te: "(t, e) \<in> live h" for t e
  proof -
    have "(t, e) \<noteq> (s, s + needed_blocks h sz)"
    proof
      assume "(t, e) = (s, s + needed_blocks h sz)"
      then have "taken (blocks h) s" using live_blocks [OF assms(1) te, of s] n0 by simp
      then show False using s(1) n0 by (auto simp: run_free_def blocked_iff)
    qed
    then show ?thesis using live_disjoint [OF inv', of t e s] te live' by blast
  qed
  then show ?thesis using inv' s(2) live' by blast
qed

theorem alloc_refines_witness:
  "\<exists>h'. alloc heap4 600 = Inr (5120, h') \<and> heap_inv h' \<and>
     (\<exists>s. 5120 = block_addr heap4 s \<and> live h' = insert (s, s + needed_blocks heap4 600) (live heap4) \<and>
         (\<forall>(t, e) \<in> live heap4. e \<le> s \<or> s + needed_blocks heap4 600 \<le> t))"
proof -
  have "\<exists>h'. alloc heap4 600 = Inr (5120, h')" by (rule exI, code_simp)
  then obtain h' where a: "alloc heap4 600 = Inr (5120, h')" by blast
  have "size_ok heap4 600" by (simp add: heap4_def)
  from alloc_refines [OF heap4_inv this a] a show ?thesis by (intro exI [of _ h']) simp
qed

text \<open>
  C4. \<^verbatim>\<open>alloc_aligned\<close> with a power-of-two alignment always ends, never leaves
  the table, returns the lowest free run that starts at an aligned address, and returns the null
  pointer exactly when there is none.
\<close>

theorem alloc_aligned_exact:
  assumes "heap_inv h" and "size_ok h sz" and "k < 64"
  shows "(\<exists>s. run_free h s (needed_blocks h sz) \<and> 2 ^ k dvd unat (block_addr h s) \<and>
            (\<forall>t < s. \<not> (run_free h t (needed_blocks h sz) \<and> 2 ^ k dvd unat (block_addr h t))) \<and>
            alloc_aligned h sz (2 ^ k) = Inr (block_addr h s, take_run h s (needed_blocks h sz)))
       \<or> ((\<forall>s. \<not> (run_free h s (needed_blocks h sz) \<and> 2 ^ k dvd unat (block_addr h s))) \<and>
          alloc_aligned h sz (2 ^ k) = Inr (0, h))"
proof -
  let ?n = "needed_blocks h sz"
  note eq = alloc_aligned_eq [OF assms]
  have al: "2 ^ k dvd unat (block_addr h t) \<longleftrightarrow> start_aligned h (2 ^ k) t" if "t \<le> length (blocks h)" for t
    using block_addr_nat(1) [OF assms(1) that] by (simp add: start_aligned_def)
  consider (large) "length (blocks h) < ?n"
    | (found) s where "?n \<le> length (blocks h)" "first_aligned h (2 ^ k) ?n 0 = Some s"
    | (none) "?n \<le> length (blocks h)" "first_aligned h (2 ^ k) ?n 0 = None"
    by (meson not_le option.exhaust)
  then show ?thesis
  proof cases
    case large
    then show ?thesis using eq by (intro disjI2) (auto simp: run_free_def)
  next
    case found
    note f = first_aligned_Some [OF found(2,1)]
    have "run_free h s ?n" using f by (simp add: run_free_def)
    moreover have "2 ^ k dvd unat (block_addr h s)" using f al [of s] by simp
    moreover have "\<not> (run_free h t ?n \<and> 2 ^ k dvd unat (block_addr h t))" if "t < s" for t
      using f(4) [OF that] al [of t] that f(1) by (auto simp: run_free_def)
    moreover have "alloc_aligned h sz (2 ^ k) = Inr (block_addr h s, take_run h s ?n)"
      using eq found by simp
    ultimately show ?thesis by blast
  next
    case none
    have "\<not> (run_free h s ?n \<and> 2 ^ k dvd unat (block_addr h s))" for s
      using first_aligned_None [OF none(2), of s] al [of s] by (auto simp: run_free_def)
    moreover have "alloc_aligned h sz (2 ^ k) = Inr (0, h)" using eq none by simp
    ultimately show ?thesis by blast
  qed
qed

theorem alloc_aligned_exact_witness:
  "(\<exists>s. run_free heap4 s (needed_blocks heap4 512) \<and> 2 ^ 10 dvd unat (block_addr heap4 s) \<and>
      (\<forall>t < s. \<not> (run_free heap4 t (needed_blocks heap4 512) \<and> 2 ^ 10 dvd unat (block_addr heap4 t))) \<and>
      alloc_aligned heap4 512 (2 ^ 10) =
        Inr (block_addr heap4 s, take_run heap4 s (needed_blocks heap4 512)))
   \<or> ((\<forall>s. \<not> (run_free heap4 s (needed_blocks heap4 512) \<and> 2 ^ 10 dvd unat (block_addr heap4 s))) \<and>
      alloc_aligned heap4 512 (2 ^ 10) = Inr (0, heap4))"
  by (rule alloc_aligned_exact [OF heap4_inv]) (simp_all add: heap4_def)

text \<open>
  C5. \<^verbatim>\<open>free\<close> of the address of a live run removes exactly that run and keeps the
  invariant; freeing the same address again changes nothing.
\<close>

theorem free_removes_run:
  assumes "heap_inv h" and "(s, e) \<in> live h"
  shows "\<exists>h'. free h (block_addr h s) = Inr h' \<and> heap_inv h' \<and> live h' = live h - {(s, e)} \<and>
           free h' (block_addr h s) = Inr h'"
proof -
  note c = live_clear [OF assms] and b = live_bounds [OF assms]
  let ?h = "clear_run h s e"
  have "blocks ?h ! s = free_entry" using b by (simp add: nth_fill)
  moreover have "block_addr ?h s = block_addr h s" by (simp add: block_addr_def)
  ultimately have "free ?h (block_addr h s) = Inr (clear_run ?h s 0)"
    using free_eq [OF c(2), of s 0] b heap_invD(1) [OF assms(1)] by (simp add: free_entry_def)
  moreover have "clear_run ?h s 0 = ?h" by (simp add: clear_run_def fill_empty)
  ultimately show ?thesis using free_live [OF assms] c by (intro exI [of _ ?h]) simp
qed

theorem free_removes_run_witness:
  "\<exists>h'. free heap4 (block_addr heap4 0) = Inr h' \<and> heap_inv h' \<and> live h' = live heap4 - {(0, 2)} \<and>
     free h' (block_addr heap4 0) = Inr h'"
proof -
  have "(0, 2) \<in> live heap4" by (simp add: heap4_eval live_def)
  then show ?thesis by (rule free_removes_run [OF heap4_inv])
qed

text \<open>
  Round trip: a series of \<^verbatim>\<open>alloc\<close> calls followed by \<^verbatim>\<open>free\<close> of
  what they returned, last first, gives back the very heap it started from.
\<close>

theorem alloc_free_roundtrip:
  assumes "heap_inv h" and "\<And>sz. sz \<in> set szs \<Longrightarrow> size_ok h sz"
    and "request_all alloc h szs = Inr (gs, h')"
  shows "release_all free h' (rev (map fst gs)) = Inr h"
  using assms by (rule block_alloc.release_all_undoes)

theorem alloc_free_roundtrip_witness:
  "\<exists>h'. request_all alloc heap4 [100, 512] = Inr ([(5120, 100), (5632, 512)], h') \<and>
     release_all free h' [5632, 5120] = Inr heap4"
proof -
  have "\<exists>h'. request_all alloc heap4 [100, 512] = Inr ([(5120, 100), (5632, 512)], h')"
    by (rule exI, code_simp)
  then obtain h' where a: "request_all alloc heap4 [100, 512] = Inr ([(5120, 100), (5632, 512)], h')"
    by blast
  have "release_all free h' (rev (map fst [(5120, 100 :: u64), (5632, 512)])) = Inr heap4"
    by (rule alloc_free_roundtrip [OF heap4_inv _ a]) (auto simp: heap4_def)
  with a show ?thesis by auto
qed

section \<open>A size whose rounding wraps\<close>

text \<open>The size \<open>size + block_size - 1\<close> wraps, so the code computes a need of zero blocks.\<close>

abbreviation size_wraps :: "heap \<Rightarrow> u64 \<Rightarrow> bool" where
  "size_wraps h sz \<equiv> 2 ^ 64 \<le> unat sz + bsz h - 1"

definition first_free :: "heap \<Rightarrow> nat option" where
  "first_free h = find (\<lambda>s. \<not> taken (blocks h) s) [0..<length (blocks h)]"

lemma alloc_search_none_needed:
  assumes "heap_inv h" and "unat i \<le> 2 ^ 32"
  shows "alloc_search h 0 i =
    Some (case find (\<lambda>s. \<not> taken (blocks h) s) [unat i..<length (blocks h)] of
            None \<Rightarrow> Inr (- 1) | Some s \<Rightarrow> Inr (word_of_nat s))"
  using assms(2)
proof (induction "length (blocks h) - unat i" arbitrary: i rule: less_induct)
  case less
  let ?bs = "blocks h"
  have inv: "table_inv ?bs" and len: "length ?bs < 2 ^ 32" using assms(1) by (simp_all add: heap_inv_def)
  have guard: "i < total_blocks h \<longleftrightarrow> unat i < length ?bs"
    by (simp only: word_less_nat_alt total_blocks_nat [OF assms(1)])
  show ?case
  proof (cases "unat i < length ?bs")
    case False
    moreover have "\<not> i < total_blocks h" using False guard by blast
    ultimately show ?thesis by (simp add: alloc_search.simps [of h 0 i])
  next
    case True
    note lt = iffD2 [OF guard True]
    have rb: "read_block h i = Inr (?bs ! unat i)" using True by (simp add: read_block_def)
    show ?thesis
    proof (cases "taken ?bs (unat i)")
      case False
      then have "\<not> isAllocated (?bs ! unat i)" using True by (simp add: taken_def)
      moreover have "scan_run h i 0 0 = Inr None" by (simp add: scan_run.simps)
      ultimately show ?thesis
        using True False by (simp add: alloc_search.simps [of h 0 i] lt rb upt_conv_Cons)
    next
      case tk: True
      then have al: "isAllocated (?bs ! unat i)" by (simp add: taken_def)
      let ?e = "ucast (end_block (?bs ! unat i)) :: u64"
      have e: "unat ?e = unat (end_block (?bs ! unat i))" by (rule end_block_nat)
      have ei: "unat i < unat ?e" and el: "unat ?e \<le> length ?bs"
        using entry_taken(2,3) [OF inv tk] by (simp_all only: e)
      have "taken ?bs s" if "unat i \<le> s" "s < unat ?e" for s
        using taken_run_blocked [OF inv tk, of 1 s] that e
        by (auto simp: blocked_iff less_Suc_eq_le dest: le_antisym)
      then have skip: "find (\<lambda>s. \<not> taken ?bs s) [unat i..<length ?bs] =
          find (\<lambda>s. \<not> taken ?bs s) [unat ?e..<length ?bs]"
        using ei by (intro find_upt_skip) auto
      have "alloc_search h 0 ?e =
          Some (case find (\<lambda>s. \<not> taken ?bs s) [unat ?e..<length ?bs] of
                  None \<Rightarrow> Inr (- 1) | Some s \<Rightarrow> Inr (word_of_nat s))"
        using ei el len True by (intro less) auto
      moreover have "i < ?e" using ei by (simp only: word_less_nat_alt)
      ultimately show ?thesis
        by (simp add: alloc_search.simps [of h 0 i] lt rb al skip)
    qed
  qed
qed

lemma needed_wraps:
  assumes "heap_inv h" and "size_wraps h sz"
  shows "(sz + bsize h - 1) div bsize h = 0" and "sz \<noteq> 0"
proof -
  note b = heap_invD [OF assms(1)]
  have sz: "unat sz < 2 ^ 64" by (rule unat_u64_less)
  have b16: "bsz h < 2 ^ 16" using unsigned_less [of "block_size h", where ?'a = nat] by simp
  have "unat (bsize h - 1) = bsz h - 1"
    using unat_minus_one [OF b(4)] by (simp only: bsize_nat)
  then have "unat (sz + (bsize h - 1)) = unat sz + (bsz h - 1) - 2 ^ 64"
    using unat_plus_if' [of sz "bsize h - 1"] assms(2) b(1) by simp
  then have w: "unat (sz + bsize h - 1) = unat sz + (bsz h - 1) - 2 ^ 64" by (simp only: add_diff_eq)
  have "unat ((sz + bsize h - 1) div bsize h) = 0"
    unfolding unat_div_distrib bsize_nat w using sz b(1) by (intro div_less) linarith
  then show "(sz + bsize h - 1) div bsize h = 0" by (simp add: unat_eq_zero)
  show "sz \<noteq> 0" using assms(2) b16 by auto
qed

lemma run_free_one:
  "run_free h s (Suc 0) \<longleftrightarrow> s < length (blocks h) \<and> \<not> taken (blocks h) s"
  by (auto simp: run_free_def blocked_iff less_Suc_eq_le dest: le_antisym)

lemma first_free_Some:
  "first_free h = Some s \<longleftrightarrow> run_free h s 1 \<and> (\<forall>u < s. \<not> run_free h u 1)"
  by (auto simp: first_free_def run_free_one find_Some_iff)

lemma alloc_one:
  assumes "heap_inv h" and "size_ok h sz" and "needed_blocks h sz = 1" and "first_free h = Some s"
  shows "alloc h sz = Inr (block_addr h s, take_run h s 1)"
proof -
  have s: "run_free h s 1" "\<And>t. t < s \<Longrightarrow> \<not> run_free h t 1" using assms(4) by (auto simp: first_free_Some)
  obtain t where "t \<le> s" "run_free h t 1" "alloc h sz = Inr (block_addr h t, take_run h t 1)"
    using alloc_lowest [OF assms(1,2)] s(1) assms(3) by auto
  moreover from this have "t = s" using s(2) [of t] by (cases "t < s") auto
  ultimately show ?thesis by simp
qed

text \<open>
  C7. A size whose rounding wraps needs no block by the code's arithmetic: \<^verbatim>\<open>alloc\<close>
  then returns the address of the first free block, wherever it is in the table, without marking
  anything, and NULL only when every block is taken; so when it grants such a request, the next
  request of one block is granted at the same address.
\<close>

theorem alloc_size_wraps:
  assumes "heap_inv h" and "size_wraps h sz"
  shows "alloc h sz = Inr (case first_free h of None \<Rightarrow> (0, h) | Some s \<Rightarrow> (block_addr h s, h)) \<and>
    (\<forall>s sz'. first_free h = Some s \<and> size_ok h sz' \<and> needed_blocks h sz' = 1 \<longrightarrow>
       alloc h sz' = Inr (block_addr h s, take_run h s 1))"
proof (intro conjI allI impI)
  note n = needed_wraps [OF assms] and b0 = heap_invD(4) [OF assms(1)]
  have search: "alloc_search h 0 0 =
      Some (case first_free h of None \<Rightarrow> Inr (- 1) | Some s \<Rightarrow> Inr (word_of_nat s))"
    using alloc_search_none_needed [OF assms(1), of 0] by (simp add: first_free_def)
  show "alloc h sz = Inr (case first_free h of None \<Rightarrow> (0, h) | Some s \<Rightarrow> (block_addr h s, h))"
  proof (cases "first_free h")
    case None
    with search show ?thesis using n b0 by (simp add: alloc_def Let_def)
  next
    case (Some s)
    then have "s < length (blocks h)" by (simp add: first_free_Some run_free_one)
    then have "s < 2 ^ 64 - 1" using heap_invD(2) [OF assms(1)] by simp
    then have "unat (word_of_nat s :: u64) \<noteq> unat (- 1 :: u64)"
      using unat_of_nat_u64 [of s] by (simp add: unsigned_minus_1_eq_mask mask_eq_exp_minus_1)
    then have "word_of_nat s \<noteq> (- 1 :: u64)" by metis
    moreover have "mark_run (word_of_nat s) 0 h = Inr h" by (simp add: mark_run_def for_u64_r.simps)
    ultimately show ?thesis
      using Some search n b0 by (simp add: alloc_def Let_def block_addr_word)
  qed
qed (blast intro: alloc_one [OF assms(1)])

text \<open>The demonstration heap, whose first free block is block 2: the largest size is granted there
  and the next small request gets the same address.\<close>

theorem alloc_size_wraps_witness:
  "alloc heap4 (- 1) = Inr (5120, heap4) \<and> alloc heap4 100 = Inr (5120, take_run heap4 2 1)"
proof -
  have "unat (- 1 :: u64) = 2 ^ 64 - 1" by (simp add: unsigned_minus_1_eq_mask mask_eq_exp_minus_1)
  then have w: "size_wraps heap4 (- 1)" by (simp add: heap4_def)
  have f: "first_free heap4 = Some 2" by code_simp
  note t = alloc_size_wraps [OF heap4_inv w]
  have "needed_blocks heap4 100 = 1" and "size_ok heap4 100" by (simp_all add: needed_blocks_def heap4_def)
  then have "alloc heap4 100 = Inr (block_addr heap4 2, take_run heap4 2 1)" using t f by blast
  moreover have "block_addr heap4 2 = 5120" by (simp add: block_addr_def heap4_def)
  ultimately show ?thesis using t f by simp
qed

end
