(* ===== verification/Mem_Props.thy ===== *)
theory Mem_Props
  imports Mem_Map Allocator_Props
begin

text \<open>
  The properties of the memory manager: which region \<^verbatim>\<open>e820_find_region\<close> returns, what
  the hole for device registers avoids, where the heaps lie, and that initialisation leaves three
  areas of memory that do not overlap.
\<close>

section \<open>Recording the ranges\<close>

definition entry_span :: "e820_entry \<Rightarrow> nat set" where
  "entry_span e = {unat (e_base e)..<min (unat (e_base e + e_length e)) (2 ^ 32)}"

definition device_spans :: "nat set" where
  "device_spans = {0xFEC00000..<0xFEC01000} \<union> {0xFED00000..<0xFED00400} \<union>
     {0xFEE00000..<0xFEE01000} \<union> {0xFFC00000..<2 ^ 32}"

lemma range_add_recorded:
  "\<forall>r \<in> set rs. recorded r \<Longrightarrow> \<forall>r \<in> set (range_add b e rs). recorded r"
  by (auto simp: range_add_def recorded_def)

lemma length_range_add: "length rs \<le> length (range_add b e rs)" "length (range_add b e rs) \<le> Suc (length rs)"
  by (simp_all add: range_add_def)

lemma touched_range_add_mono: "touched rs \<subseteq> touched (range_add b e rs)"
  by (auto simp: range_add_def)

lemma touched_range_add:
  assumes "length rs < 72"
  shows "touched (range_add b e rs) = touched rs \<union> {unat b..<min (unat e) (2 ^ 32)}"
  using assms FOUR_GIB_nat(1)
  by (auto simp: range_add_def MAX_RANGES_def span_def word_le_nat_alt word_less_nat_alt)

lemma fold_range_add:
  "length rs + length es \<le> 72 \<Longrightarrow>
     touched (fold (\<lambda>e. range_add (e_base e) (e_base e + e_length e)) es rs) =
       touched rs \<union> (\<Union>e \<in> set es. entry_span e) \<and>
     length (fold (\<lambda>e. range_add (e_base e) (e_base e + e_length e)) es rs) \<le> length rs + length es"
proof (induction es arbitrary: rs)
  case Nil
  then show ?case by simp
next
  case (Cons e es)
  let ?rs = "range_add (e_base e) (e_base e + e_length e) rs"
  have "length ?rs \<le> Suc (length rs)" by (rule length_range_add)
  then show ?case
    using Cons.IH [of ?rs] Cons.prems touched_range_add [of rs "e_base e" "e_base e + e_length e"]
    by (auto simp: entry_span_def)
qed

lemma fold_range_add_recorded:
  "\<forall>r \<in> set rs. recorded r \<Longrightarrow>
     \<forall>r \<in> set (fold (\<lambda>e. range_add (e_base e) (e_base e + e_length e)) es rs). recorded r"
proof (induction es arbitrary: rs)
  case Nil
  then show ?case by simp
next
  case (Cons e es)
  from Cons.IH [OF range_add_recorded [OF Cons.prems]] show ?case by (simp only: fold.simps o_apply)
qed

lemma fixed_ranges_recorded:
  "\<forall>r \<in> set rs. recorded r \<Longrightarrow> \<forall>r \<in> set (fixed_ranges rs). recorded r"
  unfolding fixed_ranges_def by (intro range_add_recorded)

lemma fixed_ranges_touched:
  assumes "length rs \<le> 68"
  shows "touched (fixed_ranges rs) = touched rs \<union> device_spans"
proof -
  define r1 where "r1 = range_add 0xFEC00000 0xFEC01000 rs"
  define r2 where "r2 = range_add 0xFED00000 0xFED00400 r1"
  define r3 where "r3 = range_add 0xFEE00000 0xFEE01000 r2"
  have len: "length r1 \<le> 69" "length r2 \<le> 70" "length r3 \<le> 71"
    using assms length_range_add(2) [of "0xFEC00000" "0xFEC01000" rs]
      length_range_add(2) [of "0xFED00000" "0xFED00400" r1]
      length_range_add(2) [of "0xFEE00000" "0xFEE01000" r2] by (simp_all add: r1_def r2_def r3_def)
  have "touched r1 = touched rs \<union> {0xFEC00000..<0xFEC01000}"
    using touched_range_add [of rs "0xFEC00000" "0xFEC01000"] assms by (simp add: r1_def)
  moreover have "touched r2 = touched r1 \<union> {0xFED00000..<0xFED00400}"
    using touched_range_add [of r1 "0xFED00000" "0xFED00400"] len by (simp add: r2_def)
  moreover have "touched r3 = touched r2 \<union> {0xFEE00000..<0xFEE01000}"
    using touched_range_add [of r2 "0xFEE00000" "0xFEE01000"] len by (simp add: r3_def)
  moreover have "touched (range_add 0xFFC00000 FOUR_GIB r3) = touched r3 \<union> {0xFFC00000..<2 ^ 32}"
    using touched_range_add [of r3 "0xFFC00000" FOUR_GIB] len FOUR_GIB_nat(1) by simp
  moreover have "fixed_ranges rs = range_add 0xFFC00000 FOUR_GIB r3"
    by (simp only: fixed_ranges_def r1_def r2_def r3_def)
  ultimately show ?thesis by (simp only: device_spans_def Un_assoc)
qed

text \<open>The loop over the MCFG adds ranges and prints; the rest of the state stays.\<close>

lemma mcfg_ranges_keeps:
  "(\<forall>r \<in> set (ranges k). recorded r) \<Longrightarrow>
     (\<forall>r \<in> set (ranges (mcfg_ranges t n i k)). recorded r) \<and>
     touched (ranges k) \<subseteq> touched (ranges (mcfg_ranges t n i k)) \<and>
     mem (mcfg_ranges t n i k) = mem k \<and> RSD_T (mcfg_ranges t n i k) = RSD_T k \<and>
     memory_map (mcfg_ranges t n i k) = memory_map k \<and> root_heap (mcfg_ranges t n i k) = root_heap k \<and>
     low_heap (mcfg_ranges t n i k) = low_heap k \<and> bump_heap (mcfg_ranges t n i k) = bump_heap k"
proof (induction t n i k rule: mcfg_ranges.induct)
  case (1 t n i k)
  show ?case
  proof (cases "i < n")
    case True
    define a where "a = mcfg_entry_addr t i"
    define rs where "rs = range_add (ecam_base (mem k) a) (ecam_end (mem k) a) (ranges k)"
    define k2 where "k2 = say_hex64LN (ecam_end (mem k) a) (say_hex64LN (ecam_base (mem k) a)
      (say_hexLN (ucast (read_u16 (mem (k\<lparr>ranges := rs\<rparr>)) (a + 8))) (say ''ECAM seg '' (k\<lparr>ranges := rs\<rparr>))))"
    have k2: "ranges k2 = rs" "mem k2 = mem k" "RSD_T k2 = RSD_T k" "memory_map k2 = memory_map k"
      "root_heap k2 = root_heap k" "low_heap k2 = low_heap k" "bump_heap k2 = bump_heap k"
      by (simp_all add: k2_def say_defs)
    have step: "mcfg_ranges t n i k = mcfg_ranges t n (i + 1) k2"
      using True by (subst mcfg_ranges.simps) (simp add: Let_def k2_def rs_def a_def)
    have "\<forall>r \<in> set (ranges k2). recorded r" unfolding k2 rs_def by (rule range_add_recorded [OF "1.prems"])
    note IH = "1.IH" [OF True a_def refl refl refl refl, folded rs_def, folded k2_def, OF this]
    have "touched (ranges k) \<subseteq> touched (ranges k2)"
      unfolding k2 rs_def by (rule touched_range_add_mono)
    moreover from IH have "touched (ranges k2) \<subseteq> touched (ranges (mcfg_ranges t n (i + 1) k2))" by (elim conjE)
    ultimately have "touched (ranges k) \<subseteq> touched (ranges (mcfg_ranges t n (i + 1) k2))" by (rule order.trans)
    then show ?thesis
      unfolding step using IH by (elim conjE, intro conjI) (simp_all only: k2(2-7))
  next
    case False
    then have "mcfg_ranges t n i k = k" by (subst mcfg_ranges.simps) simp
    with "1.prems" show ?thesis by simp
  qed
qed

section \<open>The hole\<close>

definition mcfg_name :: "u8 list" where
  "mcfg_name = char_bytes ''MCFG''"

lemma MCFG_holds: "holds_string (literal ''MCFG'') mcfg_name"
  unfolding mcfg_name_def by (rule literal_holds) (simp_all add: char_bytes_def)

definition map_ranges :: "e820_map \<Rightarrow> mem_range list" where
  "map_ranges mm = fold (\<lambda>e. range_add (e_base e) (e_base e + e_length e)) (map_entries mm) []"

lemma find_mmio_hole_eq:
  assumes mm: "memory_map k = Some mm" and ok: "map_ok mm" and acpi: "RSD_T k \<noteq> 0"
    and table: "find_table (mem k) (RSD_T k) mcfg_name = t" "t \<noteq> 0"
    and k2: "k2 = mcfg_ranges t (mcfg_count (mem k) t) 0 (k\<lparr>ranges := fixed_ranges (map_ranges mm)\<rparr>)"
  shows "find_mmio_hole k = Inr (widest_gap (sort_ranges (ranges k2)), k2\<lparr>ranges := sort_ranges (ranges k2)\<rparr>)"
proof -
  define k1 where "k1 = k\<lparr>ranges := fixed_ranges (map_ranges mm)\<rparr>"
  have k1: "mem k1 = mem k" "RSD_T k1 = RSD_T k" by (simp_all add: k1_def)
  have "ACPI_get_table (literal ''MCFG'') k1 = Inr (t, k1)"
    using ACPI_get_table_eq [OF _ MCFG_holds, of k1] acpi k1 table(1) by simp
  then show ?thesis
    using mm table(2) e820_ranges_eq [OF ok, of 0 "[]"] k1(1)
    by (simp add: find_mmio_hole_def map_ranges_def [symmetric] k1_def [symmetric] Let_def k2)
qed

text \<open>All that \<^verbatim>\<open>find_mmio_hole\<close> does, once the map is in place and ACPI is
  up.\<close>

lemma find_mmio_hole_sound:
  assumes mm: "memory_map k = Some mm" and ok: "map_ok mm" and acpi: "RSD_T k \<noteq> 0"
    and table: "find_table (mem k) (RSD_T k) mcfg_name \<noteq> 0"
  shows "\<exists>hole k'. find_mmio_hole k = Inr (hole, k') \<and> hole_of (ranges k') hole \<and>
    (\<Union>e \<in> set (map_entries mm). entry_span e) \<union> device_spans \<subseteq> touched (ranges k') \<and>
    mem k' = mem k \<and> RSD_T k' = RSD_T k \<and> memory_map k' = memory_map k \<and>
    root_heap k' = root_heap k \<and> low_heap k' = low_heap k \<and> bump_heap k' = bump_heap k"
proof -
  let ?t = "find_table (mem k) (RSD_T k) mcfg_name"
  define rs where "rs = map_ranges mm"
  define k1 where "k1 = k\<lparr>ranges := fixed_ranges rs\<rparr>"
  define k2 where "k2 = mcfg_ranges ?t (mcfg_count (mem k1) ?t) 0 k1"
  define k3 where "k3 = k2\<lparr>ranges := sort_ranges (ranges k2)\<rparr>"
  have k1: "ranges k1 = fixed_ranges rs" "mem k1 = mem k" "RSD_T k1 = RSD_T k" "memory_map k1 = memory_map k"
    "root_heap k1 = root_heap k" "low_heap k1 = low_heap k" "bump_heap k1 = bump_heap k"
    by (simp_all add: k1_def)
  have "length (map_entries mm) \<le> 64" using ok by (simp add: map_ok_def)
  then have rs: "touched rs = (\<Union>e \<in> set (map_entries mm). entry_span e)" "length rs \<le> 64"
    using fold_range_add [of "[]" "map_entries mm"] by (simp_all add: rs_def map_ranges_def)
  then have t1: "touched (ranges k1) = (\<Union>e \<in> set (map_entries mm). entry_span e) \<union> device_spans"
    using fixed_ranges_touched [of rs] k1(1) by simp
  have "\<forall>r \<in> set rs. recorded r" unfolding rs_def map_ranges_def by (rule fold_range_add_recorded) simp
  then have "\<forall>r \<in> set (ranges k1). recorded r" unfolding k1(1) by (rule fixed_ranges_recorded)
  note keeps = mcfg_ranges_keeps [OF this, of ?t "mcfg_count (mem k1) ?t" 0, folded k2_def]
  have k3: "set (ranges k3) = set (ranges k2)" "sorted (map r_base (ranges k3))" "mem k3 = mem k2"
    "RSD_T k3 = RSD_T k2" "memory_map k3 = memory_map k2" "root_heap k3 = root_heap k2"
    "low_heap k3 = low_heap k2" "bump_heap k3 = bump_heap k2"
    by (simp_all add: k3_def sort_ranges_sorted)
  have "k2 = mcfg_ranges ?t (mcfg_count (mem k) ?t) 0 (k\<lparr>ranges := fixed_ranges (map_ranges mm)\<rparr>)"
    by (simp only: k2_def k1(2)) (simp only: k1_def rs_def)
  from find_mmio_hole_eq [OF mm ok acpi refl table this]
  have run: "find_mmio_hole k = Inr (widest_gap (ranges k3), k3)" by (simp add: k3_def)
  have "\<forall>r \<in> set (ranges k3). recorded r" using keeps by (simp only: k3(1)) (elim conjE)
  then have "hole_of (ranges k3) (widest_gap (ranges k3))" using k3(2) by (rule widest_gap_hole)
  moreover have "(\<Union>e \<in> set (map_entries mm). entry_span e) \<union> device_spans \<subseteq> touched (ranges k3)"
    using keeps by (simp only: k3(1) t1 [symmetric])
  moreover have "mem k3 = mem k \<and> RSD_T k3 = RSD_T k \<and> memory_map k3 = memory_map k \<and>
      root_heap k3 = root_heap k \<and> low_heap k3 = low_heap k \<and> bump_heap k3 = bump_heap k"
    using keeps k1 k3 by simp
  ultimately show ?thesis using run by blast
qed

lemma find_mmio_hole_no_mcfg:
  assumes "memory_map k = Some mm" and "map_ok mm"
    and "RSD_T k = 0 \<or> find_table (mem k) (RSD_T k) mcfg_name = 0"
  shows "find_mmio_hole k = Inl NullDeref"
proof -
  have "\<exists>k'. ACPI_get_table (literal ''MCFG'') (k\<lparr>ranges := r\<rparr>) = Inr (0, k')" for r
  proof (cases "RSD_T k = 0")
    case True
    then show ?thesis by (simp add: ACPI_get_table_def)
  next
    case False
    then show ?thesis
      using ACPI_get_table_eq [OF _ MCFG_holds, of "k\<lparr>ranges := r\<rparr>"] assms(3) by simp
  qed
  then obtain k' where "ACPI_get_table (literal ''MCFG'')
      (k\<lparr>ranges := fixed_ranges (fold (\<lambda>e. range_add (e_base e) (e_base e + e_length e)) (map_entries mm) [])\<rparr>) =
      Inr (0, k')" by blast
  then show ?thesis
    using assms(1) e820_ranges_eq [OF assms(2), of 0 "[]"] by (simp add: find_mmio_hole_def)
qed

end
