(* ===== verification/Mem_Layout.thy ===== *)
theory Mem_Layout
  imports Mem_Props
begin

text \<open>
  Where the heaps lie. A heap structure at an address, its block table behind it and the blocks on the
  next page boundary form a footprint; initialisation places the footprints of the root heap and of
  the low heap and the hole for device registers without overlap.
\<close>

section \<open>A fresh heap\<close>

definition footprint :: "u64 \<Rightarrow> heap \<Rightarrow> nat set" where
  "footprint base h = {unat base..<unat (start_addr h) + unat (max_size h)}"

lemma table_inv_fresh: "table_inv (replicate n free_entry)"
  by (simp add: table_inv_def list_all_iff entry_ok_def free_entry_def)

lemma fresh_heap:
  assumes t: "unat t = unat base + 32 + 12 * n" and n: "n = unat M div 512" "n < 2 ^ 32"
    and room: "unat base + 32 + 12 * n + 4095 + unat M \<le> 2 ^ 63"
    and h: "h = \<lparr>block_size = 512, start_addr = align_up t 0x1000, max_size = M,
                  blocks = replicate n free_entry\<rparr>"
  shows "heap_inv h" and "unat base + 32 + 12 * n \<le> unat (start_addr h)"
    and "unat (start_addr h) + unat M \<le> unat base + 32 + 12 * n + 4095 + unat M"
    and "2 ^ 12 dvd unat (start_addr h)"
proof -
  have "unat (align_up t (2 ^ 12)) = (unat t + 2 ^ 12 - 1) div 2 ^ 12 * 2 ^ 12"
    using t room by (intro unat_align_up) simp_all
  then have sa: "unat (start_addr h) = ceil_to (2 ^ 12) (unat t)" by (simp add: h ceil_to_def)
  note b = ceil_to_bounds [of "2 ^ 12" "unat t", folded sa]
  show lo: "unat base + 32 + 12 * n \<le> unat (start_addr h)" using b(1) t by simp
  show hi: "unat (start_addr h) + unat M \<le> unat base + 32 + 12 * n + 4095 + unat M" using b(2) t by simp
  show al: "2 ^ 12 dvd unat (start_addr h)" using b(3) by simp
  have "512 \<le> unat (start_addr h)"
  proof -
    have "0 < unat (start_addr h)" using lo by simp
    then have "2 ^ 12 \<le> unat (start_addr h)" using al by (rule dvd_imp_le [rotated])
    then show ?thesis by simp
  qed
  then show "heap_inv h"
    using n hi room by (simp add: heap_inv_def h table_inv_fresh)
qed

text \<open>The first requests of a fresh heap are served from its first blocks.\<close>

lemma fresh_alloc:
  assumes "heap_inv h" and "blocks h = replicate n free_entry" and "size_ok h sz" and "needed_blocks h sz \<le> n"
  shows "alloc h sz = Inr (block_addr h 0, take_run h 0 (needed_blocks h sz))"
    and "run_free h 0 (needed_blocks h sz)"
proof -
  have "\<not> taken (blocks h) k" for k by (auto simp: taken_def assms(2) free_entry_def)
  then show free: "run_free h 0 (needed_blocks h sz)"
    using assms(2,4) by (simp add: run_free_def blocked_iff)
  show "alloc h sz = Inr (block_addr h 0, take_run h 0 (needed_blocks h sz))"
    using alloc_lowest [OF assms(1,3) free] by auto
qed

lemma second_alloc:
  assumes "heap_inv h" and "blocks h = replicate n free_entry" and "needed_blocks h sz + m \<le> n"
    and "h' = take_run h 0 m" and "size_ok h sz" and "heap_inv h'"
  shows "\<exists>p h''. alloc h' sz = Inr (p, h'') \<and> p \<noteq> 0 \<and> heap_inv h'' \<and> start_addr h'' = start_addr h \<and>
           max_size h'' = max_size h \<and> block_size h'' = block_size h"
proof -
  let ?n = "needed_blocks h sz"
  have ok: "size_ok h' sz" and nb: "needed_blocks h' sz = ?n" using assms(4,5) by simp_all
  have "\<not> taken (blocks h') k" if "m \<le> k" for k
    using that by (auto simp: assms(2,4) taken_take [simplified] taken_def free_entry_def take_run_def nth_fill)
  then have "run_free h' m (needed_blocks h' sz)"
    using assms(2,3,4) nb by (auto simp: run_free_def blocked_iff)
  from alloc_lowest [OF assms(6) ok this] obtain t where
    t: "run_free h' t (needed_blocks h' sz)" "alloc h' sz = Inr (block_addr h' t, take_run h' t (needed_blocks h' sz))"
    by blast
  moreover have "block_addr h' t \<noteq> 0"
    using t(1) by (intro block_addr_nonzero [OF assms(6)]) (simp add: run_free_def)
  moreover have "heap_inv (take_run h' t (needed_blocks h' sz))"
    using assms(6) t(1) by (rule heap_inv_take)
  ultimately show ?thesis by (simp add: assms(4))
qed

section \<open>The low heap\<close>

lemma unat_low_blocks:
  assumes "4127 \<le> unat ls"
  shows "unat ((ls - sizeof_heap - 0xFFF) div (512 + sizeof_allocation)) = (unat ls - 4127) div 524"
proof -
  have "unat (ls - 4127) = unat ls - 4127"
    using assms by (subst unat_sub) (simp_all add: word_le_nat_alt)
  then have "unat (ls - sizeof_heap - 0xFFF) = unat ls - 4127" by (simp add: sizeof_heap_def diff_diff_eq)
  then show ?thesis by (simp add: unat_div_distrib sizeof_allocation_def)
qed

lemma low_heap_layout:
  assumes found: "e820_find_region E820_USABLE ls 0 0xFFFFFFFF 0x1000 k = Inr (Some (base, n))"
    and size: "4127 \<le> unat ls" "unat ls \<le> 2 ^ 32" and base: "unat base \<le> 2 ^ 32" "base \<noteq> 0"
  shows "\<exists>h k'. low_heap_init ls k = Inr (True, k') \<and> low_heap k' = Some h \<and> heap_inv h \<and>
    footprint base h \<subseteq> {unat base..<unat base + unat ls} \<and>
    unat base + 32 + 12 * length (blocks h) \<le> unat (start_addr h) \<and>
    length (blocks h) = (unat ls - 4127) div 524 \<and> block_size h = 512 \<and>
    list_all (\<lambda>b. \<not> isAllocated b) (blocks h) \<and>
    mem k' = mem k \<and> RSD_T k' = RSD_T k \<and> memory_map k' = memory_map k \<and>
    root_heap k' = root_heap k \<and> bump_heap k' = bump_heap k"
proof -
  let ?nb = "(ls - sizeof_heap - 0xFFF) div (512 + sizeof_allocation)"
  let ?t = "base + sizeof_heap + ?nb * sizeof_allocation"
  define h where "h = \<lparr>block_size = 512, start_addr = align_up ?t 0x1000, max_size = ?nb * 512,
                        blocks = replicate (unat ?nb) free_entry\<rparr>"
  let ?n = "(unat ls - 4127) div 524"
  have nb: "unat ?nb = ?n" by (rule unat_low_blocks [OF size(1)])
  have "?n * 524 \<le> unat ls - 4127" by (rule div_times_less_eq_dividend)
  then have n524: "?n * 524 + 4127 \<le> unat ls" using size(1) by linarith
  have M: "unat (?nb * 512) = ?n * 512"
    using n524 size(2) nb by (subst unat_mult_u64) simp_all
  have T: "unat (?nb * sizeof_allocation) = ?n * 12"
    using n524 size(2) nb by (subst unat_mult_u64) (simp_all add: sizeof_allocation_def)
  have "unat (base + sizeof_heap) = unat base + 32"
    using base by (subst unat_add_u64) (simp_all add: sizeof_heap_def)
  then have t: "unat ?t = unat base + 32 + 12 * ?n"
    using n524 size(2) base T by (subst unat_add_u64) simp_all
  have n1: "?n = unat (?nb * 512) div 512" using M by simp
  have n2: "?n < 2 ^ 32" using n524 size(2) by linarith
  have room: "unat base + 32 + 12 * ?n + 4095 + unat (?nb * 512) \<le> 2 ^ 63"
    using n524 size(2) base M by simp
  have hd: "h = \<lparr>block_size = 512, start_addr = align_up ?t 0x1000, max_size = ?nb * 512,
                  blocks = replicate ?n free_entry\<rparr>" by (simp only: h_def nb)
  note fresh = fresh_heap [OF t n1 n2 room hd]
  have "unat (start_addr h) + unat (max_size h) \<le> unat base + unat ls"
    using fresh(3) n524 M by (simp add: h_def)
  then have fp: "footprint base h \<subseteq> {unat base..<unat base + unat ls}" by (auto simp: footprint_def)
  have "low_heap_init ls k = Inr (True, say_hex64LN (start_addr h) (say ''MEMORY MAN: low region at: '' (k\<lparr>low_heap := Some h\<rparr>)))"
    using base(2) by (simp add: low_heap_init_def found Let_def h_def)
  then show ?thesis
    using fresh(1,2) fp by (auto simp: say_defs hd free_entry_def list_all_iff)
qed

section \<open>The root heap and the map\<close>

definition entry_bytes :: "e820_entry \<Rightarrow> nat set" where
  "entry_bytes e = {unat (e_base e)..<unat (e_base e) + unat (e_length e)}"

text \<open>A map as firmware reports it: physical addresses have at most 52 bits and no two entries
  overlap.\<close>

definition map_wf :: "e820_map \<Rightarrow> bool" where
  "map_wf mm \<longleftrightarrow> map_ok mm \<and>
     list_all (\<lambda>e. unat (e_base e) + unat (e_length e) \<le> 2 ^ 52) (map_entries mm) \<and>
     sorted_wrt (\<lambda>e e'. entry_bytes e \<inter> entry_bytes e' = {}) (map_entries mm)"

lemma map_wfD:
  assumes "map_wf mm"
  shows "map_ok mm" and "e \<in> set (map_entries mm) \<Longrightarrow> unat (e_base e) + unat (e_length e) \<le> 2 ^ 52"
    and "i < length (map_entries mm) \<Longrightarrow> j < length (map_entries mm) \<Longrightarrow> i \<noteq> j \<Longrightarrow>
          entry_bytes (map_entries mm ! i) \<inter> entry_bytes (map_entries mm ! j) = {}"
proof -
  show "map_ok mm" "e \<in> set (map_entries mm) \<Longrightarrow> unat (e_base e) + unat (e_length e) \<le> 2 ^ 52"
    using assms by (auto simp: map_wf_def list_all_iff)
  show "entry_bytes (map_entries mm ! i) \<inter> entry_bytes (map_entries mm ! j) = {}"
    if "i < length (map_entries mm)" "j < length (map_entries mm)" "i \<noteq> j"
    using assms that unfolding map_wf_def sorted_wrt_iff_nth_less by (metis Int_commute linorder_neqE_nat)
qed

lemma root_fit_Some:
  assumes fit: "root_fit ke tot e = Some start" and e: "unat (e_base e) + unat (e_length e) \<le> 2 ^ 52"
    and ke: "unat ke \<le> 2 ^ 33"
  shows "e_type e = E820_USABLE" and "unat (e_base e) \<le> unat start" and "unat ke \<le> unat start"
    and "unat start + unat tot \<le> unat (e_base e) + unat (e_length e)" and "unat start + unat tot \<le> 2 ^ 32"
    and "2 ^ 12 dvd unat start"
proof -
  define m where "m = (if e_base e > ke then e_base e else ke)"
  define e1 where "e1 = (if e_base e + e_length e > FOUR_GIB then FOUR_GIB else e_base e + e_length e)"
  have m: "unat (e_base e) \<le> unat m" "unat ke \<le> unat m" "unat m \<le> 2 ^ 52"
    using e ke by (auto simp: m_def word_less_nat_alt)
  have "unat (e_base e + e_length e) = unat (e_base e) + unat (e_length e)"
    using e by (intro unat_add_u64) simp
  then have e1: "unat e1 = min (unat (e_base e) + unat (e_length e)) (2 ^ 32)"
    using FOUR_GIB_nat(1) by (auto simp: e1_def word_less_nat_alt)
  have *: "e_type e = E820_USABLE \<and> start = align_up m (2 ^ 12) \<and> \<not> e1 \<le> start \<and> \<not> e1 - start < tot"
    using fit by (auto simp: root_fit_def m_def e1_def Let_def split: if_splits)
  then show "e_type e = E820_USABLE" by simp
  have st: "unat start = ceil_to (2 ^ 12) (unat m)"
    using * m(3) unat_align_up [of 12 m] by (simp add: ceil_to_def)
  note b = ceil_to_bounds [of "2 ^ 12" "unat m", folded st]
  show "unat (e_base e) \<le> unat start" "unat ke \<le> unat start" using b(1) m by simp_all
  show "2 ^ 12 dvd unat start" using b(3) by simp
  from * have lt: "start < e1" and tot: "tot \<le> e1 - start" by (meson not_le)+
  then have "unat (e1 - start) = unat e1 - unat start" by (intro unat_sub) simp
  then have "unat tot \<le> unat e1 - unat start" "unat start < unat e1"
    using lt tot by (simp_all only: word_less_nat_alt word_le_nat_alt)
  then have "unat start + unat tot \<le> unat e1" by simp
  then show "unat start + unat tot \<le> unat (e_base e) + unat (e_length e)" "unat start + unat tot \<le> 2 ^ 32"
    by (simp_all add: e1)
qed

lemma choose_root_Some:
  assumes "map_ok mm" and "choose_root mm ke tot 0 = Inr (Some (i, start))"
  shows "unat i < length (map_entries mm)" and "root_fit ke tot (map_entries mm ! unat i) = Some start"
    and "e_entries mm ! unat i = map_entries mm ! unat i"
proof -
  let ?f = "\<lambda>j. map_option (Pair (word_of_nat j)) (root_fit ke tot (e_entries mm ! j))"
  have "first_some ?f [0..<unat (e_count mm)] = Some (i, start)"
    using choose_root_eq [OF assms(1), of ke tot 0] assms(2) by simp
  then obtain j where j: "j < unat (e_count mm)" "?f j = Some (i, start)"
    unfolding first_some_Some by auto
  have "unat (word_of_nat j :: u16) = j"
    using j(1) unsigned_less [of "e_count mm", where ?'a = nat] by (simp add: unat_of_nat)
  then have ij: "unat i = j" using j(2) by auto
  then show "unat i < length (map_entries mm)" using j(1) assms(1) by simp
  show eq: "e_entries mm ! unat i = map_entries mm ! unat i" using j(1) ij by (simp add: map_entries_def)
  show "root_fit ke tot (map_entries mm ! unat i) = Some start" using j(2) ij eq by auto
qed

lemma choose_root_None:
  assumes "map_ok mm" and "choose_root mm ke tot 0 = Inr None"
  shows "\<forall>e \<in> set (map_entries mm). root_fit ke tot e = None"
proof -
  have "first_some (\<lambda>j. map_option (Pair (word_of_nat j :: u16)) (root_fit ke tot (e_entries mm ! j)))
      [0..<unat (e_count mm)] = None"
    using choose_root_eq [OF assms(1), of ke tot 0] assms(2) by simp
  then have "root_fit ke tot (e_entries mm ! j) = None" if "j < unat (e_count mm)" for j
    using that by (auto simp: first_some_None)
  then show ?thesis using assms(1) by (auto simp: in_set_conv_nth map_entries_def map_ok_def)
qed

text \<open>What the update makes of the map.\<close>

lemma reserve_root_entries:
  assumes ok: "map_wf mm" and i: "unat i < length (map_entries mm)"
    and e: "e = map_entries mm ! unat i" and H: "unat (e_base e) \<le> unat H" "unat H \<le> unat (e_base e) + unat (e_length e)"
  shows "map_ok (reserve_root mm i H)"
    and "\<exists>r \<in> set (map_entries (reserve_root mm i H)). e_type r = E820_RESERVED \<and>
           entry_bytes r = {unat (e_base e)..<unat H}"
    and "e' \<in> set (map_entries (reserve_root mm i H)) \<Longrightarrow> unat (e_base e') + unat (e_length e') \<le> 2 ^ 52"
    and "e' \<in> set (map_entries (reserve_root mm i H)) \<Longrightarrow> e_type e' = E820_USABLE \<Longrightarrow>
           entry_bytes e' \<inter> {unat (e_base e)..<unat H} = {}"
    and "e' \<in> set (map_entries (reserve_root mm i H)) \<Longrightarrow> e_type e' = E820_USABLE \<Longrightarrow>
           e' \<in> set (map_entries mm) \<or> e_base e' = H"
proof -
  let ?es = "map_entries mm" and ?c = "unat (e_count mm)"
  note mok = map_wfD(1) [OF ok]
  have len: "length ?es = ?c" "length (e_entries mm) = 64" "?c \<le> 64"
    using mok by (simp_all add: map_ok_def)
  have e52: "unat (e_base e) + unat (e_length e) \<le> 2 ^ 52" using map_wfD(2) [OF ok] i e by simp
  have ee: "e_entries mm ! unat i = e" using i e len by (simp add: map_entries_def)
  define r where "r = e\<lparr>e_type := E820_RESERVED, e_length := H - e_base e\<rparr>"
  define orig where "orig = e_base e + e_length e"
  define rest where "rest = \<lparr>e_base = H, e_length = orig - H, e_type = E820_USABLE, e_attributes = 1\<rparr>"
  have orig: "unat orig = unat (e_base e) + unat (e_length e)"
    using e52 unfolding orig_def by (intro unat_add_u64) simp
  have rlen: "unat (H - e_base e) = unat H - unat (e_base e)"
    using H(1) by (simp add: unat_sub word_le_nat_alt)
  have rest_len: "unat (orig - H) = unat orig - unat H" if "orig > H"
    using that by (simp add: unat_sub)
  have lt64: "e_count mm < E820_MAX_ENTRIES \<longleftrightarrow> ?c < 64" by (simp add: E820_MAX_ENTRIES_def word_less_nat_alt)
  let ?grow = "orig > H \<and> e_count mm < E820_MAX_ENTRIES"
  have count: "unat (e_count mm + 1) = Suc ?c" if "e_count mm < E820_MAX_ENTRIES"
    using that by (rule u16_step)
  have entries: "map_entries (reserve_root mm i H) = ?es[unat i := r] @ (if ?grow then [rest] else [])"
  proof (cases ?grow)
    case True
    have "take (Suc ?c) ((e_entries mm)[unat i := r, ?c := rest]) = take ?c ((e_entries mm)[unat i := r]) @ [rest]"
      using True len lt64 by (subst take_Suc_conv_app_nth) simp_all
    then show ?thesis
      using True count
      by (simp add: reserve_root_def map_entries_def ee r_def orig_def rest_def Let_def take_update_swap)
  next
    case False
    then show ?thesis
      by (auto simp: reserve_root_def map_entries_def ee r_def orig_def rest_def Let_def take_update_swap)
  qed
  show "map_ok (reserve_root mm i H)"
    using len lt64 count by (auto simp: reserve_root_def map_ok_def Let_def)
  have rb: "entry_bytes r = {unat (e_base e)..<unat H}"
    using H(1) rlen by (simp add: entry_bytes_def r_def)
  have "r \<in> set (?es[unat i := r])" using i by (simp add: set_update_memI)
  then show "\<exists>r \<in> set (map_entries (reserve_root mm i H)). e_type r = E820_RESERVED \<and>
      entry_bytes r = {unat (e_base e)..<unat H}"
    using rb unfolding entries by (intro bexI [of _ r]) (simp_all add: r_def)
  have cases: "e' = r \<or> (e' = rest \<and> orig > H) \<or> (\<exists>j<length ?es. j \<noteq> unat i \<and> e' = ?es ! j)"
    if "e' \<in> set (map_entries (reserve_root mm i H))"
  proof -
    have "e' \<in> set (?es[unat i := r]) \<or> (e' = rest \<and> orig > H)"
      using that unfolding entries by (auto split: if_splits)
    then show ?thesis
    proof
      assume "e' \<in> set (?es[unat i := r])"
      then obtain j where j: "j < length ?es" "e' = ?es[unat i := r] ! j" by (auto simp: in_set_conv_nth)
      then show ?thesis by (cases "j = unat i") auto
    qed simp
  qed
  show "e' \<in> set ?es \<or> e_base e' = H"
    if "e' \<in> set (map_entries (reserve_root mm i H))" and "e_type e' = E820_USABLE"
    using cases [OF that(1)] that(2) by (auto simp: r_def rest_def E820_USABLE_def E820_RESERVED_def)
  show "unat (e_base e') + unat (e_length e') \<le> 2 ^ 52"
    if "e' \<in> set (map_entries (reserve_root mm i H))"
    using cases [OF that] map_wfD(2) [OF ok] rlen rest_len orig e52 H
    by (auto simp: r_def rest_def word_less_nat_alt)
  show "entry_bytes e' \<inter> {unat (e_base e)..<unat H} = {}"
    if "e' \<in> set (map_entries (reserve_root mm i H))" and "e_type e' = E820_USABLE"
  proof -
    have "{unat (e_base e)..<unat H} \<subseteq> entry_bytes e" using H(2) by (auto simp: entry_bytes_def)
    moreover have "e' \<noteq> r" using that(2) by (auto simp: r_def E820_USABLE_def E820_RESERVED_def)
    ultimately show ?thesis
      using cases [OF that(1)] map_wfD(3) [OF ok i] e by (fastforce simp: entry_bytes_def rest_def)
  qed
qed

section \<open>Regions\<close>

lemma e820_find_region_eq:
  assumes "memory_map k = Some mm" and "map_ok mm" and "a < 64"
  shows "e820_find_region ty ms lo hi (2 ^ a) k = Inr (first_some (e820_fit ty ms lo hi (2 ^ a)) (map_entries mm))"
proof -
  have "(2 ^ a :: u64) \<noteq> 0" using linorder_not_le [THEN iffD2, OF assms(3)] by simp
  moreover have "(2 ^ a :: u64) AND (2 ^ a - 1) = 0"
    by (simp only: aligned_test [OF assms(3)] pow2_u64_nat [OF assms(3)] dvd_refl)
  ultimately show ?thesis
    using e820_find_from_eq [OF assms(2), of ty ms lo hi "2 ^ a" 0] assms(1)
    by (simp add: e820_find_region_def)
qed

lemma fit_bounds:
  assumes "e820_fit ty ms lo hi (2 ^ a) e = Some (base, n)" and "a < 64"
  shows "e_type e = ty" and "unat (e_base e) \<le> unat base" and "unat lo \<le> unat base"
    and "2 ^ a dvd unat base" and "unat base + unat n \<le> unat (e_base e) + unat (e_length e)"
    and "unat base + unat n \<le> unat hi" and "unat ms \<le> unat n" and "0 < unat n"
proof -
  let ?s = "window_start (2 ^ a) lo e" and ?t = "window_end hi e"
  have *: "e_type e = ty" "?s < ?t" "unat ms \<le> ?t - ?s" "base = word_of_nat ?s" "n = word_of_nat (?t - ?s)"
    using assms(1) unfolding e820_fit_eq [OF assms(2)] by (auto split: if_splits)
  have t: "?t \<le> unat hi" "?t \<le> unat (e_base e) + unat (e_length e)" by (simp_all add: window_end_def)
  then have "?t < 2 ^ 64" using unat_u64_less [of hi] by simp
  then have b: "unat base = ?s" and n: "unat n = ?t - ?s"
    using *(2) unat_of_nat_u64 [of ?s] unat_of_nat_u64 [of "?t - ?s"] by (simp_all add: *(4,5))
  have s: "unat (e_base e) \<le> ?s" "unat lo \<le> ?s" "2 ^ a dvd ?s"
    using ceil_to_bounds [of "2 ^ a" "max (unat (e_base e)) (unat lo)"] by (simp_all add: window_start_def)
  show "e_type e = ty" "unat (e_base e) \<le> unat base" "unat lo \<le> unat base" "2 ^ a dvd unat base"
    "unat base + unat n \<le> unat (e_base e) + unat (e_length e)" "unat base + unat n \<le> unat hi"
    "unat ms \<le> unat n" "0 < unat n"
    using * b n s t by simp_all
qed

lemma low_region:
  assumes "memory_map k = Some mm" and "map_ok mm"
    and "e820_find_region E820_USABLE ls 0 0xFFFFFFFF 0x1000 k = Inr (Some (base, n))"
  shows "\<exists>e \<in> set (map_entries mm). e_type e = E820_USABLE \<and> unat (e_base e) \<le> unat base \<and>
           unat base + unat ls \<le> unat (e_base e) + unat (e_length e) \<and> unat base + unat ls < 2 ^ 32"
proof -
  have "first_some (e820_fit E820_USABLE ls 0 0xFFFFFFFF (2 ^ 12)) (map_entries mm) = Some (base, n)"
    using e820_find_region_eq [OF assms(1,2), of 12 E820_USABLE ls 0 "0xFFFFFFFF"] assms(3) by simp
  then obtain e where e: "e \<in> set (map_entries mm)"
    and fit: "e820_fit E820_USABLE ls 0 0xFFFFFFFF (2 ^ 12) e = Some (base, n)"
    unfolding first_some_Some by (auto simp: in_set_conv_nth)
  have "unat base + unat n \<le> unat (0xFFFFFFFF :: u64)" by (rule fit_bounds(6) [OF fit]) simp
  then have "unat base + unat n < 2 ^ 32" by simp
  with fit_bounds [OF fit] e show ?thesis by (intro bexI [of _ e]) auto
qed

lemma total_size:
  assumes "unat sz \<le> 2 ^ 32"
  shows "unat (sizeof_allocation * (sz div 512)) = 12 * (unat sz div 512)"
    and "unat (sizeof_heap + sizeof_allocation * (sz div 512) + 0xFFF + sz) = 32 + 12 * (unat sz div 512) + 4095 + unat sz"
proof -
  have d: "unat (sz div 512) = unat sz div 512" by (simp add: unat_div_distrib)
  have dl: "unat sz div 512 \<le> 2 ^ 23" using div_le_mono [OF assms, of 512] by simp
  show t: "unat (sizeof_allocation * (sz div 512)) = 12 * (unat sz div 512)"
    using dl d by (subst unat_mult_u64) (simp_all add: sizeof_allocation_def)
  have t1: "unat (sizeof_heap + sizeof_allocation * (sz div 512)) = 32 + 12 * (unat sz div 512)"
    using dl t by (subst unat_add_u64) (simp_all add: sizeof_heap_def)
  have t2: "unat (sizeof_heap + sizeof_allocation * (sz div 512) + 0xFFF) = 32 + 12 * (unat sz div 512) + 4095"
    using dl t1 by (subst unat_add_u64) simp_all
  show "unat (sizeof_heap + sizeof_allocation * (sz div 512) + 0xFFF + sz) = 32 + 12 * (unat sz div 512) + 4095 + unat sz"
    using dl t2 assms by (subst unat_add_u64) simp_all
qed

lemma root_heap_layout:
  assumes sz: "unat sz \<le> 2 ^ 32" and st: "unat start + (32 + 12 * (unat sz div 512) + 4095 + unat sz) \<le> 2 ^ 32"
  shows "heap_inv (root_heap_at start sz)"
    and "unat (start_addr (root_heap_at start sz)) + unat sz \<le> unat start + (32 + 12 * (unat sz div 512) + 4095 + unat sz)"
    and "unat start \<le> unat (start_addr (root_heap_at start sz))"
    and "blocks (root_heap_at start sz) = replicate (unat sz div 512) free_entry"
    and "block_size (root_heap_at start sz) = 512" and "max_size (root_heap_at start sz) = sz"
proof -
  let ?n = "unat sz div 512"
  let ?t = "start + sizeof_heap + sizeof_allocation * (sz div 512)"
  have d: "unat (sz div 512) = ?n" by (simp add: unat_div_distrib)
  have "unat (start + sizeof_heap) = unat start + 32"
    using st by (subst unat_add_u64) (simp_all add: sizeof_heap_def)
  then have t: "unat ?t = unat start + 32 + 12 * ?n"
    using total_size(1) [OF sz] st by (subst unat_add_u64) simp_all
  have n: "?n < 2 ^ 32" using div_le_mono [OF sz, of 512] by simp
  have room: "unat start + 32 + 12 * ?n + 4095 + unat sz \<le> 2 ^ 63" using st by simp
  have h: "root_heap_at start sz = \<lparr>block_size = 512, start_addr = align_up ?t 0x1000, max_size = sz,
      blocks = replicate ?n free_entry\<rparr>" by (simp add: root_heap_at_def d)
  note fresh = fresh_heap [OF t refl n room h]
  show "heap_inv (root_heap_at start sz)" by (rule fresh(1))
  show "unat (start_addr (root_heap_at start sz)) + unat sz \<le> unat start + (32 + 12 * ?n + 4095 + unat sz)"
    using fresh(3) by simp
  show "unat start \<le> unat (start_addr (root_heap_at start sz))" using fresh(2) by simp
  show "blocks (root_heap_at start sz) = replicate ?n free_entry" "block_size (root_heap_at start sz) = 512"
    "max_size (root_heap_at start sz) = sz" by (simp_all add: h)
qed

section \<open>Initialisation\<close>

text \<open>What a successful initialisation leaves behind: the root heap in a reserved entry behind the
  kernel image, the low heap in a usable entry, and the bump heap on addresses that no entry and no
  fixed device covers. \<open>rb\<close> and \<open>lb\<close> are the addresses of the two heap structures.\<close>

definition root_placed :: "u64 \<Rightarrow> u64 \<Rightarrow> e820_map \<Rightarrow> u64 \<Rightarrow> heap \<Rightarrow> bool" where
  "root_placed ke sz mm rb h \<longleftrightarrow>
     heap_inv h \<and> max_size h = sz \<and> block_size h = 512 \<and> unat ke \<le> unat rb \<and> footprint rb h \<subseteq> {0..<2 ^ 32} \<and>
     (\<exists>e \<in> set (map_entries mm). e_type e = E820_RESERVED \<and> footprint rb h \<subseteq> entry_bytes e) \<and>
     (\<forall>e \<in> set (map_entries mm). e_type e = E820_USABLE \<longrightarrow> footprint rb h \<inter> entry_bytes e = {})"

definition low_placed :: "e820_map \<Rightarrow> u64 \<Rightarrow> heap \<Rightarrow> bool" where
  "low_placed mm lb h \<longleftrightarrow>
     heap_inv h \<and> block_size h = 512 \<and> footprint lb h \<subseteq> {0..<2 ^ 32} \<and>
     (\<exists>e \<in> set (map_entries mm). e_type e = E820_USABLE \<and> footprint lb h \<subseteq> entry_bytes e)"

definition bump_placed :: "e820_map \<Rightarrow> bump_heap \<Rightarrow> bool" where
  "bump_placed mm h \<longleftrightarrow>
     unat (bump_start h) + unat (bump_size h) \<le> 2 ^ 32 \<and> bump_next h = bump_start h \<and> bump_size h \<noteq> 0 \<and>
     {unat (bump_start h)..<unat (bump_start h) + unat (bump_size h)} \<inter>
       ((\<Union>e \<in> set (map_entries mm). entry_span e) \<union> device_spans) = {}"

lemma entry_span_bytes:
  assumes "unat (e_base e) + unat (e_length e) \<le> 2 ^ 52"
  shows "entry_span e = entry_bytes e \<inter> {0..<2 ^ 32}"
proof -
  have "unat (e_base e + e_length e) = unat (e_base e) + unat (e_length e)"
    using assms by (intro unat_add_u64) simp
  then show ?thesis by (auto simp: entry_span_def entry_bytes_def)
qed

lemma hole_bump:
  assumes "hole_of rs (Some (b, e))" and "(\<Union>e \<in> set (map_entries mm). entry_span e) \<union> device_spans \<subseteq> touched rs"
  shows "bump_placed mm \<lparr>bump_start = b, bump_next = b, bump_size = e - b\<rparr>"
proof -
  have be: "b < e" "unat e \<le> 2 ^ 32" "{unat b..<unat e} \<inter> touched rs = {}"
    using assms(1) by (auto simp: hole_of_def)
  then have "b \<le> e" by simp
  then have "unat (e - b) = unat e - unat b" "unat b < unat e"
    using be(1) by (simp_all only: unat_sub word_less_nat_alt)
  moreover have "{unat b..<unat e} \<inter> ((\<Union>e \<in> set (map_entries mm). entry_span e) \<union> device_spans) = {}"
    using be(3) assms(2) by blast
  ultimately show ?thesis using be(1,2) by (simp add: bump_placed_def)
qed

lemma kalloc_root:
  assumes "root_heap k = Some h" and "alloc h sz = Inr (p, h')"
  shows "kalloc sz k = Inr (p, k\<lparr>root_heap := Some h'\<rparr>)"
  using assms by (simp add: kalloc_def)

section \<open>Initialisation, from its end\<close>

lemma init_bump_placed:
  assumes k: "memory_map k = Some mm" "root_heap k = Some h1" and ok: "map_ok mm" and acpi: "RSD_T k \<noteq> 0"
    and second: "alloc h1 sizeof_bump_heap = Inr (p, h2)" "p \<noteq> 0"
  shows "case init_bump k of
      Inl f \<Rightarrow> f = Halted \<or> (f = NullDeref \<and> find_table (mem k) (RSD_T k) mcfg_name = 0)
    | Inr k' \<Rightarrow> memory_map k' = Some mm \<and> root_heap k' = Some h2 \<and> low_heap k' = low_heap k \<and>
        (\<exists>hb. bump_heap k' = Some hb \<and> bump_placed mm hb)"
proof (cases "find_table (mem k) (RSD_T k) mcfg_name = 0")
  case True
  then show ?thesis using find_mmio_hole_no_mcfg [OF k(1) ok] by (simp add: init_bump_def)
next
  case False
  from find_mmio_hole_sound [OF k(1) ok acpi False] obtain hole k1 where
    k1: "find_mmio_hole k = Inr (hole, k1)" "hole_of (ranges k1) hole"
    "(\<Union>e \<in> set (map_entries mm). entry_span e) \<union> device_spans \<subseteq> touched (ranges k1)"
    "memory_map k1 = Some mm" "root_heap k1 = Some h1" "low_heap k1 = low_heap k"
    using k by auto
  show ?thesis
  proof (cases hole)
    case None
    then show ?thesis using k1(1) by (simp add: init_bump_def)
  next
    case (Some be)
    obtain b e where be: "be = (b, e)" by (cases be)
    define k2 where "k2 = say_hex64LN e (say ''MMIO hole end: '' (say_hex64LN b (say ''MMIO hole start: '' k1)))"
    have k2: "root_heap k2 = Some h1" "memory_map k2 = Some mm" "low_heap k2 = low_heap k"
      using k1(4-6) by (simp_all add: k2_def say_defs)
    have "init_bump k = Inr (k2\<lparr>root_heap := Some h2, bump_heap := Some \<lparr>bump_start = b, bump_next = b, bump_size = e - b\<rparr>\<rparr>)"
      using k1(1) kalloc_root [OF k2(1) second(1)] second(2)
      by (simp add: init_bump_def Some be k2_def [symmetric])
    then show ?thesis using k2 hole_bump [OF k1(2) [unfolded Some be] k1(3)] by simp
  qed
qed

text \<open>An entry at address 0 that the low heap fits in makes its pointer null.\<close>

definition usable_at_0 :: "e820_map \<Rightarrow> u64 \<Rightarrow> bool" where
  "usable_at_0 mm ls \<longleftrightarrow>
     list_ex (\<lambda>e. e_type e = E820_USABLE \<and> e_base e = 0 \<and> unat ls \<le> unat (e_length e)) (map_entries mm)"

lemma init_low_placed:
  assumes k: "memory_map k = Some mm" and ok: "map_ok mm" and ls: "4127 \<le> unat ls" "unat ls \<le> 2 ^ 32"
  shows "(\<exists>k1. low_heap_init ls k = Inr (False, k1)) \<or>
    (low_heap_init ls k = Inl NullDeref \<and> usable_at_0 mm ls) \<or>
    (\<exists>k1 lb h. low_heap_init ls k = Inr (True, k1) \<and> lb \<noteq> 0 \<and> low_heap k1 = Some h \<and> low_placed mm lb h \<and>
       mem k1 = mem k \<and> RSD_T k1 = RSD_T k \<and> memory_map k1 = Some mm \<and> root_heap k1 = root_heap k)"
proof -
  obtain low where low: "e820_find_region E820_USABLE ls 0 0xFFFFFFFF 0x1000 k = Inr low"
    using e820_find_region_eq [OF k ok, of 12] by auto
  show ?thesis
  proof (cases low)
    case None
    then show ?thesis using low by (simp add: low_heap_init_def)
  next
    case (Some bn)
    obtain lb n where bn: "bn = (lb, n)" by (cases bn)
    note low' = low [unfolded Some bn]
    from low_region [OF k ok low'] obtain e where e: "e \<in> set (map_entries mm)"
      "e_type e = E820_USABLE" "unat (e_base e) \<le> unat lb"
      "unat lb + unat ls \<le> unat (e_base e) + unat (e_length e)" "unat lb + unat ls < 2 ^ 32" by blast
    then have "unat lb \<le> 2 ^ 32" by simp
    show ?thesis
    proof (cases "lb = 0")
      case True
      then have "e_base e = 0" using e(3) by (simp add: unat_eq_zero)
      then have "usable_at_0 mm ls" using e True by (auto simp: usable_at_0_def list_ex_iff)
      then show ?thesis using low' True by (simp add: low_heap_init_def)
    next
      case False
      from low_heap_layout [OF low' ls \<open>unat lb \<le> 2 ^ 32\<close> False] obtain h k1 where k1: "low_heap_init ls k = Inr (True, k1)"
        "low_heap k1 = Some h" "heap_inv h" "footprint lb h \<subseteq> {unat lb..<unat lb + unat ls}" "block_size h = 512"
        "mem k1 = mem k" "RSD_T k1 = RSD_T k" "memory_map k1 = memory_map k" "root_heap k1 = root_heap k" by blast
      have "{unat lb..<unat lb + unat ls} \<subseteq> entry_bytes e" "{unat lb..<unat lb + unat ls} \<subseteq> {0..<2 ^ 32}"
        using e(3-5) by (auto simp: entry_bytes_def)
      then have "low_placed mm lb h"
        unfolding low_placed_def using k1(3-5) e(1,2) by blast
      then show ?thesis using k1 k False by auto
    qed
  qed
qed

text \<open>The root heap and the updated map.\<close>

lemma init_root_placed:
  assumes wf: "map_wf mm" and sz: "unat sz \<le> 2 ^ 32"
    and chosen: "choose_root mm ke (sizeof_heap + sizeof_allocation * (sz div 512) + 0xFFF + sz) 0 = Inr (Some (i, start))"
    and ke: "unat ke \<le> 2 ^ 33"
  shows "map_ok (reserve_root mm i (start_addr (root_heap_at start sz) + sz))"
    and "root_placed ke sz (reserve_root mm i (start_addr (root_heap_at start sz) + sz)) start (root_heap_at start sz)"
    and "unat start + (32 + 12 * (unat sz div 512) + 4095 + unat sz) \<le> 2 ^ 32"
    and "usable_at_0 (reserve_root mm i (start_addr (root_heap_at start sz) + sz)) ls \<Longrightarrow> usable_at_0 mm ls"
proof -
  note ch = choose_root_Some [OF map_wfD(1) [OF wf] chosen]
  define e where "e = map_entries mm ! unat i"
  have "e \<in> set (map_entries mm)" using ch(1) by (simp add: e_def)
  note fit = root_fit_Some [OF ch(2) [folded e_def] map_wfD(2) [OF wf this] ke, unfolded total_size(2) [OF sz]]
  show st: "unat start + (32 + 12 * (unat sz div 512) + 4095 + unat sz) \<le> 2 ^ 32" by (rule fit(5))
  define h where "h = root_heap_at start sz"
  define H where "H = start_addr h + sz"
  note rh = root_heap_layout [OF sz st, folded h_def]
  have Hn: "unat H = unat (start_addr h) + unat sz"
    using rh(2) st unfolding H_def by (intro unat_add_u64) simp
  have H: "unat (e_base e) \<le> unat H" "unat H \<le> unat (e_base e) + unat (e_length e)" "unat H \<le> 2 ^ 32"
    using Hn rh(2,3) fit(2,4,5) by simp_all
  note res = reserve_root_entries [OF wf ch(1) e_def H(1,2)]
  show "map_ok (reserve_root mm i (start_addr (root_heap_at start sz) + sz))"
    using res(1) by (simp only: H_def h_def)
  have "H \<noteq> 0" using Hn heap_invD(1,7) [OF rh(1)] by (metis add_is_0 le_zero_eq not_less_zero unat_0)
  then show "usable_at_0 mm ls" if u: "usable_at_0 (reserve_root mm i (start_addr (root_heap_at start sz) + sz)) ls"
  proof -
    obtain e' where e': "e' \<in> set (map_entries (reserve_root mm i H))" "e_type e' = E820_USABLE" "e_base e' = 0"
      "unat ls \<le> unat (e_length e')" using u unfolding usable_at_0_def list_ex_iff H_def h_def by blast
    then have "e' \<in> set (map_entries mm)" using res(5) \<open>H \<noteq> 0\<close> by metis
    then show ?thesis using e' by (auto simp: usable_at_0_def list_ex_iff)
  qed
  have fp: "footprint start h \<subseteq> {unat (e_base e)..<unat H}" "footprint start h \<subseteq> {0..<2 ^ 32}"
    using fit(2) H(3) by (auto simp: footprint_def rh Hn)
  have "\<exists>r \<in> set (map_entries (reserve_root mm i H)). e_type r = E820_RESERVED \<and> footprint start h \<subseteq> entry_bytes r"
    using res(2) fp(1) by (elim bexE conjE) (rule bexI, auto)
  moreover have "footprint start h \<inter> entry_bytes e' = {}"
    if "e' \<in> set (map_entries (reserve_root mm i H))" "e_type e' = E820_USABLE" for e'
    using res(4) [OF that] fp(1) by blast
  ultimately have "root_placed ke sz (reserve_root mm i H) start h"
    unfolding root_placed_def using rh(1,5,6) fit(3) fp(2) by blast
  then show "root_placed ke sz (reserve_root mm i (start_addr (root_heap_at start sz) + sz)) start (root_heap_at start sz)"
    by (simp only: H_def h_def)
qed

text \<open>The two requests that initialisation makes of the fresh root heap.\<close>

lemma root_requests:
  assumes sz: "2560 \<le> unat sz" "unat sz \<le> 2 ^ 32"
    and st: "unat start + (32 + 12 * (unat sz div 512) + 4095 + unat sz) \<le> 2 ^ 32"
    and placed: "root_placed ke sz mm start (root_heap_at start sz)"
  obtains p h1 q h2 where "alloc (root_heap_at start sz) sizeof_e820_map = Inr (p, h1)" "p \<noteq> 0"
    "alloc h1 sizeof_bump_heap = Inr (q, h2)" "q \<noteq> 0" "root_placed ke sz mm start h2"
proof -
  let ?h = "root_heap_at start sz"
  note rh = root_heap_layout [OF sz(2) st]
  have n5: "5 \<le> unat sz div 512" using div_le_mono [OF sz(1), of 512] by simp
  have ok: "size_ok ?h sizeof_e820_map" "size_ok ?h sizeof_bump_heap"
    by (simp_all add: rh(5) sizeof_e820_map_def sizeof_bump_heap_def)
  have nb: "needed_blocks ?h sizeof_e820_map = 4" "needed_blocks ?h sizeof_bump_heap = 1"
    by (simp_all add: needed_blocks_def rh(5) sizeof_e820_map_def sizeof_bump_heap_def)
  have "needed_blocks ?h sizeof_e820_map \<le> unat sz div 512" using nb n5 by simp
  note a1 = fresh_alloc [OF rh(1,4) ok(1) this]
  have inv1: "heap_inv (take_run ?h 0 4)" using heap_inv_take [OF rh(1) a1(2)] nb by simp
  have "needed_blocks ?h sizeof_bump_heap + 4 \<le> unat sz div 512" using nb n5 by simp
  from second_alloc [OF rh(1,4) this refl ok(2) inv1] obtain q h2 where
    a2: "alloc (take_run ?h 0 4) sizeof_bump_heap = Inr (q, h2)" "q \<noteq> 0" "heap_inv h2"
      "start_addr h2 = start_addr ?h" "max_size h2 = max_size ?h" "block_size h2 = block_size ?h" by blast
  have "footprint start h2 = footprint start ?h" by (simp add: footprint_def a2(4,5))
  then have "root_placed ke sz mm start h2" using placed a2(3,5,6) by (simp add: root_placed_def)
  moreover have "block_addr ?h 0 \<noteq> 0" by (rule block_addr_nonzero [OF rh(1)]) simp
  ultimately show thesis using a1(1) a2(1,2) nb(1)
    by (intro that [of "block_addr ?h 0" "take_run ?h 0 4" q h2]) simp_all
qed

lemma kernel_end_bound: "unat (KERNEL_START + ucast (x :: u32) :: u64) = 0x120000 + unat x"
proof -
  have "unat x < 2 ^ 32" using unsigned_less [of x, where ?'a = nat] by simp
  then show ?thesis by (subst unat_add_u64) (simp_all add: KERNEL_START_def end_block_nat)
qed

section \<open>Properties\<close>

text \<open>
  C11. \<^verbatim>\<open>e820_find_region\<close> never leaves the map and returns the first entry of the
  wanted type with enough room between the bounds: the region starts at the least aligned address of
  the entry at or above the lower bound and reaches to the end of the entry or the upper bound. It
  fails exactly when no entry has such a region.
\<close>

theorem e820_find_region_first:
  assumes "memory_map k = Some mm" and "map_ok mm" and "a < 64"
  shows "\<exists>found. e820_find_region ty ms lo hi (2 ^ a) k = Inr found \<and>
    (let start = window_start (2 ^ a) lo; stop = window_end hi;
         fits = (\<lambda>e. e_type e = ty \<and> start e < stop e \<and> unat ms \<le> stop e - start e) in
     case found of
       None \<Rightarrow> \<forall>e \<in> set (map_entries mm). \<not> fits e
     | Some (base, n) \<Rightarrow> \<exists>i<length (map_entries mm). fits (map_entries mm ! i) \<and>
         (\<forall>j<i. \<not> fits (map_entries mm ! j)) \<and>
         unat base = start (map_entries mm ! i) \<and> unat base + unat n = stop (map_entries mm ! i))"
proof -
  let ?f = "e820_fit ty ms lo hi (2 ^ a)"
  define fits where "fits = (\<lambda>e. e_type e = ty \<and> window_start (2 ^ a) lo e < window_end hi e \<and>
    unat ms \<le> window_end hi e - window_start (2 ^ a) lo e)"
  have f: "?f e = (if fits e then Some (word_of_nat (window_start (2 ^ a) lo e),
      word_of_nat (window_end hi e - window_start (2 ^ a) lo e)) else None)" for e
    by (simp only: e820_fit_eq [OF assms(3)] fits_def)
  have w: "window_end hi e < 2 ^ 64" for e using unat_u64_less [of hi] by (simp add: window_end_def)
  have nats: "unat b = window_start (2 ^ a) lo e \<and> unat b + unat n = window_end hi e" if "?f e = Some (b, n)" for e b n
    using that w [of e] unat_of_nat_u64 [of "window_start (2 ^ a) lo e"]
      unat_of_nat_u64 [of "window_end hi e - window_start (2 ^ a) lo e"]
    by (auto simp: f fits_def split: if_splits)
  show ?thesis
  proof (cases "first_some ?f (map_entries mm)")
    case None
    then have "\<forall>e \<in> set (map_entries mm). \<not> fits e" unfolding first_some_None by (auto simp: f split: if_splits)
    then show ?thesis using None e820_find_region_eq [OF assms] by (simp add: fits_def Let_def)
  next
    case (Some bn)
    obtain b n where bn: "bn = (b, n)" by (cases bn)
    from Some obtain i where i: "i < length (map_entries mm)" "?f (map_entries mm ! i) = Some (b, n)"
      "\<forall>j<i. ?f (map_entries mm ! j) = None" unfolding first_some_Some bn by blast
    have "fits (map_entries mm ! i)" "\<forall>j<i. \<not> fits (map_entries mm ! j)"
      using i(2,3) by (auto simp: f split: if_splits)
    then show ?thesis
      using i(1) nats [OF i(2)] Some bn e820_find_region_eq [OF assms] by (auto simp: fits_def Let_def)
  qed
qed

text \<open>
  C10. The hole for device registers. With the memory map and an MCFG in place
  \<^verbatim>\<open>find_mmio_hole\<close> returns; the hole lies below 4 GiB, touches no entry of the map,
  neither APIC, nor the HPET, nor the firmware flash, and no free interval below 4 GiB is wider. It
  reports failure exactly when every address below 4 GiB is covered.
\<close>

theorem find_mmio_hole_widest:
  assumes "memory_map k = Some mm" and "map_ok mm" and "RSD_T k \<noteq> 0"
    and "find_table (mem k) (RSD_T k) mcfg_name \<noteq> 0"
  shows "\<exists>hole k'. find_mmio_hole k = Inr (hole, k') \<and>
     (\<Union>e \<in> set (map_entries mm). entry_span e) \<union> device_spans \<subseteq> touched (ranges k') \<and>
     (case hole of
        None \<Rightarrow> {0..<2 ^ 32} \<subseteq> touched (ranges k')
      | Some (b, e) \<Rightarrow> b < e \<and> unat e \<le> 2 ^ 32 \<and> {unat b..<unat e} \<inter> touched (ranges k') = {} \<and>
          (\<forall>x y. x < y \<and> y \<le> 2 ^ 32 \<and> {x..<y} \<inter> touched (ranges k') = {} \<longrightarrow> y - x \<le> unat e - unat b))"
  using find_mmio_hole_sound [OF assms] unfolding hole_of_def by blast

text \<open>
  C9. Initialisation on a well-formed map ends in one of three ways. It halts, because no
  region is large enough or no hole is left. It uses the null pointer, only when there is no MCFG or when
  the low heap fits in a usable entry at address 0, where its structure would be the null pointer. Or
  it succeeds: then the root heap lies behind the kernel image in an entry now reserved, the low heap
  in a usable entry, both below 4 GiB and well formed, and the root heap, the low heap and the bump
  heap's addresses do not overlap.
\<close>

theorem mem_manager_init_layout:
  assumes "map_wf mm" and "RSD_T k \<noteq> 0" and "2560 \<le> unat sz" and "unat sz \<le> 2 ^ 32"
    and "4127 \<le> unat ls" and "unat ls \<le> 2 ^ 32"
  shows "case mem_manager_init sz sectors mm ls k of
      Inl f \<Rightarrow> f = Halted \<or> (f = NullDeref \<and> (find_table (mem k) (RSD_T k) mcfg_name = 0 \<or> usable_at_0 mm ls))
    | Inr k' \<Rightarrow> \<exists>mm' rb lb hr hl hb. rb \<noteq> 0 \<and> lb \<noteq> 0 \<and> memory_map k' = Some mm' \<and> root_heap k' = Some hr \<and> low_heap k' = Some hl \<and>
        bump_heap k' = Some hb \<and> root_placed (KERNEL_START + ucast (sectors * 512)) sz mm' rb hr \<and>
        low_placed mm' lb hl \<and> bump_placed mm' hb \<and> footprint rb hr \<inter> footprint lb hl = {}"
proof -
  let ?ke = "KERNEL_START + ucast (sectors * 512) :: u64"
  let ?tot = "sizeof_heap + sizeof_allocation * (sz div 512) + 0xFFF + sz"
  note mok = map_wfD(1) [OF assms(1)]
  have "unat (sectors * 512) < 2 ^ 32" using unsigned_less [of "sectors * 512", where ?'a = nat] by simp
  then have ke: "unat ?ke \<le> 2 ^ 33" unfolding kernel_end_bound by simp
  obtain ch where ch: "choose_root mm ?ke ?tot 0 = Inr ch" using choose_root_eq [OF mok] by blast
  show ?thesis
  proof (cases ch)
    case None
    then show ?thesis using ch by (simp add: mem_manager_init_def Let_def)
  next
    case (Some c)
    obtain i start where c: "c = (i, start)" by (cases c)
    note rt = init_root_placed [OF assms(1,4) ch [unfolded Some c] ke]
    define h where "h = root_heap_at start sz"
    define mm' where "mm' = reserve_root mm i (start_addr h + sz)"
    define k2 where "k2 = init_root sz mm i start (k\<lparr>memory_map := Some mm\<rparr>)"
    obtain p h1 q h2 where req: "alloc h sizeof_e820_map = Inr (p, h1)" "p \<noteq> 0"
      "alloc h1 sizeof_bump_heap = Inr (q, h2)" "q \<noteq> 0" "root_placed ?ke sz mm' start h2"
      using root_requests [OF assms(3,4) rt(3,2)] unfolding h_def mm'_def by blast
    have k2: "root_heap k2 = Some h" "memory_map k2 = Some mm'" "mem k2 = mem k" "RSD_T k2 = RSD_T k"
      by (simp_all add: k2_def init_root_def h_def mm'_def say_defs Let_def)
    define k3 where "k3 = k2\<lparr>root_heap := Some h1\<rparr>"
    have run: "mem_manager_init sz sectors mm ls k = init_low_and_bump ls k3"
      using ch kalloc_root [OF k2(1) req(1)] req(2)
      by (simp add: mem_manager_init_def Let_def Some c k2_def [symmetric] k3_def)
    have mok': "map_ok mm'" using rt(1) by (simp only: mm'_def h_def)
    have mm3: "memory_map k3 = Some mm'" using k2 by (simp add: k3_def)
    have start: "start \<noteq> 0"
      using req(5) kernel_end_bound [of "sectors * 512"] by (auto simp: root_placed_def)
    consider k4 where "low_heap_init ls k3 = Inr (False, k4)" | "low_heap_init ls k3 = Inl NullDeref" "usable_at_0 mm' ls"
      | k4 lb hl where "low_heap_init ls k3 = Inr (True, k4)" "lb \<noteq> 0" "low_heap k4 = Some hl"
        "low_placed mm' lb hl" "mem k4 = mem k" "RSD_T k4 = RSD_T k" "memory_map k4 = Some mm'" "root_heap k4 = Some h1"
      using init_low_placed [OF mm3 mok' assms(5,6)] k2 by (auto simp: k3_def)
    then show ?thesis
    proof cases
      case 1
      then show ?thesis by (simp add: run init_low_and_bump_def)
    next
      case 2
      then show ?thesis using rt(4) by (simp add: run init_low_and_bump_def mm'_def h_def)
    next
      case k4: (3 k4 lb hl)
      have "RSD_T k4 \<noteq> 0" using k4(6) assms(2) by simp
      note b = init_bump_placed [OF k4(7,8) mok' this req(3,4)]
      have "footprint start h2 \<inter> footprint lb hl = {}"
        using req(5) k4(4) unfolding root_placed_def low_placed_def by blast
      then show ?thesis
        using b req(5) k4 start by (auto simp: run init_low_and_bump_def split: sum.splits)
    qed
  qed
qed

text \<open>
  C12. The low heap is placed without regard to the kernel. When the usable entry that
  holds the kernel image (it starts at 1 MiB) is the first one with enough room, the low heap starts
  at its base and covers the address the kernel was loaded to.
\<close>

theorem low_heap_covers_kernel:
  assumes mm: "memory_map k = Some mm" "map_ok mm" "map_entries mm = pre @ e # post"
    and pre: "\<forall>e' \<in> set pre. e_type e' \<noteq> E820_USABLE \<or> unat (e_length e') < unat ls"
    and e: "e_type e = E820_USABLE" "e_base e = 0x100000" "unat ls \<le> unat (e_length e)" "unat (e_length e) \<le> 2 ^ 31"
    and ls: "0x22000 \<le> unat ls"
  shows "\<exists>h k'. low_heap_init ls k = Inr (True, k') \<and> low_heap k' = Some h \<and>
           unat KERNEL_START \<in> footprint 0x100000 h"
proof -
  let ?fit = "e820_fit E820_USABLE ls 0 0xFFFFFFFF (2 ^ 12)"
  have small: "?fit e' = None" if "e' \<in> set pre" for e'
  proof -
    have "window_end 0xFFFFFFFF e' - window_start (2 ^ 12) 0 e' \<le> unat (e_length e')"
      using ceil_to_bounds(1) [of "2 ^ 12" "unat (e_base e')"] by (simp add: window_end_def window_start_def)
    moreover have "e_type e' \<noteq> E820_USABLE \<or> unat (e_length e') < unat ls" using pre that by blast
    ultimately show ?thesis by (subst e820_fit_eq) auto
  qed
  have w: "window_start (2 ^ 12) 0 e = 0x100000" "window_end 0xFFFFFFFF e = 0x100000 + unat (e_length e)"
    using e(2,4) by (simp_all add: window_start_def window_end_def ceil_to_def)
  have "?fit e = Some (0x100000, word_of_nat (unat (e_length e)))"
    using e(1,3) ls by (subst e820_fit_eq) (simp_all add: w [simplified])
  moreover have "first_some ?fit (pre @ e # post) = first_some ?fit (e # post)"
    using small by (induction pre) simp_all
  ultimately have found: "e820_find_region E820_USABLE ls 0 0xFFFFFFFF 0x1000 k =
      Inr (Some (0x100000, word_of_nat (unat (e_length e))))"
    using e820_find_region_eq [OF mm(1,2), of 12 E820_USABLE ls 0 "0xFFFFFFFF"] by (simp add: mm(3))
  have "4127 \<le> unat ls" "unat ls \<le> 2 ^ 32" "unat (0x100000 :: u64) \<le> 2 ^ 32" "(0x100000 :: u64) \<noteq> 0" using ls e(3,4) by simp_all
  from low_heap_layout [OF found this] obtain h k' where h: "low_heap_init ls k = Inr (True, k')" "low_heap k' = Some h"
    "heap_inv h" "unat (0x100000 :: u64) + 32 + 12 * length (blocks h) \<le> unat (start_addr h)"
    "length (blocks h) = (unat ls - 4127) div 524" "block_size h = 512" by blast
  have "length (blocks h) * 512 \<le> unat (max_size h)" using heap_invD(5) [OF h(3)] by (simp add: h(6))
  moreover have "unat ls - 4127 < 524 * (length (blocks h) + 1)" 
    using dividend_less_times_div [of 524 "unat ls - 4127"] by (simp add: h(5))
  ultimately have "0x120000 < unat (start_addr h) + unat (max_size h)" using h(4) ls by simp
  then show ?thesis using h(1,2) by (intro exI [of _ h] exI [of _ k']) (simp add: footprint_def KERNEL_START_def)
qed

text \<open>The configuration space that an MCFG with one entry describes. The entry is behind the header and eight
  reserved bytes.\<close>

definition configuration_space :: "memory \<Rightarrow> u64 \<Rightarrow> nat set" where
  "configuration_space m t =
     {unat (read_u64 m (t + 44)) + 2 ^ 20 * unat (m (t + 54))..<
      unat (read_u64 m (t + 44)) + 2 ^ 20 * (unat (m (t + 55)) + 1)}"

text \<open>The range that is recorded instead: it starts and ends at megabytes numbered by bytes 2 and 3 of the base address.\<close>

lemma misread_range:
  assumes "read_u64 m (t + 36) = 0"
  shows "unat (ecam_base m (mcfg_entry_addr t 0)) = 2 ^ 20 * (unat (read_u64 m (t + 44)) div 2 ^ 16 mod 256)"
    and "unat (ecam_end m (mcfg_entry_addr t 0)) = 2 ^ 20 * (unat (read_u64 m (t + 44)) div 2 ^ 24 mod 256 + 1)"
proof -
  let ?B = "read_u64 m (t + 44)"
  have byte: "unat b = unat ?B div 2 ^ n mod 256" if "drop_bit n ?B AND mask 8 = ucast b" for n and b :: u8
  proof -
    have "unat (ucast b :: u64) = take_bit 8 (drop_bit n (unat ?B))"
      unfolding that [symmetric] by (simp only: take_bit_eq_mask [symmetric] unsigned_take_bit_eq unat_drop_bit_eq)
    moreover have "unat (ucast b :: u64) = unat b"
      using unsigned_less [of b, where ?'a = nat] by (simp add: unsigned_ucast_eq take_bit_nat_eq_self)
    ultimately show ?thesis by (simp add: take_bit_eq_mod drop_bit_eq_div)
  qed
  have b: "unat (m (t + 46)) = unat ?B div 2 ^ 16 mod 256" "unat (m (t + 47)) = unat ?B div 2 ^ 24 mod 256"
    using byte [OF read_u64_byte2 [of m "t + 44"]] byte [OF read_u64_byte3 [of m "t + 44"]] by (simp_all add: add.assoc)
  have u: "unat (ucast x :: u64) = unat x" and lt: "unat x < 256" for x :: u8
    using unsigned_less [of x, where ?'a = nat] by (simp_all add: unsigned_ucast_eq take_bit_nat_eq_self)
  have "unat (2 ^ 20 * ucast (m (t + 46)) :: u64) = 2 ^ 20 * unat (m (t + 46))"
    using lt [of "m (t + 46)"] by (subst unat_mult_u64) (simp_all add: u)
  then show "unat (ecam_base m (mcfg_entry_addr t 0)) = 2 ^ 20 * (unat ?B div 2 ^ 16 mod 256)"
    using assms by (simp add: ecam_base_def mcfg_entry_addr_def rsdt_header_size_def add.assoc push_bit_eq_mult b(1) mult.commute)
  have "unat (ucast (m (t + 47)) + 1 :: u64) = unat (m (t + 47)) + 1"
    using lt [of "m (t + 47)"] by (subst unat_add_u64) (simp_all add: u)
  then have "unat (2 ^ 20 * (ucast (m (t + 47)) + 1) :: u64) = 2 ^ 20 * (unat (m (t + 47)) + 1)"
    using lt [of "m (t + 47)"] by (subst unat_mult_u64) simp_all
  then show "unat (ecam_end m (mcfg_entry_addr t 0)) = 2 ^ 20 * (unat ?B div 2 ^ 24 mod 256 + 1)"
    using assms by (simp add: ecam_end_def mcfg_entry_addr_def rsdt_header_size_def add.assoc push_bit_eq_mult b(2) mult.commute)
qed

text \<open>
  C13. The hole for device registers does not avoid the configuration space of PCI Express. The MCFG is read at the
  wrong offset: its entry is taken to start right behind the header, where the table has eight reserved bytes. With these
  zero, as they are required to be, what \<^verbatim>\<open>find_mmio_hole\<close> records beside the map and the fixed
  devices is one range below 256 MiB, between the megabytes numbered by bytes 2 and 3 of the real base address. No byte of
  the configuration space, which lies at 256 MiB or above, is in it; so the search keeps away from the configuration space only
  as far as the memory map happens to list it.
\<close>

theorem mcfg_range_misplaced:
  assumes mm: "memory_map k = Some mm" "map_ok mm" and acpi: "RSD_T k \<noteq> 0"
    and t: "find_table (mem k) (RSD_T k) mcfg_name = t" "t \<noteq> 0" "mcfg_count (mem k) t = 1"
    and z: "read_u64 (mem k) (t + 36) = 0" and B: "2 ^ 28 \<le> unat (read_u64 (mem k) (t + 44))"
  shows "\<exists>hole k' w. find_mmio_hole k = Inr (hole, k') \<and>
     touched (ranges k') = (\<Union>e \<in> set (map_entries mm). entry_span e) \<union> device_spans \<union> w \<and>
     w = {2 ^ 20 * (unat (read_u64 (mem k) (t + 44)) div 2 ^ 16 mod 256)..<
          2 ^ 20 * (unat (read_u64 (mem k) (t + 44)) div 2 ^ 24 mod 256 + 1)} \<and>
     w \<inter> configuration_space (mem k) t = {} \<and>
     touched (ranges k') \<inter> configuration_space (mem k) t \<subseteq> (\<Union>e \<in> set (map_entries mm). entry_span e) \<union> device_spans"
proof -
  let ?a = "mcfg_entry_addr t 0" and ?B = "unat (read_u64 (mem k) (t + 44))"
  let ?w = "{2 ^ 20 * (?B div 2 ^ 16 mod 256)..<2 ^ 20 * (?B div 2 ^ 24 mod 256 + 1)}"
  define rs where "rs = fixed_ranges (map_ranges mm)"
  define k2 where "k2 = mcfg_ranges t (mcfg_count (mem k) t) 0 (k\<lparr>ranges := rs\<rparr>)"
  note run = find_mmio_hole_eq [OF mm acpi t(1,2) k2_def [unfolded rs_def]]
  have "length (map_entries mm) \<le> 64" using mm(2) by (simp add: map_ok_def)
  then have m: "touched (map_ranges mm) = (\<Union>e \<in> set (map_entries mm). entry_span e)" "length (map_ranges mm) \<le> 64"
    using fold_range_add [of "[]" "map_entries mm"] by (simp_all add: map_ranges_def)
  have "length rs \<le> Suc (Suc (Suc (Suc (length (map_ranges mm)))))"
    unfolding rs_def fixed_ranges_def by (rule order_trans [OF length_range_add(2)], simp only: Suc_le_mono)+
  then have len: "length rs < 72" using m(2) by simp
  have "ranges k2 = range_add (ecam_base (mem k) ?a) (ecam_end (mem k) ?a) rs"
    by (simp add: k2_def t(3) mcfg_ranges.simps [of _ 1] Let_def say_defs)
  then have "touched (ranges k2) = touched rs \<union> {unat (ecam_base (mem k) ?a)..<min (unat (ecam_end (mem k) ?a)) (2 ^ 32)}"
    using touched_range_add [OF len] by simp
  moreover have top: "2 ^ 20 * (?B div 2 ^ 24 mod 256 + 1) \<le> 2 ^ 28" by (simp add: Suc_leI)
  ultimately have "touched (ranges k2) = touched rs \<union> ?w" by (simp add: misread_range [OF z] min_def)
  moreover have "touched rs = (\<Union>e \<in> set (map_entries mm). entry_span e) \<union> device_spans"
    using fixed_ranges_touched [of "map_ranges mm"] m by (simp add: rs_def)
  moreover have "?w \<inter> configuration_space (mem k) t = {}"
    using top B by (auto simp: configuration_space_def)
  ultimately show ?thesis using run by (intro exI conjI) (assumption, auto simp: sort_ranges_sorted)
qed

section \<open>Witnesses\<close>

text \<open>A machine with usable memory up to 2 GiB, and an RSDT at 0x1000 whose only table is an MCFG
  at 0x2000 with one entry: bus 0 to 255 at 0xE0000000.\<close>

definition demo_map :: e820_map where
  "demo_map = \<lparr>e_count = 2,
     e_entries = [\<lparr>e_base = 0x1000, e_length = 0x9EC00, e_type = 1, e_attributes = 1\<rparr>,
                  \<lparr>e_base = 0x100000, e_length = 0x7EF00000, e_type = 1, e_attributes = 1\<rparr>] @
       \<lparr>e_base = 0, e_length = 0, e_type = 0, e_attributes = 0\<rparr> #
       replicate 61 \<lparr>e_base = 0, e_length = 0, e_type = 0, e_attributes = 0\<rparr>\<rparr>"

definition demo :: manager where
  "demo = \<lparr>mem = (\<lambda>_. 0)(0x1004 := 40, 0x1025 := 0x20, 0x2000 := 77, 0x2001 := 67, 0x2002 := 70,
                           0x2003 := 71, 0x2004 := 60, 0x202F := 0xE0, 0x2037 := 255),
           console = [], trace = [], RSD_T = 0x1000, memory_map = Some demo_map, ranges = [],
           root_heap = None, low_heap = None, bump_heap = None\<rparr>"

lemma demo_entries: "map_entries demo_map =
  [\<lparr>e_base = 0x1000, e_length = 0x9EC00, e_type = 1, e_attributes = 1\<rparr>,
   \<lparr>e_base = 0x100000, e_length = 0x7EF00000, e_type = 1, e_attributes = 1\<rparr>]"
  by (simp add: map_entries_def demo_map_def)

lemma demo_map_ok: "map_ok demo_map"
  by (simp add: map_ok_def demo_map_def)

lemma demo_map_wf: "map_wf demo_map"
  using demo_map_ok by (simp add: map_wf_def demo_entries entry_bytes_def)

lemma demo_table: "find_table (mem demo) (RSD_T demo) mcfg_name = 0x2000"
proof -
  have "rsdt_count (mem demo) (RSD_T demo) = 1"
    by (simp add: demo_def rsdt_count_def table_length_def rsdt_header_size_def read_u32_def read_u16_def)
  moreover have "rsdt_entry (mem demo) (RSD_T demo) 0 = 0x2000"
    by (simp add: demo_def rsdt_entry_def rsdt_header_size_def read_u32_def read_u16_def)
  moreover have "table_name (mem demo) 0x2000 = mcfg_name"
    by (simp add: demo_def table_name_def bytes_def upt_rec mcfg_name_def char_bytes_def)
  ultimately show ?thesis by (simp add: find_table_def rsdt_entries_def)
qed

lemma e820_find_region_first_witness:
  "\<exists>base n. e820_find_region E820_USABLE 0x200000 0 0xFFFFFFFF (2 ^ 12) demo = Inr (Some (base, n)) \<and>
     unat base = 0x100000 \<and> unat base + unat n = 0x7F000000"
proof -
  have "memory_map demo = Some demo_map" by (simp add: demo_def)
  from e820_find_region_first [OF this demo_map_ok, of 12 E820_USABLE "0x200000" 0 "0xFFFFFFFF"] show ?thesis
    by (auto simp: demo_entries E820_USABLE_def window_start_def window_end_def ceil_to_def Let_def
        Ex_less_Suc2 split: option.splits)
qed

lemma demo_choose: "choose_root demo_map (KERNEL_START + ucast ((8 :: u32) * 512))
    (sizeof_heap + sizeof_allocation * (2560 div 512) + 0xFFF + 2560) 0 = Inr (Some (1, 0x121000))"
  using choose_root_eq [OF demo_map_ok, of _ _ 0]
  by (simp add: demo_map_def upt_rec root_fit_def E820_USABLE_def
      KERNEL_START_def sizeof_heap_def sizeof_allocation_def align_up_def FOUR_GIB_def Let_def)

lemma demo_root: "start_addr (root_heap_at 0x121000 2560) = 0x122000"
  by (simp add: root_heap_at_def sizeof_heap_def sizeof_allocation_def align_up_def)

definition demo_map' :: e820_map where
  "demo_map' = reserve_root demo_map 1 0x122A00"

lemma demo_map'_entries: "map_entries demo_map' =
  [\<lparr>e_base = 0x1000, e_length = 0x9EC00, e_type = 1, e_attributes = 1\<rparr>,
   \<lparr>e_base = 0x100000, e_length = 0x22A00, e_type = 2, e_attributes = 1\<rparr>,
   \<lparr>e_base = 0x122A00, e_length = 0x7EEDD600, e_type = 1, e_attributes = 1\<rparr>]"
  by (simp add: map_entries_def demo_map'_def demo_map_def reserve_root_def Let_def E820_RESERVED_def E820_USABLE_def
     E820_MAX_ENTRIES_def)

lemma demo_hole_ranges: "map_ranges demo_map' =
  [\<lparr>r_base = 0x1000, r_end = 0x9FC00\<rparr>, \<lparr>r_base = 0x100000, r_end = 0x122A00\<rparr>, \<lparr>r_base = 0x122A00, r_end = 0x7F000000\<rparr>]"
  by (simp add: map_ranges_def demo_map'_entries range_add_def FOUR_GIB_def MAX_RANGES_def)

definition demo_ranges :: "mem_range list" where
  "demo_ranges = [\<lparr>r_base = 0x1000, r_end = 0x9FC00\<rparr>, \<lparr>r_base = 0x100000, r_end = 0x122A00\<rparr>, \<lparr>r_base = 0x122A00, r_end = 0x7F000000\<rparr>,
   \<lparr>r_base = 0xFEC00000, r_end = 0xFEC01000\<rparr>, \<lparr>r_base = 0xFED00000, r_end = 0xFED00400\<rparr>,
   \<lparr>r_base = 0xFEE00000, r_end = 0xFEE01000\<rparr>, \<lparr>r_base = 0xFFC00000, r_end = 0x100000000\<rparr>, \<lparr>r_base = 0, r_end = 0xE100000\<rparr>]"

lemma demo_sorted: "sort_ranges demo_ranges = [\<lparr>r_base = 0, r_end = 0xE100000\<rparr>, \<lparr>r_base = 0x1000, r_end = 0x9FC00\<rparr>, \<lparr>r_base = 0x100000, r_end = 0x122A00\<rparr>, \<lparr>r_base = 0x122A00, r_end = 0x7F000000\<rparr>,
   \<lparr>r_base = 0xFEC00000, r_end = 0xFEC01000\<rparr>, \<lparr>r_base = 0xFED00000, r_end = 0xFED00400\<rparr>,
   \<lparr>r_base = 0xFEE00000, r_end = 0xFEE01000\<rparr>, \<lparr>r_base = 0xFFC00000, r_end = 0x100000000\<rparr>]"
  by code_simp

lemma demo_gap: "widest_gap (sort_ranges demo_ranges) = Some (0x7F000000, 0xFEC00000)"
  by (simp add: demo_sorted widest_gap_def gap_step_def FOUR_GIB_def)

lemma demo_mcfg:
  assumes "mem k = mem demo"
  shows "mcfg_count (mem k) 0x2000 = 1" "ranges (mcfg_ranges 0x2000 1 0 k) = range_add 0 0xE100000 (ranges k)"
proof -
  show "mcfg_count (mem k) 0x2000 = 1"
    by (simp add: assms demo_def mcfg_count_def table_length_def rsdt_header_size_def read_u32_def read_u16_def)
  have "ecam_base (mem demo) 0x2024 = 0" "ecam_end (mem demo) 0x2024 = 0xE100000"
    by (simp_all add: demo_def ecam_base_def ecam_end_def read_u64_def read_u32_def read_u16_def)
  then show "ranges (mcfg_ranges 0x2000 1 0 k) = range_add 0 0xE100000 (ranges k)"
    by (simp add: mcfg_ranges.simps [of _ 1] mcfg_entry_addr_def rsdt_header_size_def assms Let_def say_defs)
qed
lemma demo_hole:
  assumes "memory_map k = Some demo_map'" and "mem k = mem demo" and "RSD_T k = RSD_T demo"
  shows "\<exists>k'. find_mmio_hole k = Inr (Some (0x7F000000, 0xFEC00000), k') \<and> root_heap k' = root_heap k"
proof -
  have "map_ok demo_map'" by (simp add: map_ok_def demo_map'_def reserve_root_def demo_map_def Let_def E820_MAX_ENTRIES_def)
  moreover have "RSD_T k \<noteq> 0" using assms(3) by (simp add: demo_def)
  moreover have "find_table (mem k) (RSD_T k) mcfg_name = 0x2000" using demo_table assms(2,3) by simp
  moreover define k2 where "k2 = mcfg_ranges 0x2000 (mcfg_count (mem k) 0x2000) 0 (k\<lparr>ranges := fixed_ranges (map_ranges demo_map')\<rparr>)"
  ultimately have run: "find_mmio_hole k = Inr (widest_gap (sort_ranges (ranges k2)), k2\<lparr>ranges := sort_ranges (ranges k2)\<rparr>)"
    using find_mmio_hole_eq [OF assms(1)] by simp
  have "ranges k2 = range_add 0 0xE100000 (fixed_ranges (map_ranges demo_map'))"
    using demo_mcfg [of "k\<lparr>ranges := fixed_ranges (map_ranges demo_map')\<rparr>"] assms(2) by (simp add: k2_def)
  also have "\<dots> = demo_ranges"
    by (simp add: demo_hole_ranges demo_ranges_def fixed_ranges_def range_add_def FOUR_GIB_def MAX_RANGES_def)
  finally have "widest_gap (sort_ranges (ranges k2)) = Some (0x7F000000, 0xFEC00000)" by (simp only: demo_gap)
  moreover have "root_heap k2 = root_heap k"
  proof -
    have "\<forall>r \<in> set (fixed_ranges (map_ranges demo_map')). recorded r"
      unfolding map_ranges_def by (intro fixed_ranges_recorded fold_range_add_recorded) simp
    then show ?thesis using mcfg_ranges_keeps [of "k\<lparr>ranges := fixed_ranges (map_ranges demo_map')\<rparr>"] by (simp add: k2_def)
  qed
  ultimately show ?thesis using run by simp
qed

lemma demo_init: "\<exists>k'. mem_manager_init 2560 8 demo_map 8192 demo = Inr k'"
proof -
  define h where "h = root_heap_at 0x121000 2560"
  define k2 where "k2 = init_root 2560 demo_map 1 0x121000 (demo\<lparr>memory_map := Some demo_map\<rparr>)"
  have sz: "2560 \<le> unat (2560 :: u64)" "unat (2560 :: u64) \<le> 2 ^ 32"
    "unat (KERNEL_START + ucast ((8 :: u32) * 512) :: u64) \<le> 2 ^ 33" by (simp_all add: KERNEL_START_def)
  note rt = init_root_placed [OF demo_map_wf sz(2) demo_choose sz(3)]
  have mm': "reserve_root demo_map 1 (start_addr h + 2560) = demo_map'"
    by (simp add: h_def demo_root demo_map'_def)
  obtain p h1 q h2 where req: "alloc h sizeof_e820_map = Inr (p, h1)" "p \<noteq> 0"
    "alloc h1 sizeof_bump_heap = Inr (q, h2)" "q \<noteq> 0"
    by (rule root_requests [OF sz(1,2) rt(3,2), folded h_def]) (rule that)
  have k2: "root_heap k2 = Some h" "memory_map k2 = Some demo_map'" "mem k2 = mem demo" "RSD_T k2 = RSD_T demo"
    by (simp_all add: k2_def init_root_def h_def [symmetric] mm' say_defs Let_def)
  define k3 where "k3 = k2\<lparr>root_heap := Some h1\<rparr>"
  have run: "mem_manager_init 2560 8 demo_map 8192 demo = init_low_and_bump 8192 k3"
    using demo_choose kalloc_root [OF k2(1) req(1)] req(2)
    by (simp add: mem_manager_init_def Let_def k2_def [symmetric] k3_def)
  have mok: "map_ok demo_map'" using rt(1) by (simp only: mm' h_def [symmetric])
  have mm3: "memory_map k3 = Some demo_map'" using k2 by (simp add: k3_def)
  have "e820_find_region E820_USABLE 8192 0 0xFFFFFFFF (2 ^ 12) k3 = Inr (Some (0x1000, 0x9EC00))"
    by (subst e820_find_region_eq [OF mm3 mok], simp)
      (simp add: demo_map'_entries e820_fit_def E820_USABLE_def align_up_def Let_def)
  then obtain k4 where k4: "low_heap_init 8192 k3 = Inr (True, k4)"
    by (simp add: low_heap_init_def Let_def)
  have "memory_map k4 = Some demo_map'" "mem k4 = mem demo" "RSD_T k4 = RSD_T demo" "root_heap k4 = Some h1"
    using init_low_placed [OF mm3 mok, of 8192] k4 k2 by (auto simp: k3_def)
  with demo_hole [of k4] obtain k5 where k5: "find_mmio_hole k4 = Inr (Some (0x7F000000, 0xFEC00000), k5)"
    "root_heap k5 = Some h1" by auto
  have "root_heap (say_hex64LN 0xFEC00000 (say ''MMIO hole end: '' (say_hex64LN 0x7F000000 (say ''MMIO hole start: '' k5)))) = Some h1"
    using k5(2) by (simp add: say_defs)
  from kalloc_root [OF this req(3)] show ?thesis
    using k4 k5(1) req(4) by (simp add: run init_low_and_bump_def init_bump_def)
qed

lemma mem_manager_init_layout_witness:
  "\<exists>k' mm' rb lb hr hl hb. mem_manager_init 2560 8 demo_map 8192 demo = Inr k' \<and> rb \<noteq> 0 \<and> lb \<noteq> 0 \<and>
     memory_map k' = Some mm' \<and> root_heap k' = Some hr \<and> low_heap k' = Some hl \<and> bump_heap k' = Some hb \<and>
     root_placed (KERNEL_START + ucast ((8 :: u32) * 512)) 2560 mm' rb hr \<and>
     low_placed mm' lb hl \<and> bump_placed mm' hb \<and> footprint rb hr \<inter> footprint lb hl = {}"
proof -
  obtain k' where k': "mem_manager_init 2560 8 demo_map 8192 demo = Inr k'" using demo_init by blast
  have "RSD_T demo \<noteq> 0" by (simp add: demo_def)
  from mem_manager_init_layout [OF demo_map_wf this, of 2560 8192 8] k' show ?thesis by simp
qed

lemma find_mmio_hole_widest_witness:
  "\<exists>k'. find_mmio_hole (demo\<lparr>memory_map := Some demo_map'\<rparr>) = Inr (Some (0x7F000000, 0xFEC00000), k') \<and>
     {0x7F000000..<0xFEC00000} \<inter> touched (ranges k') = {} \<and> device_spans \<subseteq> touched (ranges k') \<and>
     (\<forall>x y. x < y \<and> y \<le> 2 ^ 32 \<and> {x..<y} \<inter> touched (ranges k') = {} \<longrightarrow> y - x \<le> 0x7FC00000)"
proof -
  let ?k = "demo\<lparr>memory_map := Some demo_map'\<rparr>"
  obtain k' where k': "find_mmio_hole ?k = Inr (Some (0x7F000000, 0xFEC00000), k')"
    using demo_hole [of ?k] by auto
  have "memory_map ?k = Some demo_map'" "RSD_T ?k \<noteq> 0" "find_table (mem ?k) (RSD_T ?k) mcfg_name \<noteq> 0"
    using demo_table by (simp_all add: demo_def)
  moreover have "map_ok demo_map'"
    by (simp add: map_ok_def demo_map'_def reserve_root_def demo_map_def Let_def E820_MAX_ENTRIES_def)
  ultimately show ?thesis using find_mmio_hole_widest [of ?k demo_map'] k' by auto
qed

lemma low_heap_covers_kernel_witness:
  "\<exists>h k'. low_heap_init 0x40000000 demo = Inr (True, k') \<and> low_heap k' = Some h \<and>
     unat KERNEL_START \<in> footprint 0x100000 h"
proof -
  have "memory_map demo = Some demo_map" by (simp add: demo_def)
  from low_heap_covers_kernel [OF this demo_map_ok, of "take 1 (map_entries demo_map)" "map_entries demo_map ! 1" "[]"]
  show ?thesis by (simp add: demo_entries E820_USABLE_def)
qed

text \<open>On the demonstration machine the hole covers the whole configuration space.\<close>

lemma mcfg_range_misplaced_witness:
  "\<exists>k'. find_mmio_hole (demo\<lparr>memory_map := Some demo_map'\<rparr>) = Inr (Some (0x7F000000, 0xFEC00000), k') \<and>
     configuration_space (mem demo) 0x2000 = {0xE0000000..<0xF0000000} \<and>
     touched (ranges k') \<inter> configuration_space (mem demo) 0x2000 = {}"
proof -
  let ?k = "demo\<lparr>memory_map := Some demo_map'\<rparr>"
  have mm: "memory_map ?k = Some demo_map'" "map_ok demo_map'" "RSD_T ?k \<noteq> 0"
    by (simp_all add: map_ok_def demo_map'_def reserve_root_def demo_map_def Let_def E820_MAX_ENTRIES_def demo_def)
  have t: "find_table (mem ?k) (RSD_T ?k) mcfg_name = 0x2000" "mcfg_count (mem ?k) 0x2000 = 1"
    using demo_table demo_mcfg(1) [of ?k] by simp_all
  have B: "read_u64 (mem demo) (0x2000 + 44) = 0xE0000000" and z: "read_u64 (mem ?k) (0x2000 + 36) = 0"
    by (simp_all add: demo_def read_u64_def read_u32_def read_u16_def)
  have cs: "configuration_space (mem demo) 0x2000 = {0xE0000000..<0xF0000000}"
    using B by (simp add: configuration_space_def) (simp add: demo_def)
  have "(\<Union>e \<in> set (map_entries demo_map'). entry_span e) \<inter> {0xE0000000..<0xF0000000} = {}"
    "device_spans \<inter> {0xE0000000..<0xF0000000} = {}"
    by (auto simp: demo_map'_entries entry_span_def device_spans_def)
  then have none: "((\<Union>e \<in> set (map_entries demo_map'). entry_span e) \<union> device_spans) \<inter> {0xE0000000..<0xF0000000} = {}" by blast
  obtain hole k' where k': "find_mmio_hole ?k = Inr (hole, k')"
    "touched (ranges k') \<inter> configuration_space (mem demo) 0x2000 \<subseteq> (\<Union>e \<in> set (map_entries demo_map'). entry_span e) \<union> device_spans"
    using mcfg_range_misplaced [OF mm t(1) _ t(2) z] B by auto
  moreover have "hole = Some (0x7F000000, 0xFEC00000)" using demo_hole [of ?k] k'(1) by auto
  ultimately show ?thesis using none unfolding cs by blast
qed

end
