(* ===== verification/Kernel_Heap.thy ===== *)
theory Kernel_Heap
  imports Mem_Layout
begin

text \<open>
  What the drivers above the memory manager rely on: \<^verbatim>\<open>kalloc\<close> on a heap with enough
  room returns fresh memory, and \<^verbatim>\<open>kfree\<close> of the latest grant restores the heap.
  \<open>room\<close> counts blocks, so that a series of requests is served when the sum of their blocks fits.
\<close>

section \<open>Room\<close>

definition room :: "heap \<Rightarrow> nat \<Rightarrow> bool" where
  "room h n \<longleftrightarrow> list_ex (\<lambda>s. run_free h s n) [0..<Suc (length (blocks h))]"

lemma room_iff: "room h n \<longleftrightarrow> (\<exists>s. run_free h s n)"
  by (auto simp: room_def list_ex_iff run_free_def simp del: upt_Suc)

lemma room_mono: "room h n \<Longrightarrow> m \<le> n \<Longrightarrow> room h m"
  unfolding room_iff run_free_def blocked_iff by (meson add_le_mono le_trans less_le_trans add_left_mono)

text \<open>A first-fit grant of \<open>m\<close> blocks leaves at least the rest of any free run.\<close>

lemma room_take:
  assumes s: "run_free h s n" and t: "run_free h t m" "t \<le> s" and le: "m \<le> n"
  shows "room (take_run h t m) (n - m)"
proof -
  let ?u = "if t + m \<le> s then s else t + m"
  have len: "t + m \<le> length (blocks h)" using t by (simp add: run_free_def)
  have "run_free (take_run h t m) ?u (n - m)"
    using s t le by (auto simp: run_free_def blocked_iff taken_take [OF len, simplified])
  then show ?thesis by (auto simp: room_iff)
qed

section \<open>Grants\<close>

definition grant :: "heap \<Rightarrow> u64 \<Rightarrow> u64 \<Rightarrow> heap \<Rightarrow> bool" where
  "grant h sz p h' \<longleftrightarrow>
     heap_inv h' \<and> p \<noteq> 0 \<and> free h' p = Inr h \<and> extent p sz \<inter> heap_used h = {} \<and>
     heap_used h \<union> extent p sz \<subseteq> heap_used h' \<and> unat p + unat sz < 2 ^ 64 \<and>
     block_size h' = block_size h \<and> start_addr h' = start_addr h \<and> max_size h' = max_size h \<and>
     (\<exists>s. p = block_addr h s \<and> (s, s + needed_blocks h sz) \<notin> live h \<and>
          live h' = insert (s, s + needed_blocks h sz) (live h))"

lemma grantD:
  assumes "grant h sz p h'"
  shows "heap_inv h'" "p \<noteq> 0" "free h' p = Inr h" "extent p sz \<inter> heap_used h = {}"
    "heap_used h \<subseteq> heap_used h'" "extent p sz \<subseteq> heap_used h'" "unat p + unat sz < 2 ^ 64"
    "block_size h' = block_size h" "start_addr h' = start_addr h" "max_size h' = max_size h"
  using assms by (auto simp: grant_def)

lemma grant_live:
  assumes "grant h sz p h'"
  obtains s where "p = block_addr h s" "(s, s + needed_blocks h sz) \<notin> live h"
    "live h' = insert (s, s + needed_blocks h sz) (live h)"
  using assms by (auto simp: grant_def)

lemma grant_blocks: "grant h sz p h' \<Longrightarrow> needed_blocks h' = needed_blocks h"
  by (rule ext) (simp add: grant_def needed_blocks_def)

lemma grant_addr: "grant h sz p h' \<Longrightarrow> block_addr h' = block_addr h"
  by (rule ext) (simp add: grant_def block_addr_def)

lemma run_grant:
  assumes "heap_inv h" and "size_ok h sz" and "run_free h s (needed_blocks h sz)"
  shows "grant h sz (block_addr h s) (take_run h s (needed_blocks h sz))"
proof -
  let ?n = "needed_blocks h sz" and ?b = "bsz h"
  note n = needed_nat [OF assms(1,2)] and inv = heap_invD [OF assms(1)]
  have len: "s + ?n \<le> length (blocks h)" using assms(3) by (simp add: run_free_def)
  then have addr: "unat (block_addr h s) = unat (start_addr h) + s * ?b"
    by (intro block_addr_nat(1) [OF assms(1)]) simp
  have "unat sz \<le> ?n * ?b" unfolding needed_blocks_def using inv(1) by (intro ceil_mult_bounds(1)) simp
  then have "s * ?b + unat sz \<le> (s + ?n) * ?b" by (simp add: add_mult_distrib)
  also have "\<dots> \<le> length (blocks h) * ?b" using len by (rule mult_le_mono1)
  finally have "unat (block_addr h s) + unat sz < 2 ^ 64" using addr inv(5,6) by linarith
  moreover have "block_addr h s \<noteq> 0" using addr inv(1,7) by (metis add_is_0 le_zero_eq not_one_less_zero unat_0)
  moreover have "(s, s + ?n) \<notin> live h"
  proof
    assume l: "(s, s + ?n) \<in> live h"
    then have "taken (blocks h) s" using live_blocks [OF assms(1) l, of s] n(2) by simp
    then show False using assms(3) n(2) by (auto simp: run_free_def blocked_iff)
  qed
  ultimately show ?thesis
    unfolding grant_def
    using heap_inv_take [OF assms(1,3)] free_take [OF assms(1,3) n(2)] grant_fresh [OF assms(1,3)]
      grant_used [OF assms(1,3)] live_take [OF assms(1,3) n(2)] by auto
qed

lemma alloc_room:
  assumes "heap_inv h" and "size_ok h sz" and "room h n" and "needed_blocks h sz \<le> n"
  obtains p h' where "alloc h sz = Inr (p, h')" and "grant h sz p h'" and "room h' (n - needed_blocks h sz)"
proof -
  obtain s where s: "run_free h s n" using assms(3) by (auto simp: room_iff)
  then have "run_free h s (needed_blocks h sz)"
    using assms(4) by (auto simp: run_free_def blocked_iff)
  from alloc_lowest [OF assms(1,2) this] obtain t where t: "t \<le> s" "run_free h t (needed_blocks h sz)"
    "alloc h sz = Inr (block_addr h t, take_run h t (needed_blocks h sz))" by blast
  show thesis
    by (rule that [OF t(3) run_grant [OF assms(1,2) t(2)] room_take [OF s t(2,1) assms(4)]])
qed

lemma size_ok_small: "sz \<noteq> 0 \<Longrightarrow> unat sz < 2 ^ 63 \<Longrightarrow> size_ok h sz"
  using unsigned_less [of "block_size h", where ?'a = nat] by simp

text \<open>A run that is live can be freed at any time, not only as the latest.\<close>

lemma free_run:
  assumes "heap_inv h" and "(s, e) \<in> live h"
  obtains h' where "free h (block_addr h s) = Inr h'" "heap_inv h'" "live h' = live h - {(s, e)}"
  using free_live [OF assms] live_clear [OF assms] by blast

text \<open>A heap is determined by its live runs.\<close>

lemma heap_inv_length: "heap_inv h \<Longrightarrow> length (blocks h) = unat (max_size h) div bsz h"
  by (simp add: heap_inv_def)

lemma live_taken:
  assumes "heap_inv h"
  shows "taken (blocks h) k \<longleftrightarrow> (\<exists>(s, e) \<in> live h. s \<le> k \<and> k < e)"
proof
  assume k: "taken (blocks h) k"
  have "(unat (start_block (blocks h ! k)), unat (end_block (blocks h ! k))) \<in> live h"
    using k live_iff by blast
  moreover note entry_taken(1,2) [OF heap_invD(3) [OF assms] k]
  ultimately show "\<exists>(s, e) \<in> live h. s \<le> k \<and> k < e" by auto
qed (use live_blocks [OF assms] in auto)

lemma heap_eqI:
  assumes inv: "heap_inv h" "heap_inv h'" and same: "block_size h' = block_size h" "start_addr h' = start_addr h"
    "max_size h' = max_size h" "live h' = live h"
  shows "h' = h"
proof -
  have len: "length (blocks h') = length (blocks h)" using inv same by (simp add: heap_inv_length)
  have "blocks h' ! k = blocks h ! k" if k: "k < length (blocks h)" for k
  proof (cases "taken (blocks h) k")
    case True
    then obtain s e where l: "(s, e) \<in> live h" "s \<le> k" "k < e" using live_taken [OF inv(1)] by auto
    have "taken (blocks h) k \<and> unat (start_block (blocks h ! k)) = s \<and> unat (end_block (blocks h ! k)) = e"
      by (rule live_blocks [OF inv(1) l])
    moreover have "taken (blocks h') k \<and> unat (start_block (blocks h' ! k)) = s \<and> unat (end_block (blocks h' ! k)) = e"
      using l same(4) by (intro live_blocks [OF inv(2)]) auto
    ultimately show ?thesis
      by (cases "blocks h ! k"; cases "blocks h' ! k") (auto simp: taken_def intro: unat_inject)
  next
    case False
    then have "\<not> taken (blocks h') k" using live_taken inv same(4) by metis
    then show ?thesis
      using False k len entry_free [OF heap_invD(3) [OF inv(1)]] entry_free [OF heap_invD(3) [OF inv(2)]] by metis
  qed
  then have "blocks h' = blocks h" using len by (intro nth_equalityI) simp_all
  then show ?thesis using same by (cases h; cases h') simp
qed

text \<open>The memory of a heap that is not in use; every grant lies in it.\<close>

definition heap_free :: "heap \<Rightarrow> nat set" where
  "heap_free h = {unat (start_addr h)..<unat (start_addr h) + length (blocks h) * bsz h} - heap_used h"

lemma used_in_span:
  assumes "heap_inv h" and "a \<in> heap_used h"
  shows "a \<in> {unat (start_addr h)..<unat (start_addr h) + length (blocks h) * bsz h}"
proof -
  have a: "unat (start_addr h) \<le> a" "(a - unat (start_addr h)) div bsz h < length (blocks h)"
    using assms(2) by (auto simp: heap_used_def taken_def)
  have "a - unat (start_addr h) < length (blocks h) * bsz h"
    using a(2) heap_invD(1) [OF assms(1)] by (simp add: div_less_iff_less_mult)
  then show ?thesis using a(1) by simp
qed

lemma grant_in_free:
  assumes "heap_inv h" and "grant h sz p h'"
  shows "extent p sz \<subseteq> heap_free h" and "heap_free h' \<subseteq> heap_free h"
proof -
  note g = grantD [OF assms(2)]
  have len: "length (blocks h') = length (blocks h)"
    using heap_inv_length [OF assms(1)] heap_inv_length [OF g(1)] g(8,10) by simp
  show "extent p sz \<subseteq> heap_free h"
    using g(4,6) used_in_span [OF g(1)] len g(8,9) by (auto simp: heap_free_def)
  show "heap_free h' \<subseteq> heap_free h" using g(5,8,9) len by (auto simp: heap_free_def)
qed

text \<open>Freeing an older run does not disturb a grant.\<close>

lemma used_by_live:
  assumes "heap_inv h"
  shows "a \<in> heap_used h \<longleftrightarrow> unat (start_addr h) \<le> a \<and>
    (\<exists>(s, e) \<in> live h. s \<le> (a - unat (start_addr h)) div bsz h \<and> (a - unat (start_addr h)) div bsz h < e)"
  by (simp add: heap_used_def live_taken [OF assms])

lemma grant_without:
  assumes inv: "heap_inv h" and se: "(s, e) \<in> live h" and g: "grant h sz p h'"
  shows "free h' (block_addr h s) = Inr (clear_run h' s e)"
    and "grant (clear_run h s e) sz p (clear_run h' s e)"
proof -
  let ?H = "clear_run h s e" and ?H' = "clear_run h' s e" and ?n = "needed_blocks h sz"
  note gd = grantD [OF g]
  obtain t where t: "p = block_addr h t" "(t, t + ?n) \<notin> live h" "live h' = insert (t, t + ?n) (live h)"
    using g by (rule grant_live)
  have se': "(s, e) \<in> live h'" using t(3) se by simp
  show "free h' (block_addr h s) = Inr ?H'"
    using free_live [OF gd(1) se'] grant_addr [OF g] by simp
  note H = live_clear [OF inv se] and H' = live_clear [OF gd(1) se']
  have tl: "(t, t + ?n) \<in> live ?H'" using t se by (auto simp: H'(1))
  have addr: "block_addr ?H' t = p" using t(1) gd(8,9) by (simp add: block_addr_def)
  have "clear_run ?H' t (t + ?n) = ?H"
  proof (rule heap_eqI [OF H(2)])
    show "heap_inv (clear_run ?H' t (t + ?n))" by (rule live_clear(2) [OF H'(2) tl])
    show "live (clear_run ?H' t (t + ?n)) = live ?H"
      using t by (auto simp: live_clear(1) [OF H'(2) tl] H(1) H'(1))
  qed (use gd in simp_all)
  then have free: "free ?H' p = Inr ?H" using free_live [OF H'(2) tl] addr by simp
  have used: "heap_used ?H \<subseteq> heap_used h" "heap_used ?H \<subseteq> heap_used ?H'"
    using t(3) gd(8,9) by (auto simp: used_by_live inv H H' subset_iff)
  have "a \<in> heap_used ?H'" if a: "a \<in> extent p sz" for a
  proof -
    have "a \<in> heap_used h'" "a \<notin> heap_used h" using gd(4,6) a by blast+
    then show ?thesis using gd(8,9) se by (auto simp: used_by_live inv gd(1) H'(1) H'(2))
  qed
  then show "grant ?H sz p ?H'"
    unfolding grant_def using gd used free H'(2) t(2) tl
    by (intro conjI exI [of _ t]) (auto simp: needed_blocks_def block_addr_def t(1,3) H(1) H'(1))
qed

text \<open>A release only adds room.\<close>

lemma room_clear: "room h n \<Longrightarrow> room (clear_run h s e) n"
  unfolding room_iff run_free_def blocked_iff
  by (auto simp: taken_def nth_fill free_entry_def split: if_splits)

text \<open>Three grants, of which the first is freed before the others.\<close>

lemma free_first_of_three:
  assumes inv: "heap_inv h" and g: "grant h a p h1" "grant h1 b q h2" "grant h2 c r h3"
  obtains h4 h5 where "free h3 p = Inr h5" and "grant h b q h4" and "grant h4 c r h5"
    and "\<forall>n. room h3 n \<longrightarrow> room h5 n"
proof -
  obtain s where s: "p = block_addr h s" "live h1 = insert (s, s + needed_blocks h a) (live h)"
      "(s, s + needed_blocks h a) \<notin> live h"
    using g(1) by (rule grant_live) blast
  let ?e = "s + needed_blocks h a"
  have l1: "(s, ?e) \<in> live h1" using s by simp
  have l2: "(s, ?e) \<in> live h2" using g(2) l1 by (auto elim: grant_live)
  have addr: "block_addr h1 s = p" "block_addr h2 s = p"
    using s(1) grant_addr [OF g(1)] grant_addr [OF g(2)] by simp_all
  note w1 = grant_without [OF grantD(1) [OF g(1)] l1 g(2)] and w2 = grant_without [OF grantD(1) [OF g(2)] l2 g(3)]
  have "clear_run h1 s ?e = h"
    using free_live [OF grantD(1) [OF g(1)] l1] grantD(3) [OF g(1)] addr by simp
  then show thesis using w1(2) w2 addr by (intro that [of "clear_run h3 s ?e" "clear_run h2 s ?e"]) (simp_all add: room_clear)
qed

text \<open>The same for the kernel's root heap.\<close>

lemma kalloc_room:
  assumes "root_heap k = Some h" and "heap_inv h" and "size_ok h sz" and "room h n"
    and "needed_blocks h sz \<le> n"
  obtains p h' where "kalloc sz k = Inr (p, k\<lparr>root_heap := Some h'\<rparr>)" and "grant h sz p h'"
    and "room h' (n - needed_blocks h sz)"
  using alloc_room [OF assms(2-5)] kalloc_root [OF assms(1)] by metis

lemma kalloc_first:
  assumes "root_heap k = Some h" and "heap_inv h" and "room h (needed_blocks h sz + n)"
    and "sz \<noteq> 0" and "unat sz < 2 ^ 63"
  obtains p h' where "kalloc sz k = Inr (p, k\<lparr>root_heap := Some h'\<rparr>)" and "grant h sz p h'" and "room h' n"
proof (rule kalloc_room [OF assms(1,2) size_ok_small [OF assms(4,5)] assms(3)])
  fix p h'
  assume "kalloc sz k = Inr (p, k\<lparr>root_heap := Some h'\<rparr>)" "grant h sz p h'"
    "room h' (needed_blocks h sz + n - needed_blocks h sz)"
  then show thesis by (intro that) simp_all
qed simp

text \<open>What is left of the room: for every \<open>n\<close>, if there was room for \<open>n\<close> blocks beside the request, there
  is room for \<open>n\<close> blocks after it.\<close>

definition leaves_room :: "heap \<Rightarrow> nat \<Rightarrow> heap \<Rightarrow> bool" where
  "leaves_room h c h' \<longleftrightarrow> (\<forall>n. room h (c + n) \<longrightarrow> room h' n)"

lemma leaves_roomD: "leaves_room h c h' \<Longrightarrow> room h (c + n) \<Longrightarrow> room h' n"
  by (simp add: leaves_room_def)

lemma leaves_room_trans: "leaves_room h c h1 \<Longrightarrow> leaves_room h1 c' h' \<Longrightarrow> leaves_room h (c + c') h'"
  by (simp add: leaves_room_def add.assoc)

lemma kalloc_leaves:
  assumes "root_heap k = Some h" and "heap_inv h" and "sz \<noteq> 0" and "unat sz < 2 ^ 63"
    and "kalloc sz k = Inr (p, k\<lparr>root_heap := Some h'\<rparr>)"
  shows "leaves_room h (needed_blocks h sz) h'"
  unfolding leaves_room_def
proof (intro allI impI)
  fix n assume "room h (needed_blocks h sz + n)"
  then obtain q h1 where "kalloc sz k = Inr (q, k\<lparr>root_heap := Some h1\<rparr>)" "room h1 n"
    using kalloc_first [OF assms(1,2) _ assms(3,4)] by metis
  moreover from this(1) have "root_heap (k\<lparr>root_heap := Some h1\<rparr>) = root_heap (k\<lparr>root_heap := Some h'\<rparr>)"
    using assms(5) by simp
  ultimately show "room h' n" by simp
qed

lemma kfree_root:
  assumes "root_heap k = Some h'" and "free h' p = Inr h"
  shows "kfree p k = Inr (k\<lparr>root_heap := Some h\<rparr>)"
  using assms by (simp add: kfree_def)

lemma kalloc_0: "root_heap k = Some h \<Longrightarrow> kalloc 0 k = Inr (0, k)"
  by (simp add: kalloc_def alloc_def)

lemma kfree_0: "root_heap k = Some h \<Longrightarrow> kfree 0 k = Inr k"
  by (simp add: kfree_def free_def)

section \<open>Writes inside and outside a grant\<close>

text \<open>A run of memory that ends before the address space does.\<close>

lemma extent_bytes:
  assumes "unat p + n < 2 ^ 64" and "j < n"
  shows "unat (p + word_of_nat j :: u64) = unat p + j"
proof -
  have "unat (word_of_nat j :: u64) = j" using assms by (intro unat_of_nat_u64) linarith
  then show ?thesis using unat_add_u64 [of p "word_of_nat j"] assms by simp
qed

lemma grants_apart:
  assumes "grant h sz p h'" and "grant h' tz q h''"
  shows "extent p sz \<inter> extent q tz = {}"
  using grantD(6) [OF assms(1)] grantD(4) [OF assms(2)] by blast

end
