(* ===== verification/Heap_Sessions.thy ===== *)
theory Heap_Sessions
  imports Kernel_Heap
begin

text \<open>
  Everything a client can do with a heap, as a transition system: requests of either kind and releases, in any
  order. The invariant of its reachable states accounts for every block.
\<close>

section \<open>Sessions\<close>

text \<open>\<open>heap_session h0 gs h\<close>: from the heap \<open>h0\<close> a client reaches \<open>h\<close>, and \<open>gs\<close> are the addresses and sizes
  it has been granted and has not released.\<close>

inductive heap_session :: "heap \<Rightarrow> (u64 \<times> u64) list \<Rightarrow> heap \<Rightarrow> bool" for h0 where
  start: "heap_session h0 [] h0"
| alloc: "heap_session h0 gs h \<Longrightarrow> size_ok h sz \<Longrightarrow> alloc h sz = Inr (p, h') \<Longrightarrow>
    heap_session h0 (if p = 0 then gs else (p, sz) # gs) h'"
| aligned: "heap_session h0 gs h \<Longrightarrow> size_ok h sz \<Longrightarrow> alloc_aligned h sz a = Inr (p, h') \<Longrightarrow>
    heap_session h0 (if p = 0 then gs else (p, sz) # gs) h'"
| release: "heap_session h0 (gs @ (p, sz) # gs') h \<Longrightarrow> free h p = Inr h' \<Longrightarrow> heap_session h0 (gs @ gs') h'"
| release_null: "heap_session h0 gs h \<Longrightarrow> free h 0 = Inr h' \<Longrightarrow> heap_session h0 gs h'"

text \<open>The run of blocks of a grant.\<close>

definition run_of :: "heap \<Rightarrow> u64 \<times> u64 \<Rightarrow> nat \<times> nat" where
  "run_of h g =
     (let s = (unat (fst g) - unat (start_addr h)) div bsz h in (s, s + needed_blocks h (snd g)))"

lemma run_of_addr:
  assumes "heap_inv h" and "s \<le> length (blocks h)"
  shows "run_of h (block_addr h s, sz) = (s, s + needed_blocks h sz)"
  using block_addr_nat(1) [OF assms] heap_invD(1) [OF assms(1)] by (simp add: run_of_def Let_def)

definition same_span :: "heap \<Rightarrow> heap \<Rightarrow> bool" where
  "same_span h h' \<longleftrightarrow> block_size h' = block_size h \<and> start_addr h' = start_addr h \<and> max_size h' = max_size h"

lemma same_spanD:
  assumes "same_span h h'"
  shows "block_addr h' = block_addr h" "needed_blocks h' = needed_blocks h" "run_of h' = run_of h"
  using assms by (auto simp: same_span_def block_addr_def needed_blocks_def run_of_def fun_eq_iff)

text \<open>The invariant: the live runs are those at the start and those of the grants.\<close>

definition accounted :: "heap \<Rightarrow> (u64 \<times> u64) list \<Rightarrow> heap \<Rightarrow> bool" where
  "accounted h0 gs h \<longleftrightarrow>
     heap_inv h \<and> same_span h0 h \<and> distinct (map (run_of h0) gs) \<and> run_of h0 ` set gs \<inter> live h0 = {} \<and>
     live h = live h0 \<union> run_of h0 ` set gs \<and> list_all (\<lambda>g. fst g = block_addr h0 (fst (run_of h0 g))) gs"

lemma accountedD:
  assumes "accounted h0 gs h"
  shows "heap_inv h" "same_span h0 h" "distinct (map (run_of h0) gs)" "run_of h0 ` set gs \<inter> live h0 = {}"
    "live h = live h0 \<union> run_of h0 ` set gs" "g \<in> set gs \<Longrightarrow> fst g = block_addr h0 (fst (run_of h0 g))"
  using assms by (auto simp: accounted_def list_all_iff)

lemma accounted_grant:
  assumes a: "accounted h0 gs h" and s: "run_free h s (needed_blocks h sz)" and sz: "size_ok h sz"
  shows "accounted h0 ((block_addr h s, sz) # gs) (take_run h s (needed_blocks h sz))"
proof -
  note i = accountedD [OF a] and span = same_spanD [OF accountedD(2) [OF a]]
  have n: "0 < needed_blocks h sz" by (rule needed_nat(2) [OF i(1) sz])
  have "s \<le> length (blocks h)" using s by (simp add: run_free_def)
  then have run: "run_of h0 (block_addr h s, sz) = (s, s + needed_blocks h sz)"
    using run_of_addr [OF i(1)] span(3) by simp
  have "\<not> taken (blocks h) s" using s n by (auto simp: run_free_def blocked_iff)
  then have new: "(s, s + needed_blocks h sz) \<notin> live h" using live_taken [OF i(1), of s] n by auto
  have "live (take_run h s (needed_blocks h sz)) = insert (s, s + needed_blocks h sz) (live h)"
    by (rule live_take [OF i(1) s n])
  moreover have "heap_inv (take_run h s (needed_blocks h sz))" by (rule heap_inv_take [OF i(1) s])
  ultimately show ?thesis
    using a new run span(1) by (auto simp: accounted_def same_span_def)
qed

lemma accounted_release:
  assumes a: "accounted h0 (gs @ (p, sz) # gs') h"
  obtains h' where "free h p = Inr h'" and "accounted h0 (gs @ gs') h'"
proof -
  note i = accountedD [OF a] and span = same_spanD [OF accountedD(2) [OF a]]
  obtain s e where r: "run_of h0 (p, sz) = (s, e)" by fastforce
  have se: "(s, e) \<in> live h" using i(5) r by force
  have p: "p = block_addr h s" using i(6) [of "(p, sz)"] r span(1) by simp
  have "free h p = Inr (clear_run h s e)" unfolding p by (rule free_live [OF i(1) se])
  moreover have "accounted h0 (gs @ gs') (clear_run h s e)"
    using a r live_clear [OF i(1) se] by (auto simp: accounted_def same_span_def)
  ultimately show thesis by (rule that)
qed

lemma heap_session_accounted:
  assumes "heap_session h0 gs h" and "heap_inv h0"
  shows "accounted h0 gs h"
  using assms
proof (induction rule: heap_session.induct)
  case start
  then show ?case by (simp add: accounted_def same_span_def)
next
  case (alloc gs h sz p h')
  then show ?case
    using alloc_grantD [OF accountedD(1) [OF alloc.IH] alloc.hyps(2,3)] accounted_grant by auto
next
  case (aligned gs h sz a p h')
  then show ?case
    using alloc_aligned_grantD [OF accountedD(1) [OF aligned.IH] aligned.hyps(2,3)] accounted_grant by auto
next
  case (release gs p sz gs' h h')
  then show ?case by (auto elim: accounted_release)
next
  case (release_null gs h h')
  then show ?case by (simp add: free_def)
qed

section \<open>What the invariant says of memory\<close>

lemma accounted_extent:
  assumes a: "accounted h0 gs h" and g: "(p, sz) \<in> set gs" and x: "x \<in> extent p sz"
  shows "unat (start_addr h) \<le> x" and "fst (run_of h0 (p, sz)) \<le> (x - unat (start_addr h)) div bsz h"
    and "(x - unat (start_addr h)) div bsz h < snd (run_of h0 (p, sz))"
proof -
  note i = accountedD [OF a] and span = same_spanD [OF accountedD(2) [OF a]]
  obtain s e where r: "run_of h0 (p, sz) = (s, e)" by fastforce
  have "(s, e) \<in> live h" using i(5) g r by force
  then have s: "s \<le> length (blocks h)" using live_bounds [OF i(1)] by fastforce
  have p: "p = block_addr h s" using i(6) [OF g] r span(1) by simp
  have "e = s + needed_blocks h sz" using r by (auto simp: run_of_def span(2) Let_def)
  then show "unat (start_addr h) \<le> x" "fst (run_of h0 (p, sz)) \<le> (x - unat (start_addr h)) div bsz h"
    "(x - unat (start_addr h)) div bsz h < snd (run_of h0 (p, sz))"
    using extent_blocks [OF i(1) s, of x sz] x r by (simp_all add: p)
qed

lemma accounted_used:
  assumes a: "accounted h0 gs h" and h0: "heap_inv h0"
  shows "heap_used h0 \<subseteq> heap_used h"
    and "(p, sz) \<in> set gs \<Longrightarrow> extent p sz \<subseteq> heap_used h - heap_used h0"
proof -
  note i = accountedD [OF a]
  have span: "start_addr h = start_addr h0" "bsz h = bsz h0" using i(2) by (auto simp: same_span_def)
  show "heap_used h0 \<subseteq> heap_used h" unfolding subset_iff used_by_live [OF i(1)] used_by_live [OF h0] i(5) span by blast
  assume g: "(p, sz) \<in> set gs"
  obtain s e where r: "run_of h0 (p, sz) = (s, e)" by fastforce
  have l: "(s, e) \<in> live h" "(s, e) \<notin> live h0" using i(4,5) g r by force+
  show "extent p sz \<subseteq> heap_used h - heap_used h0"
  proof
    fix x assume x: "x \<in> extent p sz"
    note b = accounted_extent [OF a g x, unfolded r fst_conv snd_conv]
    have "x \<in> heap_used h" unfolding used_by_live [OF i(1)] using b l(1) by blast
    moreover have "x \<notin> heap_used h0"
    proof
      assume "x \<in> heap_used h0"
      then obtain t f where t: "(t, f) \<in> live h0" "t \<le> (x - unat (start_addr h)) div bsz h" "(x - unat (start_addr h)) div bsz h < f"
        by (auto simp: used_by_live [OF h0] span)
      have "(t, f) \<in> live h" "(s, e) \<noteq> (t, f)" using t(1) i(5) l(2) by auto
      then show False using live_disjoint [OF i(1) l(1)] b t(2,3) by fastforce
    qed
    ultimately show "x \<in> heap_used h - heap_used h0" by blast
  qed
qed

lemma accounted_disjoint:
  assumes "accounted h0 gs h"
  shows "disjoint_grants gs"
proof -
  note i = accountedD [OF assms]
  have "extent p sz \<inter> extent q tz = {}" if g: "(p, sz) \<in> set gs" "(q, tz) \<in> set gs" "run_of h0 (p, sz) \<noteq> run_of h0 (q, tz)" for p sz q tz
  proof (rule ccontr)
    assume "extent p sz \<inter> extent q tz \<noteq> {}"
    then obtain x where x: "x \<in> extent p sz" "x \<in> extent q tz" by blast
    have "run_of h0 (p, sz) \<in> live h" "run_of h0 (q, tz) \<in> live h" using i(5) g by force+
    then show False
      using live_disjoint [OF i(1), of "fst (run_of h0 (p, sz))" "snd (run_of h0 (p, sz))" "fst (run_of h0 (q, tz))" "snd (run_of h0 (q, tz))"]
        accounted_extent [OF assms g(1) x(1)] accounted_extent [OF assms g(2) x(2)] g(3) by auto
  qed
  moreover have "sorted_wrt (\<lambda>g g'. run_of h0 g \<noteq> run_of h0 g') gs"
    using i(3) by (induction gs) auto
  ultimately show ?thesis
    unfolding disjoint_grants_def by (elim sorted_wrt_mono_rel [rotated]) force
qed

section \<open>Properties\<close>

text \<open>
  C6. The heap as a whole. A client that makes requests of either kind and releases what it was granted, in any
  order and number, reaches only heaps that are well formed. All grants it holds are disjoint from each other and from all that was
  in use before, and what was in use still is; any of them can be released at any time, and
  when it has released them all, in whatever order, the heap is exactly the one it started from.
\<close>

theorem heap_session_invariant:
  assumes "heap_session h0 gs h" and "heap_inv h0"
  shows "heap_inv h \<and> heap_used h0 \<subseteq> heap_used h \<and> disjoint_grants gs \<and>
     (\<forall>(p, sz) \<in> set gs. extent p sz \<subseteq> heap_used h - heap_used h0 \<and> (\<exists>h'. free h p = Inr h')) \<and>
     (gs = [] \<longrightarrow> h = h0)"
proof -
  have a: "accounted h0 gs h" using assms by (rule heap_session_accounted)
  note i = accountedD [OF a]
  have "\<exists>h'. free h p = Inr h'" if "(p, sz) \<in> set gs" for p sz
    using a split_list [OF that] by (auto elim: accounted_release)
  moreover have "h = h0" if "gs = []"
    using i(2,5) that by (intro heap_eqI [OF assms(2) i(1)]) (simp_all add: same_span_def)
  ultimately show ?thesis
    using i(1) accounted_used [OF a assms(2)] accounted_disjoint [OF a] by blast
qed

text \<open>Two grants, the older one released first.\<close>

theorem heap_session_invariant_witness:
  "\<exists>h1 h2 h3 h4. alloc heap4 100 = Inr (5120, h1) \<and> alloc_aligned h1 512 512 = Inr (5632, h2) \<and>
     disjoint_grants [(5632, 512), (5120, 100)] \<and> free h2 5120 = Inr h3 \<and> free h3 5632 = Inr h4 \<and> h4 = heap4"
proof -
  let ?h1 = "take_run heap4 2 1" and ?h2 = "take_run (take_run heap4 2 1) 3 1"
  have a: "alloc heap4 100 = Inr (5120, ?h1)" "alloc_aligned ?h1 512 512 = Inr (5632, ?h2)" by code_simp+
  have "heap_session heap4 [(5120, 100)] ?h1"
    using heap_session.alloc [OF heap_session.start _ a(1)] by (simp add: heap4_def)
  from heap_session.aligned [OF this _ a(2)] have s2: "heap_session heap4 [(5632, 512), (5120, 100)] ?h2"
    by (simp add: heap4_def)
  obtain h3 where h3: "free ?h2 5120 = Inr h3" using heap_session_invariant [OF s2 heap4_inv] by auto
  have s3: "heap_session heap4 [(5632, 512)] h3"
    using heap_session.release [of heap4 "[(5632, 512)]" 5120 100 "[]", OF _ h3] s2 by simp
  obtain h4 where h4: "free h3 5632 = Inr h4" using heap_session_invariant [OF s3 heap4_inv] by auto
  have "heap_session heap4 [] h4"
    using heap_session.release [of heap4 "[]" 5632 512 "[]", OF _ h4] s3 by simp
  then have "h4 = heap4" using heap_session_invariant [OF _ heap4_inv] by blast
  then show ?thesis using a h3 h4 heap_session_invariant [OF s2 heap4_inv] by blast
qed

end
