(* ===== verification/Disk.thy ===== *)
theory Disk
  imports Mem_Manager
begin

text \<open>
  The data of the disk drivers (\<^verbatim>\<open>drivers/disk/common.h\<close> and the headers of the two
  drivers), the hardware they talk to, and runs of bytes in memory.
\<close>

section \<open>Data\<close>

datatype disk_type = DISK_NONE | DISK_ATA | DISK_SATA

text \<open>\<^verbatim>\<open>SATA_port_data_t\<close>; its pointers are addresses in byte memory.\<close>

record sata_port_data =
  cmd_list :: u64
  fis_area :: u64
  cmd_tables :: u64
  command_slots :: u64

text \<open>What \<^verbatim>\<open>driver_data\<close> points to, by the driver that owns the disk.\<close>

datatype driver_data =
    No_driver_data
  | ATA_driver_data (has_LBA48: bool)
  | SATA_driver_data (sata_hba: u64) (sata_port: u64) (sata_data: sata_port_data) (sata_portnum: u8)

record disk_device =
  d_name :: "u8 list"
  d_type :: disk_type
  chann_main :: u32
  chann_sub :: u32
  d_size :: u64
  d_driver :: driver_data

text \<open>What \<^verbatim>\<open>read_disk\<close> is to the file systems: device, sector number, buffer.\<close>

type_synonym 'z reader = "disk_device \<Rightarrow> u32 \<Rightarrow> u64 \<Rightarrow> 'z manager_scheme \<Rightarrow> (bool \<times> 'z manager_scheme) result"

text \<open>The text of a \<^verbatim>\<open>char\<close> array, up to its NUL.\<close>

definition c_string :: "u8 list \<Rightarrow> u8 list result" where
  "c_string bs = (if 0 \<in> set bs then Inr (takeWhile (\<lambda>b. b \<noteq> 0) bs) else Inl OutOfBounds)"

definition sizeof_disk_device :: u64 where "sizeof_disk_device = 72"

section \<open>Hardware\<close>

text \<open>The devices answer port reads and register reads from the history of accesses; a device that
  masters the bus may also have changed memory by the time a register is read.\<close>

record hardware =
  port_in :: ports
  reg_in :: "history \<Rightarrow> memory \<Rightarrow> u64 \<Rightarrow> u32"
  dma :: "history \<Rightarrow> memory \<Rightarrow> memory"

definition k_outb :: "u16 \<Rightarrow> u8 \<Rightarrow> 'z machine_scheme \<Rightarrow> 'z machine_scheme" where
  "k_outb p v k = k\<lparr>trace := outb p v (trace k)\<rparr>"

definition k_outw :: "u16 \<Rightarrow> u16 \<Rightarrow> 'z machine_scheme \<Rightarrow> 'z machine_scheme" where
  "k_outw p v k = k\<lparr>trace := outw p v (trace k)\<rparr>"

definition k_inb :: "hardware \<Rightarrow> u16 \<Rightarrow> 'z machine_scheme \<Rightarrow> u8 \<times> 'z machine_scheme" where
  "k_inb hw p k = (let (v, tr) = inb (port_in hw) p (trace k) in (v, k\<lparr>trace := tr\<rparr>))"

definition k_inw :: "hardware \<Rightarrow> u16 \<Rightarrow> 'z machine_scheme \<Rightarrow> u16 \<times> 'z machine_scheme" where
  "k_inw hw p k = (let (v, tr) = inw (port_in hw) p (trace k) in (v, k\<lparr>trace := tr\<rparr>))"

definition reg_read :: "hardware \<Rightarrow> u64 \<Rightarrow> 'z machine_scheme \<Rightarrow> u32 \<times> 'z machine_scheme" where
  "reg_read hw a k =
     (let m = dma hw (trace k) (mem k); v = reg_in hw (trace k) m a in
      (v, k\<lparr>mem := m, trace := RegR a v # trace k\<rparr>))"

definition reg_write :: "u64 \<Rightarrow> u32 \<Rightarrow> 'z machine_scheme \<Rightarrow> 'z machine_scheme" where
  "reg_write a v k = k\<lparr>trace := RegW a v # trace k\<rparr>"

text \<open>A read of 16 bits sees the low half of the register.\<close>

definition reg_read16 :: "hardware \<Rightarrow> u64 \<Rightarrow> 'z machine_scheme \<Rightarrow> u16 \<times> 'z machine_scheme" where
  "reg_read16 hw a k =
     (let m = dma hw (trace k) (mem k); v = ucast (reg_in hw (trace k) m a) in
      (v, k\<lparr>mem := m, trace := RegR16 a v # trace k\<rparr>))"

definition reg_write16 :: "u64 \<Rightarrow> u16 \<Rightarrow> 'z machine_scheme \<Rightarrow> 'z machine_scheme" where
  "reg_write16 a v k = k\<lparr>trace := RegW16 a v # trace k\<rparr>"

section \<open>Runs of bytes\<close>

definition store :: "u64 \<Rightarrow> u8 list \<Rightarrow> memory \<Rightarrow> memory" where
  "store a bs m = (\<lambda>x. if unat (x - a) < length bs then bs ! unat (x - a) else m x)"

lemma store_Nil [simp]: "store a [] m = m"
  by (simp add: store_def)

lemma store_in: "k < length bs \<Longrightarrow> k < 2 ^ 64 \<Longrightarrow> store a bs m (a + word_of_nat k) = bs ! k"
  by (simp add: store_def unat_of_nat_u64)

lemma store_out: "length bs \<le> unat (x - a) \<Longrightarrow> store a bs m x = m x"
  by (simp add: store_def)

lemma bytes_store: "length bs = n \<Longrightarrow> n < 2 ^ 64 \<Longrightarrow> bytes (store a bs m) a n = bs"
  by (rule nth_equalityI) (simp_all add: store_in)

lemma store_snoc:
  assumes "length bs < 2 ^ 64"
  shows "store a (bs @ [b]) m = (store a bs m)(a + word_of_nat (length bs) := b)"
proof
  fix x
  have "x = a + word_of_nat (length bs) \<longleftrightarrow> unat (x - a) = length bs"
  proof
    assume "unat (x - a) = length bs"
    then have "x - a = word_of_nat (length bs)" by (metis of_nat_unat ucast_id)
    then show "x = a + word_of_nat (length bs)" by (simp add: algebra_simps)
  qed (use assms in \<open>simp add: unat_of_nat_u64\<close>)
  then show "store a (bs @ [b]) m x = ((store a bs m)(a + word_of_nat (length bs) := b)) x"
    by (auto simp: store_def nth_append less_Suc_eq)
qed

definition le_bytes :: "u16 \<Rightarrow> u8 list" where
  "le_bytes w = [ucast w, ucast (drop_bit 8 w)]"

lemma length_le_bytes [simp]: "length (le_bytes w) = 2"
  by (simp add: le_bytes_def)

lemma length_concat_le [simp]: "length (concat (map le_bytes ws)) = 2 * length ws"
  by (induction ws) simp_all

lemma store_word:
  assumes "2 * length ws + 1 < 2 ^ 64"
  shows "write_u16 (a + 2 * word_of_nat (length ws)) w (store a (concat (map le_bytes ws)) m) =
         store a (concat (map le_bytes (ws @ [w]))) m"
proof -
  let ?bs = "concat (map le_bytes ws)"
  have "store a (?bs @ [ucast w] @ [ucast (drop_bit 8 w)]) m =
      (store a (?bs @ [ucast w]) m)(a + word_of_nat (length (?bs @ [ucast w])) := ucast (drop_bit 8 w))"
    using store_snoc [of "?bs @ [ucast w]" a "ucast (drop_bit 8 w)" m] assms by simp
  also have "store a (?bs @ [ucast w]) m = (store a ?bs m)(a + word_of_nat (length ?bs) := ucast w)"
    using assms by (intro store_snoc) simp
  moreover have "concat (map le_bytes (ws @ [w])) = ?bs @ [ucast w] @ [ucast (drop_bit 8 w)]"
    by (simp add: le_bytes_def [of w])
  ultimately show ?thesis by (simp only: write_u16_def) (simp add: algebra_simps)
qed

end
