(* ===== verification/Ata.thy ===== *)
theory Ata
  imports Disk
begin

text \<open>
  The PIO driver for ATA disks (\<^verbatim>\<open>drivers/disk/ata/ata.c\<close>). Ports are 16 bits wide,
  so the 32-bit sums with the channel base are cut to 16 bits on the way into the port routines.
\<close>

section \<open>Constants\<close>

definition ATA_CHANN_PRIMARY :: u32 where "ATA_CHANN_PRIMARY = 0x1F0"
definition ATA_CHANN_SECONDARY :: u32 where "ATA_CHANN_SECONDARY = 0x170"
definition ATA_MASTER :: u32 where "ATA_MASTER = 0xA0"
definition ATA_SLAVE :: u32 where "ATA_SLAVE = 0xB0"

definition CMD_ATA_READ_PIO :: u8 where "CMD_ATA_READ_PIO = 0x20"
definition CMD_ATA_READ_PIO_EXT :: u8 where "CMD_ATA_READ_PIO_EXT = 0x24"
definition CMD_ATA_WRITE_PIO :: u8 where "CMD_ATA_WRITE_PIO = 0x30"
definition CMD_ATA_WRITE_PIO_EXT :: u8 where "CMD_ATA_WRITE_PIO_EXT = 0x34"
definition CMD_ATA_IDENTIFY :: u8 where "CMD_ATA_IDENTIFY = 0xEC"

text \<open>\<^verbatim>\<open>chann + CHANN_...\<close> as the port number it becomes.\<close>

definition chan_port :: "u32 \<Rightarrow> u32 \<Rightarrow> u16" where
  "chan_port chann off = ucast (chann + off)"

definition sizeof_ATA_driver_data :: u64 where "sizeof_ATA_driver_data = 1"

section \<open>Waiting\<close>

function wait_for_data_from :: "hardware \<Rightarrow> u32 \<Rightarrow> u32 \<Rightarrow> u8 \<Rightarrow> 'z machine_scheme \<Rightarrow> u8 \<times> 'z machine_scheme" where
  "wait_for_data_from hw chann timeout status k =
     (if timeout < 1000000 then
        let (status', k') = k_inb hw (chan_port chann 7) k in
        if status' AND 0x01 \<noteq> 0 \<or> status' AND 0x08 \<noteq> 0 then (status', k')
        else wait_for_data_from hw chann (timeout + 1) status' k'
      else (status, k))"
  by pat_completeness auto
termination
  by (relation "measure (\<lambda>(_, _, t, _, _). 1000000 - unat t)") (auto simp: word_less_nat_alt unat_word_ariths)

declare wait_for_data_from.simps [simp del]

definition wait_for_data :: "hardware \<Rightarrow> u32 \<Rightarrow> 'z machine_scheme \<Rightarrow> u8 \<times> 'z machine_scheme" where
  "wait_for_data hw chann k = wait_for_data_from hw chann 0 0 k"

text \<open>\<^verbatim>\<open>wait_for_drive\<close>, which no other routine of the driver calls, has no
  timeout.\<close>

partial_function (option) wait_for_drive ::
  "hardware \<Rightarrow> u32 \<Rightarrow> 'z machine_scheme \<Rightarrow> (u8 \<times> 'z machine_scheme) option" where
  "wait_for_drive hw chann k =
     (let (status, k') = k_inb hw (chan_port chann 7) k in
      if status AND 0x80 \<noteq> 0 then wait_for_drive hw chann k' else Some (status, k'))"

section \<open>Sectors\<close>

text \<open>The registers of a request: the byte of the address that each write takes, the drive register,
  and the command.\<close>

definition lba_byte :: "nat \<Rightarrow> u64 \<Rightarrow> u8" where
  "lba_byte n lba = ucast (drop_bit (8 * n) lba AND 0xFF)"

definition ata_request48 :: "disk_device \<Rightarrow> u64 \<Rightarrow> u8 \<Rightarrow> 'z machine_scheme \<Rightarrow> 'z machine_scheme" where
  "ata_request48 d lba cmd k =
     (let put = (\<lambda>off v. k_outb (chan_port (chann_main d) off) v) in
      put 7 cmd
     (put 5 (lba_byte 2 lba)
     (put 4 (lba_byte 1 lba)
     (put 3 (lba_byte 0 lba)
     (put 2 1
     (put 5 (lba_byte 5 lba)
     (put 4 (lba_byte 4 lba)
     (put 3 (lba_byte 3 lba)
     (put 2 0
     (put 6 (ucast (chann_sub d OR 0x40)) k))))))))))"

definition ata_request28 :: "disk_device \<Rightarrow> u64 \<Rightarrow> u8 \<Rightarrow> 'z machine_scheme \<Rightarrow> 'z machine_scheme" where
  "ata_request28 d lba cmd k =
     (let put = (\<lambda>off v. k_outb (chan_port (chann_main d) off) v) in
      put 7 cmd
     (put 5 (lba_byte 2 lba)
     (put 4 (lba_byte 1 lba)
     (put 3 (lba_byte 0 lba)
     (put 2 1
     (put 6 (ucast (ucast (chann_sub d) OR 0x40 OR (drop_bit 24 lba AND 0x0F))) k))))))"

text \<open>\<^verbatim>\<open>for (i = 0; i < 256; i++) buff[i] = inw(...)\<close> and the loop that
  writes.\<close>

primrec read_words :: "hardware \<Rightarrow> u16 \<Rightarrow> u64 \<Rightarrow> nat \<Rightarrow> 'z machine_scheme \<Rightarrow> 'z machine_scheme" where
  "read_words hw p buff 0 k = k"
| "read_words hw p buff (Suc n) k =
     (let k1 = read_words hw p buff n k; (w, k2) = k_inw hw p k1 in
      k2\<lparr>mem := write_u16 (buff + 2 * word_of_nat n) w (mem k2)\<rparr>)"

primrec write_words :: "u16 \<Rightarrow> u64 \<Rightarrow> nat \<Rightarrow> 'z machine_scheme \<Rightarrow> 'z machine_scheme" where
  "write_words p buff 0 k = k"
| "write_words p buff (Suc n) k =
     (let k1 = write_words p buff n k in k_outw p (read_u16 (mem k1) (buff + 2 * word_of_nat n)) k1)"

text \<open>A disk whose \<^verbatim>\<open>driver_data\<close> is not the driver's structure stands for a null
  pointer here.\<close>

definition ATA_read :: "hardware \<Rightarrow> disk_device \<Rightarrow> u64 \<Rightarrow> u64 \<Rightarrow> 'z machine_scheme \<Rightarrow> (bool \<times> 'z machine_scheme) result" where
  "ATA_read hw d lba buff k =
     (case d_driver d of
        ATA_driver_data lba48 \<Rightarrow>
          let k1 = (if lba48 then ata_request48 d lba CMD_ATA_READ_PIO_EXT k
                    else ata_request28 d lba CMD_ATA_READ_PIO k);
              (status, k2) = wait_for_data hw (chann_main d) k1 in
          if status AND 0x01 \<noteq> 0 then Inr (False, say_LN ''ATA read device error'' k2)
          else if status AND 0x08 = 0 then Inr (False, say_LN ''ATA read device no data'' k2)
          else Inr (True, read_words hw (chan_port (chann_main d) 0) buff 256 k2)
      | _ \<Rightarrow> Inl NullDeref)"

definition ATA_write :: "hardware \<Rightarrow> disk_device \<Rightarrow> u64 \<Rightarrow> u64 \<Rightarrow> 'z machine_scheme \<Rightarrow> (bool \<times> 'z machine_scheme) result" where
  "ATA_write hw d lba buff k =
     (case d_driver d of
        ATA_driver_data lba48 \<Rightarrow>
          let k1 = (if lba48 then ata_request48 d lba CMD_ATA_WRITE_PIO_EXT k
                    else ata_request28 d lba CMD_ATA_WRITE_PIO k);
              (status, k2) = wait_for_data hw (chann_main d) k1 in
          if status AND 0x01 \<noteq> 0 then Inr (False, say_LN ''ATA write device error'' k2)
          else if status AND 0x08 = 0 then Inr (False, say_LN ''ATA write device no data'' k2)
          else Inr (True, write_words (chan_port (chann_main d) 0) buff 256 k2)
      | _ \<Rightarrow> Inl NullDeref)"

section \<open>Identification\<close>

primrec identify_words :: "hardware \<Rightarrow> u16 \<Rightarrow> nat \<Rightarrow> 'z machine_scheme \<Rightarrow> u16 list \<times> 'z machine_scheme" where
  "identify_words hw p 0 k = ([], k)"
| "identify_words hw p (Suc n) k =
     (let (ws, k1) = identify_words hw p n k; (w, k2) = k_inw hw p k1 in (ws @ [w], k2))"

text \<open>The loop over the words 27 to 45, which fills \<^verbatim>\<open>name[0]\<close> to
  \<^verbatim>\<open>name[37]\<close>; \<^verbatim>\<open>name[38]\<close> and \<^verbatim>\<open>name[39]\<close> keep
  what the memory held.\<close>

definition ata_swap_word :: "u16 \<Rightarrow> u8 \<times> u8" where
  "ata_swap_word w = (ucast (drop_bit 8 w), ucast (w AND 0xFF))"

primrec fill_name :: "u16 list \<Rightarrow> nat \<Rightarrow> u8 list \<Rightarrow> u8 list" where
  "fill_name ident 0 name = name"
| "fill_name ident (Suc n) name =
     (let (a, b) = ata_swap_word (ident ! (27 + n)) in (fill_name ident n name)[2 * n := a, 2 * n + 1 := b])"

definition ata_size :: "bool \<Rightarrow> u16 list \<Rightarrow> u64" where
  "ata_size lba48 ident =
     (if lba48 then
        (push_bit 48 (ucast (ident ! 103)) OR push_bit 32 (ucast (ident ! 102)) OR
         push_bit 16 (ucast (ident ! 101)) OR ucast (ident ! 100)) * 512
      else (push_bit 16 (ucast (ident ! 61)) OR ucast (ident ! 60)) * 512)"

text \<open>The structure comes from \<^verbatim>\<open>kalloc\<close> uninitialised: \<open>raw p\<close> is what the
  memory at \<open>p\<close> held.\<close>

definition ATA_identify ::
  "hardware \<Rightarrow> (u64 \<Rightarrow> disk_device) \<Rightarrow> u32 \<Rightarrow> u32 \<Rightarrow> 'z manager_scheme \<Rightarrow> (disk_device \<times> 'z manager_scheme) result" where
  "ATA_identify hw raw chann sub k =
     andthen (kalloc sizeof_disk_device k) (\<lambda>(p, k1).
     if p = 0 then Inl NullDeref
     else
       let d = (raw p)\<lparr>chann_main := chann, chann_sub := sub\<rparr>;
           k2 = k_outb (chan_port chann 7) CMD_ATA_IDENTIFY (k_outb (chan_port chann 6) (ucast sub) k1);
           (status, k3) = wait_for_data hw chann k2 in
       if status AND 0x01 \<noteq> 0 then
         Inr (d\<lparr>d_type := DISK_NONE\<rparr>, say newline (say ''ATA Identify fail'' k3))
       else if status AND 0x08 = 0 then
         Inr (d\<lparr>d_type := DISK_NONE\<rparr>, say newline (say ''ATA Identify: no data'' k3))
       else
         andthen (kalloc sizeof_ATA_driver_data k3) (\<lambda>(q, k4).
         if q = 0 then Inl NullDeref
         else
           let (ident, k5) = identify_words hw (chan_port chann 0) 256 k4;
               lba48 = (ident ! 83 AND 0x400 \<noteq> 0) in
           Inr (d\<lparr>d_type := DISK_ATA, d_name := (fill_name ident 19 (d_name d))[40 := 0],
                  d_driver := ATA_driver_data lba48, d_size := ata_size lba48 ident\<rparr>, k5)))"

end
