(* ===== verification/Ata_Drive.thy ===== *)
theory Ata_Drive
  imports Ata
begin

text \<open>
  An ATA drive as the command set describes it, a state machine driven by the history of accesses to its channel. The drive has
  the registers of the channel, of which those of the sector count and the address are two deep; it executes a
  command only when it is the one selected, is not busy and has no data pending. It is busy for a while after a
  command and after the last word of a write, which the status register shows.
\<close>

section \<open>The drive\<close>

type_synonym sectors = "nat \<Rightarrow> u16 list"

text \<open>What the drive is like: the sectors at power-on (the empty list where the drive has none), its number on the channel, and
  for how many reads of the status register it stays busy, which may depend on all that has happened.\<close>

record disk_model =
  image :: sectors
  is_slave :: bool
  latency :: "history \<Rightarrow> nat"

text \<open>\<open>ready_words\<close> are the words the host may read; while \<open>writing\<close> the words from the host
  collect in \<open>taken_words\<close> until the sector \<open>target\<close> is complete. \<open>busy\<close> is the number of status reads that still show
  BSY. \<open>obeyed\<close> is true as long as the host keeps to the protocol: the command set promises nothing about a drive whose
  registers are written while it is busy or has data pending, whose data port is used out of turn, or that gets a
  command which it does not know, for a sector it does not have, for another number of sectors than one, or without the bit for
  LBA addresses.\<close>

record drive =
  contents :: sectors
  reg_count :: "u8 \<times> u8"
  reg_low :: "u8 \<times> u8"
  reg_mid :: "u8 \<times> u8"
  reg_high :: "u8 \<times> u8"
  reg_head :: u8
  busy :: nat
  ready_words :: "u16 list"
  writing :: bool
  target :: nat
  taken_words :: "u16 list"
  obeyed :: bool

definition pending :: "drive \<Rightarrow> bool" where
  "pending s \<longleftrightarrow> ready_words s \<noteq> [] \<or> writing s"

text \<open>Bit 4 of the device register selects the drive.\<close>

definition selected :: "disk_model \<Rightarrow> drive \<Rightarrow> bool" where
  "selected dm s \<longleftrightarrow> bit (reg_head s) 4 = is_slave dm"

text \<open>The addresses that the registers hold; a pair is the byte written last and the one before.\<close>

definition addr48 :: "drive \<Rightarrow> nat" where
  "addr48 s = unat (fst (reg_low s)) + 2 ^ 8 * unat (fst (reg_mid s)) + 2 ^ 16 * unat (fst (reg_high s)) +
     2 ^ 24 * unat (snd (reg_low s)) + 2 ^ 32 * unat (snd (reg_mid s)) + 2 ^ 40 * unat (snd (reg_high s))"

definition addr28 :: "drive \<Rightarrow> nat" where
  "addr28 s = unat (fst (reg_low s)) + 2 ^ 8 * unat (fst (reg_mid s)) + 2 ^ 16 * unat (fst (reg_high s)) +
     2 ^ 24 * (unat (reg_head s) mod 16)"

text \<open>READ SECTORS and WRITE SECTORS, and their EXT versions with 48-bit addresses; \<open>n\<close> is how long the drive is busy. Bit 6 of
  the device register says that the address is an LBA.\<close>

definition one_sector :: "u8 \<Rightarrow> drive \<Rightarrow> bool" where
  "one_sector v s \<longleftrightarrow>
     bit (reg_head s) 6 \<and>
     (if v = 0x24 \<or> v = 0x34 then reg_count s = (1, 0) \<and> length (contents s (addr48 s)) = 256
      else (v = 0x20 \<or> v = 0x30) \<and> fst (reg_count s) = 1 \<and> length (contents s (addr28 s)) = 256)"

definition drive_command :: "nat \<Rightarrow> u8 \<Rightarrow> drive \<Rightarrow> drive" where
  "drive_command n v s =
     (let t = (if v = 0x24 \<or> v = 0x34 then addr48 s else addr28 s) in
      if \<not> one_sector v s then s\<lparr>obeyed := False\<rparr>
      else if v = 0x20 \<or> v = 0x24 then s\<lparr>busy := n, ready_words := contents s t\<rparr>
      else s\<lparr>busy := n, writing := True, target := t, taken_words := []\<rparr>)"

text \<open>A write to a register.\<close>

definition drive_set :: "(drive \<Rightarrow> drive) \<Rightarrow> drive \<Rightarrow> drive" where
  "drive_set f s = (if 0 < busy s \<or> pending s then s\<lparr>obeyed := False\<rparr> else f s)"

text \<open>A word from the host. The drive is busy again when it has the whole sector.\<close>

definition drive_take :: "nat \<Rightarrow> u16 \<Rightarrow> drive \<Rightarrow> drive" where
  "drive_take n w s =
     (let ws = taken_words s @ [w] in
      if length ws = 256
      then s\<lparr>contents := (contents s)(target s := ws), busy := n, writing := False, taken_words := []\<rparr>
      else s\<lparr>taken_words := ws\<rparr>)"

text \<open>One access. Both drives of a channel take the values written to the registers; a command, and what is read or written at
  the data port, is for the selected one. \<open>tr\<close> is the history before the access.\<close>

definition drive_step :: "disk_model \<Rightarrow> u16 \<Rightarrow> history \<Rightarrow> io_event \<Rightarrow> drive \<Rightarrow> drive" where
  "drive_step dm base tr ev s =
     (case ev of
        OutB p v \<Rightarrow>
          if p = base + 2 then drive_set (\<lambda>s. s\<lparr>reg_count := (v, fst (reg_count s))\<rparr>) s
          else if p = base + 3 then drive_set (\<lambda>s. s\<lparr>reg_low := (v, fst (reg_low s))\<rparr>) s
          else if p = base + 4 then drive_set (\<lambda>s. s\<lparr>reg_mid := (v, fst (reg_mid s))\<rparr>) s
          else if p = base + 5 then drive_set (\<lambda>s. s\<lparr>reg_high := (v, fst (reg_high s))\<rparr>) s
          else if p = base + 6 then drive_set (\<lambda>s. s\<lparr>reg_head := v\<rparr>) s
          else if p = base + 7 \<and> selected dm s then drive_set (drive_command (latency dm tr) v) s
          else s
      | InB p v \<Rightarrow> if p = base + 7 \<and> selected dm s then s\<lparr>busy := busy s - 1\<rparr> else s
      | InW p w \<Rightarrow>
          if p = base \<and> selected dm s then
            (if busy s = 0 \<and> ready_words s \<noteq> [] then s\<lparr>ready_words := tl (ready_words s)\<rparr> else s\<lparr>obeyed := False\<rparr>)
          else s
      | OutW p w \<Rightarrow>
          if p = base \<and> selected dm s then
            (if busy s = 0 \<and> writing s then drive_take (latency dm tr) w s else s\<lparr>obeyed := False\<rparr>)
          else s
      | _ \<Rightarrow> s)"

primrec drive_state :: "disk_model \<Rightarrow> u16 \<Rightarrow> history \<Rightarrow> drive" where
  "drive_state dm base [] =
     \<lparr>contents = image dm, reg_count = (0, 0), reg_low = (0, 0), reg_mid = (0, 0), reg_high = (0, 0), reg_head = 0, busy = 0,
      ready_words = [], writing = False, target = 0, taken_words = [], obeyed = True\<rparr>"
| "drive_state dm base (ev # tr) = drive_step dm base tr ev (drive_state dm base tr)"

text \<open>What the host sees while it keeps to the protocol and the drive is selected. The bits of the status register that the driver
  looks at: BSY (0x80) alone while the drive is busy, then DRQ (0x08) while words are ready or wanted, never ERR (0x01). The data port holds the
  next word. The drive is never busy for as many polls as the driver makes.\<close>

definition drive_status :: "drive \<Rightarrow> u16" where
  "drive_status s = (if 0 < busy s then 0x80 else if pending s then 0x08 else 0)"

definition ata_answers :: "hardware \<Rightarrow> u16 \<Rightarrow> disk_model \<Rightarrow> bool" where
  "ata_answers hw base dm \<longleftrightarrow>
     (\<forall>tr. latency dm tr < 1000000 \<and>
        (obeyed (drive_state dm base tr) \<and> selected dm (drive_state dm base tr) \<longrightarrow>
           port_in hw tr (base + 7) AND 0x89 = drive_status (drive_state dm base tr) \<and>
           (busy (drive_state dm base tr) = 0 \<and> ready_words (drive_state dm base tr) \<noteq> [] \<longrightarrow>
              port_in hw tr base = hd (ready_words (drive_state dm base tr)))))"

lemma ata_answersD:
  assumes "ata_answers hw base dm"
  shows "latency dm tr < 1000000"
    and "obeyed (drive_state dm base tr) \<Longrightarrow> selected dm (drive_state dm base tr) \<Longrightarrow>
           port_in hw tr (base + 7) AND 0x89 = drive_status (drive_state dm base tr)"
    and "obeyed (drive_state dm base tr) \<Longrightarrow> selected dm (drive_state dm base tr) \<Longrightarrow>
           busy (drive_state dm base tr) = 0 \<Longrightarrow> ready_words (drive_state dm base tr) \<noteq> [] \<Longrightarrow>
           port_in hw tr base = hd (ready_words (drive_state dm base tr))"
  using assms unfolding ata_answers_def by blast+

text \<open>Between two requests: the drive is neither busy nor in a transfer.\<close>

definition drive_idle :: "drive \<Rightarrow> bool" where
  "drive_idle s \<longleftrightarrow> obeyed s \<and> busy s = 0 \<and> \<not> pending s"

lemma drive_idleD: "drive_idle s \<Longrightarrow> obeyed s \<and> busy s = 0 \<and> ready_words s = [] \<and> \<not> writing s"
  by (simp add: drive_idle_def pending_def)

section \<open>A simulated drive\<close>

text \<open>Hardware that answers as the drive does, on the primary channel; it shows the other bits of the status register as drives do.\<close>

definition drive_port :: "disk_model \<Rightarrow> ports" where
  "drive_port dm tr p =
     (let s = drive_state dm 0x1F0 tr in
      if p = 0x1F0 then hd (ready_words s) else if 0 < busy s then 0x80 else if pending s then 0x58 else 0x50)"

definition drive_hw :: "disk_model \<Rightarrow> hardware" where
  "drive_hw dm = \<lparr>port_in = drive_port dm, reg_in = (\<lambda>_ _ _. 0), dma = (\<lambda>_ m. m)\<rparr>"

lemma drive_hw_answers: "(\<And>tr. latency dm tr < 1000000) \<Longrightarrow> ata_answers (drive_hw dm) 0x1F0 dm"
  by (simp add: ata_answers_def drive_hw_def drive_port_def drive_status_def Let_def)

end
