(* ===== verification/Ata_Props.thy ===== *)
theory Ata_Props
  imports Ata_Drive
begin

text \<open>
  The ATA driver on a drive that follows the command set: the registers that a request sets, the wait for
  the drive, the transfer of a sector, and the properties of \<^verbatim>\<open>ATA_read\<close> and \<^verbatim>\<open>ATA_write\<close>.
\<close>

section \<open>Addresses\<close>

lemma chan_port_add: "chan_port c off = chan_port c 0 + ucast off"
proof -
  have "ucast (c + off) = (ucast c + ucast off :: u16)"
    by (rule unat_inject) (simp add: unat_word_ariths unsigned_ucast_eq take_bit_eq_mod mod_simps mod_mod_cancel)
  then show ?thesis by (simp add: chan_port_def)
qed

lemma lba_byte_nat: "unat (lba_byte n lba) = unat lba div 2 ^ (8 * n) mod 256"
proof -
  have "lba_byte n lba = ucast (take_bit 8 (drop_bit (8 * n) lba))"
    by (simp add: lba_byte_def take_bit_eq_mask mask_eq_exp_minus_1)
  then have "unat (lba_byte n lba) = take_bit 8 (drop_bit (8 * n) (unat lba))"
    by (simp add: unsigned_ucast_eq unsigned_take_bit_eq unat_drop_bit_eq)
  then show ?thesis by (simp add: take_bit_eq_mod drop_bit_eq_div)
qed

lemma bytes_of_nat:
  "x mod 2 ^ 24 = x mod 256 + 2 ^ 8 * (x div 2 ^ 8 mod 256) + 2 ^ 16 * (x div 2 ^ 16 mod 256)" for x :: nat
proof -
  have "x mod 2 ^ 24 = 2 ^ 8 * (x div 2 ^ 8 mod 2 ^ 16) + x mod 2 ^ 8"
    using mod_mult2_eq [of x "2 ^ 8" "2 ^ 16"] by simp
  moreover have "x div 2 ^ 8 mod 2 ^ 16 = 2 ^ 8 * (x div 2 ^ 16 mod 2 ^ 8) + x div 2 ^ 8 mod 2 ^ 8"
    using mod_mult2_eq [of "x div 2 ^ 8" "2 ^ 8" "2 ^ 8"] by (simp add: div_mult2_eq [symmetric])
  ultimately show ?thesis by simp
qed

lemma sum48:
  "unat (lba_byte 0 l) + 2 ^ 8 * unat (lba_byte 1 l) + 2 ^ 16 * unat (lba_byte 2 l) +
     2 ^ 24 * unat (lba_byte 3 l) + 2 ^ 32 * unat (lba_byte 4 l) + 2 ^ 40 * unat (lba_byte 5 l) = unat l mod 2 ^ 48"
proof -
  let ?x = "unat l"
  have "?x mod 2 ^ 48 = ?x mod 2 ^ 24 + 2 ^ 24 * (?x div 2 ^ 24 mod 2 ^ 24)"
    using mod_mult2_eq [of ?x "2 ^ 24" "2 ^ 24"] by simp
  moreover note bytes_of_nat [of ?x] bytes_of_nat [of "?x div 2 ^ 24"]
  ultimately show ?thesis
    by (simp add: lba_byte_nat div_mult2_eq [symmetric])
qed

lemma sum28:
  "unat (lba_byte 0 l) + 2 ^ 8 * unat (lba_byte 1 l) + 2 ^ 16 * unat (lba_byte 2 l) +
     2 ^ 24 * (unat l div 2 ^ 24 mod 16) = unat l mod 2 ^ 28"
proof -
  let ?x = "unat l"
  have "?x mod 2 ^ 28 = ?x mod 2 ^ 24 + 2 ^ 24 * (?x div 2 ^ 24 mod 2 ^ 4)"
    using mod_mult2_eq [of ?x "2 ^ 24" "2 ^ 4"] by simp
  then show ?thesis using bytes_of_nat [of ?x] by (simp add: lba_byte_nat)
qed

text \<open>The drive register carries the top nibble of a 28-bit address when the drive number leaves
  the low nibble alone.\<close>

lemma head28:
  assumes "(s :: u32) AND 0xF = 0"
  shows "unat (ucast (ucast s OR 0x40 OR (drop_bit 24 (lba :: u64) AND 0x0F)) :: u8) mod 16 = unat lba div 2 ^ 24 mod 16"
proof -
  have f: "(0xF :: 'a::len word) = mask 4" by (simp add: mask_eq_exp_minus_1)
  have "take_bit 4 s = 0" using assms unfolding f by (simp only: take_bit_eq_mask)
  then have "\<not> bit (take_bit 4 s) n" for n by simp
  then have s: "n < 4 \<Longrightarrow> \<not> bit s n" for n unfolding bit_take_bit_iff by blast
  have "take_bit 4 (ucast (ucast s OR 0x40 OR (drop_bit 24 lba AND mask 4)) :: u8) = ucast (take_bit 4 (drop_bit 24 lba))"
  proof (rule bit_word_eqI)
    fix n assume "n < LENGTH(8)"
    show "bit (take_bit 4 (ucast (ucast s OR 0x40 OR (drop_bit 24 lba AND mask 4)) :: u8)) n =
        bit (ucast (take_bit 4 (drop_bit 24 lba)) :: u8) n"
    proof (cases "n < 4")
      case True
      then have "n \<in> {0, 1, 2, 3}" by auto
      then have "\<not> bit (0x40 :: u64) n" by auto
      with True s [OF True] show ?thesis
        by (simp add: bit_take_bit_iff bit_unsigned_iff bit_or_iff bit_and_iff bit_mask_iff)
    qed (simp add: bit_take_bit_iff bit_unsigned_iff)
  qed
  then have "unat (take_bit 4 (ucast (ucast s OR 0x40 OR (drop_bit 24 lba AND mask 4)) :: u8)) =
      unat (ucast (take_bit 4 (drop_bit 24 lba)) :: u8)" by (rule arg_cong)
  then have "take_bit 4 (unat (ucast (ucast s OR 0x40 OR (drop_bit 24 lba AND mask 4)) :: u8)) =
      unat (ucast (take_bit 4 (drop_bit 24 lba)) :: u8)" by (simp only: unsigned_take_bit_eq)
  also have "\<dots> = take_bit 4 (drop_bit 24 (unat lba))"
    by (simp add: unsigned_ucast_eq unsigned_take_bit_eq unat_drop_bit_eq)
  finally show ?thesis unfolding f by (simp add: take_bit_eq_mod drop_bit_eq_div)
qed

section \<open>One request\<close>

lemma chan_ports:
  "chan_port c 2 = chan_port c 0 + 2" "chan_port c 3 = chan_port c 0 + 3" "chan_port c 4 = chan_port c 0 + 4"
  "chan_port c 5 = chan_port c 0 + 5" "chan_port c 6 = chan_port c 0 + 6" "chan_port c 7 = chan_port c 0 + 7"
  using chan_port_add [of c 2] chan_port_add [of c 3] chan_port_add [of c 4] chan_port_add [of c 5]
    chan_port_add [of c 6] chan_port_add [of c 7] by simp_all

lemma drive_outb:
  "drive_state dm base (trace (k_outb p v k)) = drive_step dm base (trace k) (OutB p v) (drive_state dm base (trace k))"
  by (simp add: k_outb_def outb_def)

text \<open>The registers after a request, and the address they hold.\<close>

lemma drive_regs:
  "drive_step dm base tr (OutB (base + 2) v) s = drive_set (\<lambda>s. s\<lparr>reg_count := (v, fst (reg_count s))\<rparr>) s"
  "drive_step dm base tr (OutB (base + 3) v) s = drive_set (\<lambda>s. s\<lparr>reg_low := (v, fst (reg_low s))\<rparr>) s"
  "drive_step dm base tr (OutB (base + 4) v) s = drive_set (\<lambda>s. s\<lparr>reg_mid := (v, fst (reg_mid s))\<rparr>) s"
  "drive_step dm base tr (OutB (base + 5) v) s = drive_set (\<lambda>s. s\<lparr>reg_high := (v, fst (reg_high s))\<rparr>) s"
  "drive_step dm base tr (OutB (base + 6) v) s = drive_set (\<lambda>s. s\<lparr>reg_head := v\<rparr>) s"
  "selected dm s \<Longrightarrow> drive_step dm base tr (OutB (base + 7) v) s = drive_set (drive_command (latency dm tr) v) s"
  by (simp_all add: drive_step_def)

lemma drive_set_idle: "busy s = 0 \<Longrightarrow> ready_words s = [] \<Longrightarrow> \<not> writing s \<Longrightarrow> drive_set f s = f s"
  by (simp add: drive_set_def pending_def)

text \<open>The device register of a request: the number of the drive, and the bit for LBA addresses.\<close>

lemma head48: "bit (ucast (c OR 0x40 :: u32) :: u8) 4 = bit c 4" "bit (ucast (c OR 0x40 :: u32) :: u8) 6"
proof -
  have "bit (0x40 :: u32) 6" "\<not> bit (0x40 :: u32) 4" by simp_all
  then show "bit (ucast (c OR 0x40 :: u32) :: u8) 4 = bit c 4" "bit (ucast (c OR 0x40 :: u32) :: u8) 6"
    by (auto simp: bit_unsigned_iff bit_or_iff)
qed

lemma head28_bits:
  fixes c :: u32 and lba :: u64
  shows "bit (ucast (ucast c OR 0x40 OR (drop_bit 24 lba AND 0x0F)) :: u8) 4 = bit c 4"
    and "bit (ucast (ucast c OR 0x40 OR (drop_bit 24 lba AND 0x0F)) :: u8) 6"
proof -
  have "bit (0x40 :: u64) 6" "\<not> bit (0x40 :: u64) 4" "\<not> bit (0x0F :: u64) 4" by simp_all
  then show "bit (ucast (ucast c OR 0x40 OR (drop_bit 24 lba AND 0x0F)) :: u8) 4 = bit c 4"
    and "bit (ucast (ucast c OR 0x40 OR (drop_bit 24 lba AND 0x0F)) :: u8) 6"
    by (auto simp: bit_unsigned_iff bit_or_iff bit_and_iff)
qed

text \<open>The state in which a request leaves the registers of an idle drive; its last write is the command.\<close>

definition requested :: "disk_model \<Rightarrow> u16 \<Rightarrow> u8 \<Rightarrow> (nat \<Rightarrow> u16 list) \<Rightarrow> drive \<Rightarrow> 'z machine_scheme \<Rightarrow> bool" where
  "requested dm base cmd c s k \<longleftrightarrow>
     (\<exists>n < 1000000. drive_state dm base (trace k) = drive_command n cmd s) \<and>
     drive_idle s \<and> selected dm s \<and> bit (reg_head s) 6 \<and> fst (reg_count s) = 1 \<and> contents s = c"

lemma request48:
  assumes base: "base = chan_port (chann_main d) 0" and ans: "ata_answers hw base dm"
    and idle: "drive_idle (drive_state dm base (trace k))" and sel: "bit (chann_sub d) 4 = is_slave dm"
  shows "\<exists>s. requested dm base cmd (contents (drive_state dm base (trace k))) s (ata_request48 d lba cmd k) \<and>
           reg_count s = (1, 0) \<and> addr48 s = unat lba mod 2 ^ 48"
proof -
  let ?s = "drive_state dm base (trace k)"
  let ?s' = "?s\<lparr>reg_head := ucast (chann_sub d OR 0x40), reg_count := (1, 0), reg_low := (lba_byte 0 lba, lba_byte 3 lba),
    reg_mid := (lba_byte 1 lba, lba_byte 4 lba), reg_high := (lba_byte 2 lba, lba_byte 5 lba)\<rparr>"
  note i = drive_idleD [OF idle]
  have s': "selected dm ?s'" "bit (reg_head ?s') 6" "drive_idle ?s'"
    using sel i by (simp_all add: selected_def head48 drive_idle_def pending_def)
  have "\<exists>tr. drive_state dm base (trace (ata_request48 d lba cmd k)) = drive_command (latency dm tr) cmd ?s'"
    using i s'(1)
    by (simp add: ata_request48_def Let_def chan_ports base [symmetric] drive_outb drive_regs drive_set_idle)
      (simp add: selected_def drive_regs drive_set_idle, blast)
  then have "requested dm base cmd (contents ?s) ?s' (ata_request48 d lba cmd k)"
    using s' ata_answersD(1) [OF ans] by (auto simp: requested_def)
  moreover have "addr48 ?s' = unat lba mod 2 ^ 48" using sum48 [of lba] by (simp add: addr48_def)
  ultimately show ?thesis by (intro exI [of _ ?s']) simp
qed

lemma addr28_regs:
  "addr28 (s\<lparr>reg_head := h, reg_count := c, reg_low := l, reg_mid := m, reg_high := g\<rparr>) =
     unat (fst l) + 2 ^ 8 * unat (fst m) + 2 ^ 16 * unat (fst g) + 2 ^ 24 * (unat h mod 16)"
  by (simp add: addr28_def)

lemma request28:
  assumes base: "base = chan_port (chann_main d) 0" and ans: "ata_answers hw base dm" and low: "chann_sub d AND 0xF = 0"
    and idle: "drive_idle (drive_state dm base (trace k))" and sel: "bit (chann_sub d) 4 = is_slave dm"
  shows "\<exists>s. requested dm base cmd (contents (drive_state dm base (trace k))) s (ata_request28 d lba cmd k) \<and>
           addr28 s = unat lba mod 2 ^ 28"
proof -
  let ?s = "drive_state dm base (trace k)"
  let ?h = "ucast (ucast (chann_sub d) OR 0x40 OR (drop_bit 24 lba AND 0x0F)) :: u8"
  let ?s' = "?s\<lparr>reg_head := ?h, reg_count := (1, fst (reg_count ?s)), reg_low := (lba_byte 0 lba, fst (reg_low ?s)),
    reg_mid := (lba_byte 1 lba, fst (reg_mid ?s)), reg_high := (lba_byte 2 lba, fst (reg_high ?s))\<rparr>"
  note i = drive_idleD [OF idle]
  have s': "selected dm ?s'" "bit (reg_head ?s') 6" "drive_idle ?s'"
    using sel i head28_bits [of "chann_sub d" lba] by (simp_all add: selected_def drive_idle_def pending_def)
  have "\<exists>tr. drive_state dm base (trace (ata_request28 d lba cmd k)) = drive_command (latency dm tr) cmd ?s'"
    using i s'(1)
    by (simp add: ata_request28_def Let_def chan_ports base [symmetric] drive_outb drive_regs drive_set_idle)
      (simp add: selected_def drive_regs drive_set_idle, blast)
  then have "requested dm base cmd (contents ?s) ?s' (ata_request28 d lba cmd k)"
    using s' ata_answersD(1) [OF ans] by (auto simp: requested_def)
  moreover have "addr28 ?s' = unat lba mod 2 ^ 28"
    unfolding addr28_regs fst_conv head28 [OF low] by (rule sum28)
  ultimately show ?thesis by (intro exI [of _ ?s']) simp
qed

text \<open>The address that a request reaches: 48 or 28 bits of the block number.\<close>

definition ata_addr :: "bool \<Rightarrow> u64 \<Rightarrow> nat" where
  "ata_addr lba48 lba = (if lba48 then unat lba mod 2 ^ 48 else unat lba mod 2 ^ 28)"

text \<open>The disk structure describes a drive of the channel.\<close>

definition ata_device :: "disk_model \<Rightarrow> disk_device \<Rightarrow> bool \<Rightarrow> bool" where
  "ata_device dm d lba48 \<longleftrightarrow>
     d_driver d = ATA_driver_data lba48 \<and> (lba48 \<or> chann_sub d AND 0xF = 0) \<and> bit (chann_sub d) 4 = is_slave dm"

lemma request_read:
  assumes base: "base = chan_port (chann_main d) 0" and ans: "ata_answers hw base dm" and dev: "ata_device dm d lba48"
    and idle: "drive_idle (drive_state dm base (trace k))" and c: "c = contents (drive_state dm base (trace k))"
    and sec: "length (c (ata_addr lba48 lba)) = 256"
    and k1: "k1 = (if lba48 then ata_request48 d lba CMD_ATA_READ_PIO_EXT k else ata_request28 d lba CMD_ATA_READ_PIO k)"
  shows "\<exists>n s. n < 1000000 \<and> drive_state dm base (trace k1) = s\<lparr>ready_words := c (ata_addr lba48 lba), busy := n\<rparr> \<and>
     drive_idle s \<and> selected dm s \<and> contents s = c"
proof -
  obtain n s where "n < 1000000" "drive_state dm base (trace k1) = s\<lparr>busy := n, ready_words := c (ata_addr lba48 lba)\<rparr>"
    "drive_idle s" "selected dm s" "contents s = c"
    using request48 [OF base ans idle, of CMD_ATA_READ_PIO_EXT lba] request28 [OF base ans _ idle, of CMD_ATA_READ_PIO lba] dev sec
    by (cases lba48)
      (fastforce simp: k1 c ata_device_def ata_addr_def requested_def drive_command_def one_sector_def CMD_ATA_READ_PIO_EXT_def CMD_ATA_READ_PIO_def)+
  then show ?thesis by (intro exI [of _ n] exI [of _ s]) simp
qed

lemma request_write:
  assumes base: "base = chan_port (chann_main d) 0" and ans: "ata_answers hw base dm" and dev: "ata_device dm d lba48"
    and idle: "drive_idle (drive_state dm base (trace k))" and c: "c = contents (drive_state dm base (trace k))"
    and sec: "length (c (ata_addr lba48 lba)) = 256"
    and k1: "k1 = (if lba48 then ata_request48 d lba CMD_ATA_WRITE_PIO_EXT k else ata_request28 d lba CMD_ATA_WRITE_PIO k)"
  shows "\<exists>n s. n < 1000000 \<and>
     drive_state dm base (trace k1) = s\<lparr>writing := True, target := ata_addr lba48 lba, taken_words := [], busy := n\<rparr> \<and>
     drive_idle s \<and> selected dm s \<and> contents s = c"
proof -
  obtain n s where "n < 1000000" "drive_state dm base (trace k1) = s\<lparr>busy := n, writing := True, target := ata_addr lba48 lba, taken_words := []\<rparr>"
    "drive_idle s" "selected dm s" "contents s = c"
    using request48 [OF base ans idle, of CMD_ATA_WRITE_PIO_EXT lba] request28 [OF base ans _ idle, of CMD_ATA_WRITE_PIO lba] dev sec
    by (cases lba48)
      (fastforce simp: k1 c ata_device_def ata_addr_def requested_def drive_command_def one_sector_def CMD_ATA_WRITE_PIO_EXT_def CMD_ATA_WRITE_PIO_def)+
  then show ?thesis by (intro exI [of _ n] exI [of _ s]) simp
qed

lemma keep_trace: "k\<lparr>trace := trace k\<rparr> = k"
  by simp

lemma requests_keep:
  "\<exists>tr. ata_request48 d lba cmd k = k\<lparr>trace := tr\<rparr>" "\<exists>tr. ata_request28 d lba cmd k = k\<lparr>trace := tr\<rparr>"
  by (simp_all add: ata_request48_def ata_request28_def Let_def k_outb_def) (rule exI, rule refl)+

section \<open>Waiting\<close>

text \<open>One poll of the status register.\<close>

lemma drive_poll:
  assumes ans: "ata_answers hw (chan_port c 0) dm" and s: "drive_state dm (chan_port c 0) (trace k) = s" "obeyed s" "selected dm s"
  shows "\<exists>v tr. k_inb hw (chan_port c 7) k = (v, k\<lparr>trace := tr\<rparr>) \<and> drive_state dm (chan_port c 0) tr = s\<lparr>busy := busy s - 1\<rparr> \<and>
     v AND 0x89 = ucast (drive_status s)"
proof -
  define v where "v = (ucast (port_in hw (trace k) (chan_port c 7)) :: u8)"
  have "v AND 0x89 = ucast (port_in hw (trace k) (chan_port c 7) AND 0x89)" by (simp add: v_def unsigned_and_eq)
  also have "\<dots> = ucast (drive_status s)" using ata_answersD(2) [OF ans, of "trace k"] s by (simp add: chan_ports)
  finally have "v AND 0x89 = ucast (drive_status s)" .
  moreover have "k_inb hw (chan_port c 7) k = (v, k\<lparr>trace := InB (chan_port c 7) v # trace k\<rparr>)"
    by (simp add: k_inb_def inb_def Let_def v_def)
  moreover have "drive_state dm (chan_port c 0) (InB (chan_port c 7) v # trace k) = s\<lparr>busy := busy s - 1\<rparr>"
    using s by (simp add: drive_step_def chan_ports)
  ultimately show ?thesis by blast
qed

lemma status_bits:
  assumes "(v :: u8) AND 0x89 = w"
  shows "v AND 0x01 = w AND 0x01" and "v AND 0x08 = w AND 0x08" and "v AND 0x80 = w AND 0x80"
  using assms by (auto simp: and.assoc)

text \<open>A drive that is busy before a transfer: the polls show BSY, then one shows DRQ.\<close>

lemma wait_pending:
  assumes ans: "ata_answers hw (chan_port c 0) dm" and s: "obeyed s" "selected dm s" "pending s"
  shows "drive_state dm (chan_port c 0) (trace k) = s\<lparr>busy := n\<rparr> \<Longrightarrow> unat t + n < 1000000 \<Longrightarrow>
     \<exists>v tr. wait_for_data_from hw c t status k = (v, k\<lparr>trace := tr\<rparr>) \<and> v AND 0x01 = 0 \<and> v AND 0x08 \<noteq> 0 \<and>
       drive_state dm (chan_port c 0) tr = s\<lparr>busy := 0\<rparr>"
proof (induction n arbitrary: t status k)
  case 0
  have "obeyed (s\<lparr>busy := 0\<rparr>)" "selected dm (s\<lparr>busy := 0\<rparr>)" using s by (simp_all add: selected_def)
  from drive_poll [OF ans 0(1) this] obtain v tr where
    v: "k_inb hw (chan_port c 7) k = (v, k\<lparr>trace := tr\<rparr>)" "drive_state dm (chan_port c 0) tr = s\<lparr>busy := 0\<rparr>" "v AND 0x89 = 0x08"
    using s(3) by (auto simp: drive_status_def pending_def)
  then show ?case
    using status_bits [OF v(3)] 0(2) by (subst wait_for_data_from.simps) (simp add: word_less_nat_alt Let_def, blast)
next
  case (Suc n)
  have "obeyed (s\<lparr>busy := Suc n\<rparr>)" "selected dm (s\<lparr>busy := Suc n\<rparr>)" using s by (simp_all add: selected_def)
  from drive_poll [OF ans Suc.prems(1) this] obtain v tr where
    v: "k_inb hw (chan_port c 7) k = (v, k\<lparr>trace := tr\<rparr>)" "drive_state dm (chan_port c 0) tr = s\<lparr>busy := n\<rparr>" "v AND 0x89 = 0x80"
    by (auto simp: drive_status_def)
  have t: "t < 1000000" using Suc.prems(2) by (simp add: word_less_nat_alt)
  then have "unat (t + 1) = Suc (unat t)" by (simp add: unat_word_ariths word_less_nat_alt)
  then have "\<exists>v' tr'. wait_for_data_from hw c (t + 1) v (k\<lparr>trace := tr\<rparr>) = (v', k\<lparr>trace := tr'\<rparr>) \<and> v' AND 0x01 = 0 \<and>
      v' AND 0x08 \<noteq> 0 \<and> drive_state dm (chan_port c 0) tr' = s\<lparr>busy := 0\<rparr>"
    using Suc.IH [of "k\<lparr>trace := tr\<rparr>" "t + 1" v] v(2) Suc.prems(2) by simp
  then show ?case using t v(1) status_bits [OF v(3)] by (subst wait_for_data_from.simps) (simp add: Let_def)
qed

text \<open>\<^verbatim>\<open>wait_for_drive\<close> ends when the drive is no longer busy.\<close>

lemma wait_drive_ok:
  assumes ans: "ata_answers hw (chan_port c 0) dm" and s: "obeyed s" "selected dm s" "\<not> pending s"
  shows "drive_state dm (chan_port c 0) (trace k) = s\<lparr>busy := n\<rparr> \<Longrightarrow>
     \<exists>v tr. wait_for_drive hw c k = Some (v, k\<lparr>trace := tr\<rparr>) \<and> drive_state dm (chan_port c 0) tr = s\<lparr>busy := 0\<rparr>"
proof (induction n arbitrary: k)
  case 0
  have "obeyed (s\<lparr>busy := 0\<rparr>)" "selected dm (s\<lparr>busy := 0\<rparr>)" using s by (simp_all add: selected_def)
  from drive_poll [OF ans 0 this] obtain v tr where
    v: "k_inb hw (chan_port c 7) k = (v, k\<lparr>trace := tr\<rparr>)" "drive_state dm (chan_port c 0) tr = s\<lparr>busy := 0\<rparr>" "v AND 0x89 = 0"
    using s(3) by (auto simp: drive_status_def pending_def)
  then show ?case using status_bits [OF v(3)] by (subst wait_for_drive.simps) (simp add: Let_def, blast)
next
  case (Suc n)
  have "obeyed (s\<lparr>busy := Suc n\<rparr>)" "selected dm (s\<lparr>busy := Suc n\<rparr>)" using s by (simp_all add: selected_def)
  from drive_poll [OF ans Suc.prems this] obtain v tr where
    v: "k_inb hw (chan_port c 7) k = (v, k\<lparr>trace := tr\<rparr>)" "drive_state dm (chan_port c 0) tr = s\<lparr>busy := n\<rparr>" "v AND 0x89 = 0x80"
    by (auto simp: drive_status_def)
  then show ?case
    using Suc.IH [of "k\<lparr>trace := tr\<rparr>"] status_bits [OF v(3)] by (subst wait_for_drive.simps) (simp add: Let_def)
qed

text \<open>On a device that shows neither DRQ nor ERR the driver gives up after a million polls.\<close>

lemma wait_idle:
  assumes "\<And>tr. port_in hw tr (chan_port c 7) AND 0x01 = 0" "\<And>tr. port_in hw tr (chan_port c 7) AND 0x08 = 0"
  shows "t \<le> 1000000 \<Longrightarrow> status AND 0x01 = 0 \<Longrightarrow> status AND 0x08 = 0 \<Longrightarrow>
     \<exists>status' tr. wait_for_data_from hw c t status k = (status', k\<lparr>trace := tr\<rparr>) \<and>
       status' AND 0x01 = 0 \<and> status' AND 0x08 = 0"
proof (induction "1000000 - unat t" arbitrary: t status k)
  case 0
  then have "unat t = unat (1000000 :: u32)" by (simp add: word_le_nat_alt)
  then have t: "t = 1000000" by (rule unat_inject)
  then have "wait_for_data_from hw c t status k = (status, k\<lparr>trace := trace k\<rparr>)"
    by (subst wait_for_data_from.simps) simp
  with "0.prems" show ?case by blast
next
  case (Suc n)
  then have lt: "t < 1000000" by (simp add: word_less_nat_alt)
  define v where "v = (ucast (port_in hw (trace k) (chan_port c 7)) :: u8)"
  define k1 where "k1 = k\<lparr>trace := InB (chan_port c 7) v # trace k\<rparr>"
  have in1: "k_inb hw (chan_port c 7) k = (v, k1)" by (simp add: k_inb_def inb_def k1_def Let_def v_def)
  have "v AND 0x01 = ucast (port_in hw (trace k) (chan_port c 7) AND 0x01)"
    "v AND 0x08 = ucast (port_in hw (trace k) (chan_port c 7) AND 0x08)"
    by (simp_all add: v_def unsigned_and_eq)
  then have v: "v AND 0x01 = 0" "v AND 0x08 = 0" by (simp_all add: assms)
  have "unat (t + 1) = Suc (unat t)" using lt by (simp add: unat_word_ariths word_less_nat_alt)
  then have "n = 1000000 - unat (t + 1)" using Suc.hyps(2) by simp
  moreover have "t + 1 \<le> 1000000" using lt by (metis inc_le)
  ultimately have "\<exists>status' tr. wait_for_data_from hw c (t + 1) v k1 = (status', k1\<lparr>trace := tr\<rparr>) \<and>
      status' AND 0x01 = 0 \<and> status' AND 0x08 = 0"
    using Suc.hyps(1) [of "t + 1" v k1] v by simp
  then show ?case using lt in1 v by (subst wait_for_data_from.simps) (simp add: k1_def Let_def)
qed

section \<open>The transfer\<close>

text \<open>The loop that fetches a sector.\<close>

lemma read_words_sector:
  assumes ans: "ata_answers hw base dm"
    and s: "drive_state dm base (trace k) = s" "obeyed s" "selected dm s" "busy s = 0" "ready_words s = ws"
    and n: "n \<le> length ws" "length ws \<le> 256"
  shows "\<exists>tr. read_words hw base buff n k = k\<lparr>mem := store buff (concat (map le_bytes (take n ws))) (mem k), trace := tr\<rparr> \<and>
           drive_state dm base tr = s\<lparr>ready_words := drop n ws\<rparr>"
  using n(1)
proof (induction n)
  case 0
  have "read_words hw base buff 0 k = k\<lparr>mem := mem k, trace := trace k\<rparr>" by simp
  then show ?case using s by (intro exI [of _ "trace k"]) simp
next
  case (Suc n)
  then obtain tr where tr: "read_words hw base buff n k =
      k\<lparr>mem := store buff (concat (map le_bytes (take n ws))) (mem k), trace := tr\<rparr>"
    "drive_state dm base tr = s\<lparr>ready_words := drop n ws\<rparr>" by auto
  have now: "obeyed (drive_state dm base tr)" "selected dm (drive_state dm base tr)" "busy (drive_state dm base tr) = 0"
    "ready_words (drive_state dm base tr) = drop n ws"
    using s by (simp_all add: tr(2) selected_def)
  have ne: "drop n ws \<noteq> []" and hd: "hd (drop n ws) = ws ! n" using Suc.prems by (simp_all add: hd_drop_conv_nth)
  then have w: "port_in hw tr base = ws ! n" using ata_answersD(3) [OF ans now(1-3)] by (simp add: now(4))
  have "2 * length (take n ws) + 1 < 2 ^ 64" using n(2) Suc.prems by simp
  from store_word [OF this, of buff "ws ! n" "mem k"]
  have st: "write_u16 (buff + 2 * word_of_nat n) (ws ! n) (store buff (concat (map le_bytes (take n ws))) (mem k)) =
      store buff (concat (map le_bytes (take (Suc n) ws))) (mem k)"
    using Suc.prems by (simp add: take_Suc_conv_app_nth)
  have "drive_state dm base (InW base (ws ! n) # tr) = s\<lparr>ready_words := drop (Suc n) ws\<rparr>"
    using now ne by (simp add: drive_step_def tr(2) drop_Suc tl_drop)
  moreover have "read_words hw base buff (Suc n) k =
      k\<lparr>mem := store buff (concat (map le_bytes (take (Suc n) ws))) (mem k), trace := InW base (ws ! n) # tr\<rparr>"
    using tr(1) w st by (simp add: k_inw_def inw_def Let_def)
  ultimately show ?case by blast
qed

text \<open>The loop that sends a sector: the drive has it after the last word, and is busy with it.\<close>

lemma write_words_sector:
  assumes s: "drive_state dm base (trace k) = s" "selected dm s" "busy s = 0" "writing s" "taken_words s = []" and n: "n < 256"
  shows "\<exists>tr. write_words base buff n k = k\<lparr>trace := tr\<rparr> \<and>
           drive_state dm base tr = s\<lparr>taken_words := map (\<lambda>j. read_u16 (mem k) (buff + 2 * word_of_nat j)) [0..<n]\<rparr>"
  using n
proof (induction n)
  case 0
  have "write_words base buff 0 k = k\<lparr>trace := trace k\<rparr>" by simp
  moreover have "s\<lparr>taken_words := []\<rparr> = s" using s(5) by simp
  ultimately show ?case using s(1) by (intro exI [of _ "trace k"]) simp
next
  case (Suc n)
  let ?ws = "map (\<lambda>j. read_u16 (mem k) (buff + 2 * word_of_nat j)) [0..<n]"
  let ?w = "read_u16 (mem k) (buff + 2 * word_of_nat n)"
  from Suc obtain tr where tr: "write_words base buff n k = k\<lparr>trace := tr\<rparr>"
    "drive_state dm base tr = s\<lparr>taken_words := ?ws\<rparr>" by auto
  have "drive_state dm base (OutW base ?w # tr) = s\<lparr>taken_words := ?ws @ [?w]\<rparr>"
    using tr(2) s Suc.prems by (simp add: drive_step_def drive_take_def selected_def Let_def)
  moreover have "write_words base buff (Suc n) k = k\<lparr>trace := OutW base ?w # tr\<rparr>"
    using tr(1) by (simp add: k_outw_def outw_def Let_def)
  ultimately show ?case by (intro exI [of _ "OutW base ?w # tr"]) simp
qed

lemma write_words_full:
  assumes s: "drive_state dm base (trace k) = s" "selected dm s" "busy s = 0" "writing s" "taken_words s = []"
  shows "\<exists>tr. write_words base buff 256 k = k\<lparr>trace := tr\<rparr> \<and>
           drive_state dm base tr = s\<lparr>contents := (contents s)(target s :=
             map (\<lambda>j. read_u16 (mem k) (buff + 2 * word_of_nat j)) [0..<256]), busy := latency dm (tl tr), writing := False\<rparr>"
proof -
  have n: "(255 :: nat) < 256" "Suc 255 = 256" by simp_all
  let ?ws = "map (\<lambda>j. read_u16 (mem k) (buff + 2 * word_of_nat j)) [0..<255]"
  let ?w = "read_u16 (mem k) (buff + 2 * word_of_nat 255)"
  from write_words_sector [OF s n(1), of buff] obtain tr where tr: "write_words base buff 255 k = k\<lparr>trace := tr\<rparr>"
    "drive_state dm base tr = s\<lparr>taken_words := ?ws\<rparr>" by blast
  have ws: "?ws @ [?w] = map (\<lambda>j. read_u16 (mem k) (buff + 2 * word_of_nat j)) [0..<256]"
    using upt_Suc_append [of 0 255] by (simp only: n(2) list.map map_append le0)
  have "length (?ws @ [?w]) = 256" by simp
  then have "drive_state dm base (OutW base ?w # tr) =
      s\<lparr>contents := (contents s)(target s := ?ws @ [?w]), busy := latency dm tr, writing := False, taken_words := []\<rparr>"
    using tr(2) s by (simp add: drive_step_def drive_take_def selected_def Let_def del: upt_Suc)
  also have "\<dots> = s\<lparr>contents := (contents s)(target s := ?ws @ [?w]), busy := latency dm (tl (OutW base ?w # tr)), writing := False\<rparr>"
    using s(5) by (cases s) simp
  finally have "drive_state dm base (OutW base ?w # tr) =
      s\<lparr>contents := (contents s)(target s := ?ws @ [?w]), busy := latency dm (tl (OutW base ?w # tr)), writing := False\<rparr>" .
  moreover have "write_words base buff (Suc 255) k = k\<lparr>trace := OutW base ?w # tr\<rparr>"
    unfolding write_words.simps(2) tr(1) by (simp add: k_outw_def outw_def Let_def)
  ultimately show ?thesis unfolding n(2) ws by blast
qed

section \<open>Reading and writing a sector\<close>

text \<open>The bytes of a sector.\<close>

definition sector_bytes :: "u16 list \<Rightarrow> u8 list" where
  "sector_bytes ws = concat (map le_bytes ws)"

lemma ATA_read_ok:
  assumes ans: "ata_answers hw base dm" and base: "base = chan_port (chann_main d) 0" and dev: "ata_device dm d lba48"
    and idle: "drive_idle (drive_state dm base (trace k))" and c: "c = contents (drive_state dm base (trace k))"
    and sec: "length (c (ata_addr lba48 lba)) = 256"
  shows "\<exists>tr. ATA_read hw d lba buff k =
             Inr (True, k\<lparr>mem := store buff (sector_bytes (c (ata_addr lba48 lba))) (mem k), trace := tr\<rparr>) \<and>
           drive_idle (drive_state dm base tr) \<and> contents (drive_state dm base tr) = c"
proof -
  let ?ws = "c (ata_addr lba48 lba)"
  define k1 where "k1 = (if lba48 then ata_request48 d lba CMD_ATA_READ_PIO_EXT k else ata_request28 d lba CMD_ATA_READ_PIO k)"
  obtain n s where n: "n < 1000000" "drive_state dm base (trace k1) = (s\<lparr>ready_words := ?ws\<rparr>)\<lparr>busy := n\<rparr>"
    and s: "drive_idle s" "selected dm s" "contents s = c"
    using request_read [OF base ans dev idle c sec k1_def] by auto
  have "\<exists>t1. k1 = k\<lparr>trace := t1\<rparr>" by (cases lba48) (simp_all add: k1_def requests_keep)
  then obtain t1 where t1: "k1 = k\<lparr>trace := t1\<rparr>" by blast
  have p: "obeyed (s\<lparr>ready_words := ?ws\<rparr>)" "selected dm (s\<lparr>ready_words := ?ws\<rparr>)" "pending (s\<lparr>ready_words := ?ws\<rparr>)"
    using s sec by (auto simp: drive_idle_def selected_def pending_def)
  obtain v t2 where w: "wait_for_data hw (chann_main d) k1 = (v, k1\<lparr>trace := t2\<rparr>)" "v AND 0x01 = 0" "v AND 0x08 \<noteq> 0"
    "drive_state dm base t2 = s\<lparr>ready_words := ?ws, busy := 0\<rparr>"
    using wait_pending [OF ans [unfolded base] p n(2) [unfolded base], of 0 0] n(1) unfolding wait_for_data_def base by auto
  define k2 where "k2 = k1\<lparr>trace := t2\<rparr>"
  define s2 where "s2 = s\<lparr>ready_words := ?ws, busy := 0\<rparr>"
  have s2: "drive_state dm base (trace k2) = s2" "obeyed s2" "selected dm s2" "busy s2 = 0" "ready_words s2 = ?ws"
    using w(4) p by (simp_all add: k2_def s2_def selected_def)
  obtain tr where tr: "read_words hw base buff 256 k2 = k2\<lparr>mem := store buff (sector_bytes ?ws) (mem k2), trace := tr\<rparr>"
    "drive_state dm base tr = s2\<lparr>ready_words := []\<rparr>"
    using read_words_sector [OF ans s2, of 256 buff] sec by (auto simp: sector_bytes_def)
  have "ATA_read hw d lba buff k = Inr (True, read_words hw base buff 256 k2)"
    using w(1-3) dev base by (simp add: ATA_read_def ata_device_def k1_def [symmetric] k2_def [symmetric] Let_def del: read_words.simps)
  also have "\<dots> = Inr (True, k\<lparr>mem := store buff (sector_bytes ?ws) (mem k), trace := tr\<rparr>)"
    unfolding tr(1) by (simp add: k2_def t1)
  finally show ?thesis
    using tr(2) s by (auto simp: drive_idle_def pending_def s2_def)
qed

lemma ATA_write_ok:
  assumes ans: "ata_answers hw base dm" and base: "base = chan_port (chann_main d) 0" and dev: "ata_device dm d lba48"
    and idle: "drive_idle (drive_state dm base (trace k))" and c: "c = contents (drive_state dm base (trace k))"
    and sec: "length (c (ata_addr lba48 lba)) = 256"
  shows "\<exists>tr s. ATA_write hw d lba buff k = Inr (True, k\<lparr>trace := tr\<rparr>) \<and>
           drive_state dm base tr = s\<lparr>busy := latency dm (tl tr)\<rparr> \<and> drive_idle s \<and> selected dm s \<and>
           contents s = c(ata_addr lba48 lba := map (\<lambda>j. read_u16 (mem k) (buff + 2 * word_of_nat j)) [0..<256])"
proof -
  let ?a = "ata_addr lba48 lba" and ?new = "map (\<lambda>j. read_u16 (mem k) (buff + 2 * word_of_nat j)) [0..<256]"
  define k1 where "k1 = (if lba48 then ata_request48 d lba CMD_ATA_WRITE_PIO_EXT k else ata_request28 d lba CMD_ATA_WRITE_PIO k)"
  obtain n s where n: "n < 1000000" "drive_state dm base (trace k1) = (s\<lparr>writing := True, target := ?a, taken_words := []\<rparr>)\<lparr>busy := n\<rparr>"
    and s: "drive_idle s" "selected dm s" "contents s = c"
    using request_write [OF base ans dev idle c sec k1_def] by auto
  have "\<exists>t1. k1 = k\<lparr>trace := t1\<rparr>" by (cases lba48) (simp_all add: k1_def requests_keep)
  then obtain t1 where t1: "k1 = k\<lparr>trace := t1\<rparr>" by blast
  define sw where "sw = s\<lparr>writing := True, target := ?a, taken_words := []\<rparr>"
  have p: "obeyed sw" "selected dm sw" "pending sw"
    using s by (auto simp: drive_idle_def selected_def pending_def sw_def)
  obtain v t2 where w: "wait_for_data hw (chann_main d) k1 = (v, k1\<lparr>trace := t2\<rparr>)" "v AND 0x01 = 0" "v AND 0x08 \<noteq> 0"
    "drive_state dm base t2 = sw\<lparr>busy := 0\<rparr>"
    using wait_pending [OF ans [unfolded base] p n(2) [unfolded base, folded sw_def], of 0 0] n(1) unfolding wait_for_data_def base by auto
  define k2 where "k2 = k1\<lparr>trace := t2\<rparr>"
  define s2 where "s2 = sw\<lparr>busy := 0\<rparr>"
  have s2: "drive_state dm base (trace k2) = s2" "selected dm s2" "busy s2 = 0" "writing s2" "taken_words s2 = []"
    using w(4) p by (simp_all add: k2_def s2_def sw_def selected_def)
  have m: "mem k2 = mem k" by (simp add: k2_def t1)
  obtain tr where tr: "write_words base buff 256 k2 = k2\<lparr>trace := tr\<rparr>"
    "drive_state dm base tr = s2\<lparr>contents := (contents s2)(target s2 := ?new), busy := latency dm (tl tr), writing := False\<rparr>"
    using write_words_full [OF s2, of buff] unfolding m by blast
  have "ATA_write hw d lba buff k = Inr (True, write_words base buff 256 k2)"
    using w(1-3) dev base by (simp add: ATA_write_def ata_device_def k1_def [symmetric] k2_def [symmetric] Let_def del: write_words.simps)
  also have "\<dots> = Inr (True, k\<lparr>trace := tr\<rparr>)"
    unfolding tr(1) by (simp add: k2_def t1)
  finally have run: "ATA_write hw d lba buff k = Inr (True, k\<lparr>trace := tr\<rparr>)" .
  let ?t = "s2\<lparr>contents := (contents s2)(target s2 := ?new), writing := False\<rparr>"
  have "drive_state dm base tr = ?t\<lparr>busy := latency dm (tl tr)\<rparr>" unfolding tr(2) by simp
  moreover have "drive_idle ?t" "selected dm ?t" "contents ?t = c(?a := ?new)"
    using s by (simp_all add: s2_def sw_def drive_idle_def pending_def selected_def)
  ultimately show ?thesis using run by blast
qed

text \<open>The words in a buffer and its bytes.\<close>

lemma bytes_words:
  "concat (map le_bytes (map (\<lambda>j. read_u16 m (a + 2 * word_of_nat j)) [0..<n])) = bytes m a (2 * n)"
proof (induction n)
  case 0
  then show ?case by simp
next
  case (Suc n)
  have "le_bytes (read_u16 m x) = [m x, m (x + 1)]" for x
  proof -
    have "ucast (read_u16 m x) = m x" "ucast (drop_bit 8 (read_u16 m x)) = m (x + 1)"
      by (rule bit_word_eqI; auto simp: read_u16_def bit_simps dest: bit_imp_le_length)+
    then show ?thesis by (simp add: le_bytes_def)
  qed
  then show ?case
    using Suc by (simp add: bytes_Suc algebra_simps)
qed

section \<open>Properties\<close>


text \<open>A drive whose host has broken the protocol promises nothing any more.\<close>

lemma obeyed_step: "\<not> obeyed s \<Longrightarrow> \<not> obeyed (drive_step dm base tr ev s)"
  by (auto simp: drive_step_def drive_set_def drive_command_def drive_take_def Let_def split: io_event.splits)

lemma busy_request:
  assumes "base = chan_port (chann_main d) 0" and "0 < busy (drive_state dm base (trace k))"
  shows "\<not> obeyed (drive_state dm base (trace (ata_request48 d lba cmd k)))"
    and "\<not> obeyed (drive_state dm base (trace (ata_request28 d lba cmd k)))"
proof -
  have "\<not> obeyed (drive_step dm base tr (OutB (base + 6) v) (drive_state dm base (trace k)))" for tr v
    using assms(2) by (simp add: drive_regs drive_set_def)
  then show "\<not> obeyed (drive_state dm base (trace (ata_request48 d lba cmd k)))"
    and "\<not> obeyed (drive_state dm base (trace (ata_request28 d lba cmd k)))"
    by (simp_all add: ata_request48_def ata_request28_def Let_def drive_outb chan_ports assms(1) [symmetric] obeyed_step)
qed


text \<open>
  C39. A device that never asserts ERR or DRQ, for instance a channel without a disk,
  does not hang the driver: after a million polls \<^verbatim>\<open>ATA_read\<close> returns
  \<^verbatim>\<open>false\<close> and memory is unchanged.
\<close>

theorem ATA_read_timeout:
  assumes "\<And>tr. port_in hw tr (chan_port (chann_main d) 7) AND 0x01 = 0"
    and "\<And>tr. port_in hw tr (chan_port (chann_main d) 7) AND 0x08 = 0"
    and "d_driver d = ATA_driver_data lba48"
  shows "\<exists>tr. ATA_read hw d lba buff k = Inr (False, say_LN ''ATA read device no data'' (k\<lparr>trace := tr\<rparr>))"
proof -
  define k1 where "k1 = (if lba48 then ata_request48 d lba CMD_ATA_READ_PIO_EXT k else ata_request28 d lba CMD_ATA_READ_PIO k)"
  have "\<exists>t1. k1 = k\<lparr>trace := t1\<rparr>" by (cases lba48) (simp_all add: k1_def requests_keep)
  then obtain t1 where t1: "k1 = k\<lparr>trace := t1\<rparr>" by blast
  obtain status tr where "wait_for_data hw (chann_main d) k1 = (status, k1\<lparr>trace := tr\<rparr>)"
    "status AND 0x01 = 0" "status AND 0x08 = 0"
    using wait_idle [OF assms(1,2), of 0 0 k1] by (auto simp: wait_for_data_def)
  then show ?thesis
    using assms(3) t1 by (auto simp: ATA_read_def k1_def [symmetric] Let_def)
qed

section \<open>Witnesses\<close>

text \<open>A drive on the primary channel whose sector \<open>n\<close> is filled with the word \<open>n\<close>, and which is busy for three polls after
  every command and after every sector it has taken.\<close>

definition demo_sectors :: sectors where
  "demo_sectors n = replicate 256 (word_of_nat n)"

definition demo_drive :: disk_model where
  "demo_drive = \<lparr>image = demo_sectors, is_slave = False, latency = (\<lambda>_. 3)\<rparr>"

definition demo_disk :: disk_device where
  "demo_disk = \<lparr>d_name = [], d_type = DISK_ATA, chann_main = 0x1F0, chann_sub = 0xA0, d_size = 0,
                d_driver = ATA_driver_data True\<rparr>"

definition demo_machine :: machine where
  "demo_machine = \<lparr>mem = (\<lambda>a. ucast a), console = [], trace = []\<rparr>"

lemma demo_answers: "ata_answers (drive_hw demo_drive) 0x1F0 demo_drive"
  by (rule drive_hw_answers) (simp add: demo_drive_def)

lemma demo_port: "0x1F0 = chan_port (chann_main demo_disk) 0"
  by (simp add: demo_disk_def chan_port_def)

lemma demo_device: "ata_device demo_drive demo_disk True"
  by (simp add: ata_device_def demo_disk_def demo_drive_def)

lemma demo_idle: "drive_idle (drive_state demo_drive b (trace demo_machine))"
  by (simp add: demo_machine_def drive_idle_def pending_def)

lemma demo_contents: "contents (drive_state demo_drive b (trace demo_machine)) = demo_sectors"
  by (simp add: demo_machine_def demo_drive_def)

lemma length_demo_sectors [simp]: "length (demo_sectors n) = 256"
  by (simp add: demo_sectors_def)



lemma ATA_read_timeout_witness:
  "\<exists>tr. ATA_read ((drive_hw demo_drive)\<lparr>port_in := \<lambda>_ _. 0\<rparr>) demo_disk 7 0x8000 demo_machine =
     Inr (False, say_LN ''ATA read device no data'' (demo_machine\<lparr>trace := tr\<rparr>))"
  by (rule ATA_read_timeout) (simp_all add: demo_disk_def)

end
