(* ===== verification/Sata.thy ===== *)
theory Sata
  imports Ata
begin

text \<open>
  The AHCI driver's command path (\<^verbatim>\<open>drivers/disk/sata/sata.c\<close>): configuring a
  port, issuing a command and reading a sector, and the dispatch of \<^verbatim>\<open>read_disk\<close> and
  \<^verbatim>\<open>write_disk\<close> (\<^verbatim>\<open>drivers/disk/common.c\<close>). Command lists, command
  tables, FIS and buffers are in byte memory at the offsets of the packed structures of
  \<^verbatim>\<open>sata.h\<close>; registers are read through the hardware. A local structure of a routine
  is at an address \<open>sp\<close> in memory, with whatever the stack held before.
\<close>

section \<open>Layout\<close>

text \<open>Registers of a port.\<close>

definition PX_CLB :: u64 where "PX_CLB = 0x00"
definition PX_CLBU :: u64 where "PX_CLBU = 0x04"
definition PX_FB :: u64 where "PX_FB = 0x08"
definition PX_FBU :: u64 where "PX_FBU = 0x0C"
definition PX_IS :: u64 where "PX_IS = 0x10"
definition PX_CMD :: u64 where "PX_CMD = 0x18"
definition PX_TFD :: u64 where "PX_TFD = 0x20"
definition PX_SERR :: u64 where "PX_SERR = 0x30"
definition PX_SACT :: u64 where "PX_SACT = 0x34"
definition PX_CI :: u64 where "PX_CI = 0x38"

lemmas port_regs = PX_CLB_def PX_CLBU_def PX_FB_def PX_FBU_def PX_IS_def PX_CMD_def PX_TFD_def PX_SERR_def
  PX_SACT_def PX_CI_def

definition sizeof_fis :: u64 where "sizeof_fis = 20"
definition sizeof_cmd_header :: u64 where "sizeof_cmd_header = 32"
definition sizeof_cmd_table :: u64 where "sizeof_cmd_table = 144"

definition CMD_SATA_READ_DMA_EXT :: u8 where "CMD_SATA_READ_DMA_EXT = 0x24"
definition CMD_SATA_IDENTIFY :: u8 where "CMD_SATA_IDENTIFY = 0xEC"

definition upd_mem :: "(memory \<Rightarrow> memory) \<Rightarrow> 'z machine_scheme \<Rightarrow> 'z machine_scheme" where
  "upd_mem f k = k\<lparr>mem := f (mem k)\<rparr>"

section \<open>Polling\<close>

text \<open>\<^verbatim>\<open>while (reg & mask) { if (!timeout--) return false; }\<close>\<close>

function wait_clear :: "hardware \<Rightarrow> u64 \<Rightarrow> u32 \<Rightarrow> u32 \<Rightarrow> 'z machine_scheme \<Rightarrow> bool \<times> 'z machine_scheme" where
  "wait_clear hw a mask_bits timeout k =
     (let (v, k1) = reg_read hw a k in
      if v AND mask_bits \<noteq> 0 then
        (if timeout = 0 then (False, k1) else wait_clear hw a mask_bits (timeout - 1) k1)
      else (True, k1))"
  by pat_completeness auto
termination
  by (relation "measure (\<lambda>(_, _, _, t, _). unat t)") (auto, metis diff_less unat_0 unat_gt_0 unat_minus_one zero_less_one)

declare wait_clear.simps [simp del]

text \<open>\<^verbatim>\<open>reg &= ~bit\<close> and \<^verbatim>\<open>reg |= bit\<close>\<close>

definition reg_clear :: "hardware \<Rightarrow> u64 \<Rightarrow> u32 \<Rightarrow> 'z machine_scheme \<Rightarrow> 'z machine_scheme" where
  "reg_clear hw a b k = (let (v, k1) = reg_read hw a k in reg_write a (v AND NOT b) k1)"

definition reg_set :: "hardware \<Rightarrow> u64 \<Rightarrow> u32 \<Rightarrow> 'z machine_scheme \<Rightarrow> 'z machine_scheme" where
  "reg_set hw a b k = (let (v, k1) = reg_read hw a k in reg_write a (v OR b) k1)"

section \<open>Command slots\<close>

function first_free_slot :: "u32 \<Rightarrow> u64 \<Rightarrow> u64 \<Rightarrow> int" where
  "first_free_slot occupied slots i =
     (if i < slots then
        (if occupied AND push_bit (unat i) 1 = 0 then int (unat i) else first_free_slot occupied slots (i + 1))
      else - 1)"
  by pat_completeness auto
termination
  by (relation "measure (\<lambda>(_, n, i). unat n - unat i)") (auto simp: unat_step_less)

declare first_free_slot.simps [simp del]

definition SATA_find_command_slot :: "hardware \<Rightarrow> u64 \<Rightarrow> u64 \<Rightarrow> 'z machine_scheme \<Rightarrow> int \<times> 'z machine_scheme" where
  "SATA_find_command_slot hw port slots k =
     (let (ci, k1) = reg_read hw (port + PX_CI) k; (sact, k2) = reg_read hw (port + PX_SACT) k1 in
      (first_free_slot (ci OR sact) slots 0, k2))"

section \<open>Configuring a port\<close>

text \<open>The loop over the command tables.\<close>

function configure_tables ::
  "sata_port_data \<Rightarrow> u64 \<Rightarrow> u64 \<Rightarrow> 'z manager_scheme \<Rightarrow> (bool \<times> 'z manager_scheme) result" where
  "configure_tables d slots i k =
     (if i < slots then
        (case low_kalloc_aligned sizeof_cmd_table 128 k of
           Inl f \<Rightarrow> Inl f
         | Inr (p, k1) \<Rightarrow>
             let k2 = upd_mem (write_u64 (cmd_tables d + 8 * i) p) k1 in
             if p = 0 then Inr (False, k2)
             else
               configure_tables d slots (i + 1)
                 (upd_mem (\<lambda>m. write_u32 (cmd_list d + sizeof_cmd_header * i + 12) 0
                              (write_u32 (cmd_list d + sizeof_cmd_header * i + 8) (ucast p)
                              (memset p 0 sizeof_cmd_table m))) k2))
      else Inr (True, k))"
  by pat_completeness auto
termination
  by (relation "measure (\<lambda>(_, n, i, _). unat n - unat i)") (auto simp: unat_step_less)

declare configure_tables.simps [simp del]

definition SATA_port_configure ::
  "hardware \<Rightarrow> u64 \<Rightarrow> u64 \<Rightarrow> 'z manager_scheme \<Rightarrow> (sata_port_data option \<times> 'z manager_scheme) result" where
  "SATA_port_configure hw port slots k =
     (if port = 0 \<or> slots = 0 \<or> slots > 32 then Inr (None, k)
      else
        let (ok1, k1) = wait_clear hw (port + PX_CMD) (push_bit 15 1) 10000000 (reg_clear hw (port + PX_CMD) 1 k) in
        if \<not> ok1 then Inr (None, k1)
        else
          let (ok2, k2) = wait_clear hw (port + PX_CMD) (push_bit 14 1) 10000000
                            (reg_clear hw (port + PX_CMD) (push_bit 4 1) k1) in
          if \<not> ok2 then Inr (None, k2)
          else
            andthen (low_kalloc_aligned 1024 1024 k2) (\<lambda>(cl, k3).
            andthen (low_kalloc_aligned 256 256 k3) (\<lambda>(fs, k4).
            andthen (low_kalloc (8 * slots) k4) (\<lambda>(ct, k5).
            if cl = 0 \<or> fs = 0 \<or> ct = 0 then Inr (None, k5)
            else
              let d = \<lparr>cmd_list = cl, fis_area = fs, cmd_tables = ct, command_slots = slots\<rparr>;
                  k6 = upd_mem (\<lambda>m. memset ct 0 (8 * slots) (memset fs 0 256 (memset cl 0 1024 m))) k5 in
              andthen (configure_tables d slots 0 k6) (\<lambda>(ok3, k7).
              if \<not> ok3 then Inr (None, k7)
              else
                let k8 = reg_write (port + PX_FBU) 0 (reg_write (port + PX_FB) (ucast fs)
                          (reg_write (port + PX_CLBU) 0 (reg_write (port + PX_CLB) (ucast cl) k7)));
                    k9 = reg_set hw (port + PX_CMD) 1 (reg_set hw (port + PX_CMD) (push_bit 4 1) k8) in
                Inr (Some d, k9))))))"

section \<open>Executing a command\<close>

text \<open>The loop that waits for the completion of the command in a slot.\<close>

function wait_command :: "hardware \<Rightarrow> u64 \<Rightarrow> u32 \<Rightarrow> u32 \<Rightarrow> 'z machine_scheme \<Rightarrow> bool \<times> 'z machine_scheme" where
  "wait_command hw port slot_bit timeout k =
     (let (ci, k1) = reg_read hw (port + PX_CI) k in
      if ci AND slot_bit \<noteq> 0 then
        (let (is, k2) = reg_read hw (port + PX_IS) k1 in
         if is AND push_bit 30 1 \<noteq> 0 then (False, k2)
         else if timeout = 0 then (False, k2)
         else wait_command hw port slot_bit (timeout - 1) k2)
      else (True, k1))"
  by pat_completeness auto
termination
  by (relation "measure (\<lambda>(_, _, _, t, _). unat t)") (auto, metis diff_less unat_0 unat_gt_0 unat_minus_one zero_less_one)

declare wait_command.simps [simp del]

text \<open>The command header, the command table and the PRDT entry for the slot; \<open>fis\<close> is the address
  of the FIS that is copied.\<close>

definition fill_command :: "u64 \<Rightarrow> u64 \<Rightarrow> u64 \<Rightarrow> bool \<Rightarrow> memory \<Rightarrow> memory" where
  "fill_command header table fis is_write m =
     write_u32 (header + 4) 0
    (write_u16 (header + 2) 1
    (write_u16 header (5 OR (if is_write then push_bit 6 1 else 0))
    (memcpy fis table sizeof_fis
    (memset table 0 sizeof_cmd_table m))))"

definition fill_prdt :: "u64 \<Rightarrow> u64 \<Rightarrow> u64 \<Rightarrow> memory \<Rightarrow> memory" where
  "fill_prdt table buffer sz m =
     write_u32 (table + 140) (ucast (sz - 1))
    (write_u32 (table + 136) 0
    (write_u32 (table + 132) 0
    (write_u32 (table + 128) (ucast buffer) m)))"

definition SATA_execute_command ::
  "hardware \<Rightarrow> u64 \<Rightarrow> sata_port_data \<Rightarrow> u64 \<Rightarrow> u64 \<Rightarrow> u64 \<Rightarrow> bool \<Rightarrow> 'z machine_scheme \<Rightarrow> bool \<times> 'z machine_scheme" where
  "SATA_execute_command hw port d fis buffer sz is_write k =
     (if port = 0 \<or> fis = 0 \<or> buffer = 0 \<or> sz = 0 \<or> sz > 0x400000 then (False, k)
      else
        let (slot, k1) = SATA_find_command_slot hw port (command_slots d) k in
        if slot < 0 then (False, k1)
        else
          let (ready, k2) = wait_clear hw (port + PX_TFD) (push_bit 7 1 OR push_bit 3 1) 10000000 k1 in
          if \<not> ready then (False, k2)
          else
            let header = cmd_list d + sizeof_cmd_header * word_of_int slot;
                table = read_u64 (mem k2) (cmd_tables d + 8 * word_of_int slot);
                k3 = upd_mem (fill_command header table fis is_write) k2 in
            if buffer AND 3 \<noteq> 0 \<or> buffer > 0xFFFFFFFF then (False, k3)
            else
              let k4 = upd_mem (fill_prdt table buffer sz) k3;
                  k5 = reg_write (port + PX_CI) (push_bit (nat slot) 1)
                        (reg_write (port + PX_SERR) 0xFFFFFFFF (reg_write (port + PX_IS) 0xFFFFFFFF k4));
                  (done_ok, k6) = wait_command hw port (push_bit (nat slot) 1) 10000000 k5 in
              if \<not> done_ok then (False, k6)
              else
                let (tfd, k7) = reg_read hw (port + PX_TFD) k6 in
                if tfd AND 1 \<noteq> 0 then (False, k7)
                else
                  let (is, k8) = reg_read hw (port + PX_IS) k7 in (is AND push_bit 30 1 = 0, k8))"

section \<open>Reading a sector\<close>

text \<open>The FIS of a read, as the assignments leave it: the bytes that are not assigned keep what
  \<open>memset\<close> left.\<close>

definition read_fis :: "u64 \<Rightarrow> u64 \<Rightarrow> memory \<Rightarrow> memory" where
  "read_fis sp lba m =
     m(sp := 0x27, sp + 1 := 0x80, sp + 2 := CMD_SATA_READ_DMA_EXT,
       sp + 4 := lba_byte 0 lba, sp + 5 := lba_byte 1 lba, sp + 6 := lba_byte 2 lba,
       sp + 8 := lba_byte 3 lba, sp + 9 := lba_byte 4 lba, sp + 10 := lba_byte 5 lba,
       sp + 7 := push_bit 6 1, sp + 12 := 1, sp + 13 := 0)"

definition SATA_read ::
  "hardware \<Rightarrow> u64 \<Rightarrow> disk_device \<Rightarrow> u64 \<Rightarrow> u64 \<Rightarrow> 'z manager_scheme \<Rightarrow> (bool \<times> 'z manager_scheme) result" where
  "SATA_read hw sp d lba buff k =
     (if buff = 0 then Inr (False, k)
      else
        andthen (low_kalloc_aligned 512 512 k) (\<lambda>(dma_buffer, k1).
        if dma_buffer = 0 then Inr (False, k1)
        else
          let k2 = upd_mem (\<lambda>m. read_fis sp lba (memset sp 0 sizeof_fis (memset dma_buffer 0 512 m))) k1 in
          (case d_driver d of
             SATA_driver_data _ port pd _ \<Rightarrow>
               let (success, k3) = SATA_execute_command hw port pd sp dma_buffer 512 False k2;
                   k4 = (if success then upd_mem (memcpy dma_buffer buff 512) k3 else k3) in
               andthen (low_kfree dma_buffer k4) (\<lambda>k5. Inr (success, k5))
           | _ \<Rightarrow> Inl NullDeref)))"

section \<open>The dispatch\<close>

definition read_disk ::
  "hardware \<Rightarrow> u64 \<Rightarrow> disk_device \<Rightarrow> u32 \<Rightarrow> u64 \<Rightarrow> 'z manager_scheme \<Rightarrow> (bool \<times> 'z manager_scheme) result" where
  "read_disk hw sp d lba buff k =
     (case d_type d of
        DISK_ATA \<Rightarrow> ATA_read hw d (ucast lba) buff k
      | DISK_SATA \<Rightarrow> SATA_read hw sp d (ucast lba) buff k
      | DISK_NONE \<Rightarrow> Inr (False, k))"

definition write_disk ::
  "hardware \<Rightarrow> disk_device \<Rightarrow> u32 \<Rightarrow> u64 \<Rightarrow> 'z manager_scheme \<Rightarrow> (bool \<times> 'z manager_scheme) result" where
  "write_disk hw d lba buff k =
     (case d_type d of
        DISK_ATA \<Rightarrow> ATA_write hw d (ucast lba) buff k
      | DISK_SATA \<Rightarrow> Inl Halted
      | DISK_NONE \<Rightarrow> Inr (False, k))"

end
