(* ===== verification/Block_Device.thy ===== *)
theory Block_Device
  imports Kernel_Heap Ata_Props Sata
begin

text \<open>
  The interface between the disk drivers and the file systems. \<open>block_reader\<close> is the contract
  of \<^verbatim>\<open>read_disk\<close> on a device that is ready: the read succeeds, the buffer holds the sector, nothing
  else in the kernel's state changes except the history of device accesses and the memory that the driver owns, and the
  device is ready again. \<^verbatim>\<open>read_disk\<close> on an ATA disk interprets it, with no memory of its own, and so does the
  AHCI driver (in \<open>Sata_Reader\<close>); the file systems' lemmas are proved in it.
\<close>

section \<open>Adjacent and separate runs of bytes\<close>

lemma store_append:
  assumes "length xs + length ys < 2 ^ 64"
  shows "store (a + word_of_nat (length xs)) ys (store a xs m) = store a (xs @ ys) m"
  using assms
proof (induction ys rule: rev_induct)
  case Nil
  then show ?case by simp
next
  case (snoc y ys)
  then have "store (a + word_of_nat (length xs)) (ys @ [y]) (store a xs m) =
      (store a (xs @ ys) m)(a + word_of_nat (length xs) + word_of_nat (length ys) := y)"
    by (simp add: store_snoc)
  also have "\<dots> = store a ((xs @ ys) @ [y]) m"
    using snoc.prems by (subst store_snoc) (simp_all add: add.assoc)
  finally show ?case by simp
qed

lemma store_elsewhere:
  assumes "unat x < unat a \<or> unat a + length bs \<le> unat x" and "unat a + length bs < 2 ^ 64"
  shows "store a bs m x = m x"
proof (rule store_out)
  show "length bs \<le> unat (x - a)"
  proof (cases "a \<le> x")
    case True
    then show ?thesis using assms(1) by (simp add: unat_sub word_le_nat_alt)
  next
    case False
    then have "unat (x - a) = 2 ^ 64 + unat x - unat a"
      using unat_sub_if' [of x a] by (simp add: word_le_nat_alt)
    then show ?thesis using assms(2) by simp
  qed
qed

lemma bytes_store_apart:
  assumes "extent a (word_of_nat (length bs)) \<inter> extent b (word_of_nat n) = {}"
    and "unat a + length bs < 2 ^ 64" and "unat b + n < 2 ^ 64"
  shows "bytes (store a bs m) b n = bytes m b n"
proof (rule nth_equalityI)
  fix j assume "j < length (bytes (store a bs m) b n)"
  then have j: "j < n" by simp
  have len: "unat (word_of_nat (length bs) :: u64) = length bs" "unat (word_of_nat n :: u64) = n"
    using assms(2,3) by (simp_all add: unat_of_nat_u64)
  have at: "unat (b + word_of_nat j) = unat b + j" using assms(3) j by (rule extent_bytes)
  have "unat b + j \<notin> {unat a..<unat a + length bs}"
    using assms(1) j by (auto simp: extent_def len)
  then have "store a bs m (b + word_of_nat j) = m (b + word_of_nat j)"
    using assms(2) by (intro store_elsewhere) (auto simp: at)
  then show "bytes (store a bs m) b n ! j = bytes m b n ! j" using j by simp
qed simp

lemma bytes_store_prefix:
  assumes "n \<le> length bs" and "length bs < 2 ^ 64"
  shows "bytes (store a bs m) a n = take n bs"
  using assms by (intro nth_equalityI) (simp_all add: store_in)

section \<open>Bytes that arrive in a buffer\<close>

text \<open>The buffer holds \<open>s\<close>, and nothing but the buffer and \<open>S\<close> has changed.\<close>

definition placed :: "nat set \<Rightarrow> u64 \<Rightarrow> u8 list \<Rightarrow> memory \<Rightarrow> memory \<Rightarrow> bool" where
  "placed S buf s m m' \<longleftrightarrow>
     bytes m' buf (length s) = s \<and> (\<forall>x. unat x \<notin> {unat buf..<unat buf + length s} \<union> S \<longrightarrow> m' x = m x)"

lemma placed_store:
  assumes "unat buf + length s < 2 ^ 64"
  shows "placed S buf s m (store buf s m)"
  using assms by (auto simp: placed_def bytes_store intro!: store_elsewhere)

lemma placed_nth:
  assumes "placed S buf s m m'" and "j < length s"
  shows "m' (buf + word_of_nat j) = s ! j"
proof -
  have "m' (buf + word_of_nat j) = bytes m' buf (length s) ! j" using assms(2) by simp
  also have "\<dots> = s ! j" using assms(1) by (simp only: placed_def)
  finally show ?thesis .
qed

lemma placed_self:
  assumes "placed S buf s m m'" and "unat buf + length s < 2 ^ 64"
  shows "store buf s m' = m'"
proof
  fix x
  show "store buf s m' x = m' x"
  proof (cases "unat (x - buf) < length s")
    case True
    then show ?thesis using placed_nth [OF assms(1) True] by (simp add: store_def)
  qed (simp add: store_def)
qed

text \<open>Where nothing else may change, the memory is determined.\<close>

lemma placed_only:
  assumes "placed {} buf s m m'" and "unat buf + length s < 2 ^ 64"
  shows "m' = store buf s m"
proof
  fix x
  show "m' x = store buf s m x"
  proof (cases "unat x \<in> {unat buf..<unat buf + length s}")
    case True
    then have "unat (x - buf) = unat x - unat buf" by (simp add: unat_sub word_le_nat_alt)
    then have at: "unat (x - buf) < length s" using True by (auto simp: less_diff_conv2)
    have "m' x = store buf s m' x" by (simp add: placed_self [OF assms])
    with at show ?thesis by (simp add: store_def)
  next
    case False
    then have "m' x = m x" using assms(1) by (simp add: placed_def)
    moreover have "store buf s m x = m x" using False assms(2) by (intro store_elsewhere) auto
    ultimately show ?thesis by simp
  qed
qed

lemma placed_append:
  assumes "placed S buf xs m m1" and "placed S (buf + word_of_nat (length xs)) ys m1 m2"
    and n: "unat buf + (length xs + length ys) < 2 ^ 64" and S: "{unat buf..<unat buf + (length xs + length ys)} \<inter> S = {}"
  shows "placed S buf (xs @ ys) m m2"
proof -
  let ?b = "buf + word_of_nat (length xs)"
  have b: "unat ?b = unat buf + length xs"
  proof -
    have "unat (word_of_nat (length xs) :: u64) = length xs" using n by (intro unat_of_nat_u64) simp
    then show ?thesis using n by (subst unat_add_u64) simp_all
  qed
  have "bytes m2 buf (length (xs @ ys)) ! j = (xs @ ys) ! j" if j: "j < length (xs @ ys)" for j
  proof (cases "j < length xs")
    case True
    have at: "unat (buf + word_of_nat j) = unat buf + j" using n j by (intro extent_bytes [of buf "length xs + length ys"]) simp_all
    have "unat buf + j \<in> {unat buf..<unat buf + (length xs + length ys)}" using j by simp
    then have "unat buf + j \<notin> S" using S by blast
    then have "m2 (buf + word_of_nat j) = m1 (buf + word_of_nat j)"
      using assms(2) True by (simp add: placed_def at b)
    then show ?thesis using placed_nth [OF assms(1) True] True j by (simp add: nth_append)
  next
    case False
    then show ?thesis using placed_nth [OF assms(2), of "j - length xs"] j by (simp add: nth_append of_nat_diff)
  qed
  then have "bytes m2 buf (length (xs @ ys)) = xs @ ys" by (intro nth_equalityI) simp_all
  then show ?thesis using assms(1,2) by (auto simp: placed_def b)
qed

lemma placed_Nil: "placed S buf [] m m"
  by (simp add: placed_def)

text \<open>Memory outside a set of addresses stays as it is.\<close>

definition calm :: "nat set \<Rightarrow> memory \<Rightarrow> memory \<Rightarrow> bool" where
  "calm F m m' \<longleftrightarrow> (\<forall>x. unat x \<notin> F \<longrightarrow> m' x = m x)"

lemma calmD: "calm F m m' \<Longrightarrow> unat x \<notin> F \<Longrightarrow> m' x = m x"
  by (simp add: calm_def)

lemma calm_refl [simp]: "calm F m m"
  by (simp add: calm_def)

lemma calm_trans: "calm F m m' \<Longrightarrow> calm F m' m'' \<Longrightarrow> calm F m m''"
  by (simp add: calm_def)

lemma calm_mono: "calm F m m' \<Longrightarrow> F \<subseteq> F' \<Longrightarrow> calm F' m m'"
  by (auto simp: calm_def)

lemma placed_calm: "placed S buf s m m' \<Longrightarrow> {unat buf..<unat buf + length s} \<union> S \<subseteq> F \<Longrightarrow> calm F m m'"
  unfolding placed_def calm_def by blast

lemma bytes_calm:
  assumes "calm F m m'" and "unat a + n < 2 ^ 64" and "{unat a..<unat a + n} \<inter> F = {}"
  shows "bytes m' a n = bytes m a n"
proof (rule nth_equalityI)
  fix j assume "j < length (bytes m' a n)"
  then have j: "j < n" by simp
  have "unat (a + word_of_nat j) = unat a + j" using assms(2) j by (rule extent_bytes)
  moreover have "unat a + j \<in> {unat a..<unat a + n}" using j by simp
  ultimately have "unat (a + word_of_nat j) \<notin> F" using assms(3) by (simp add: disjoint_iff)
  then have "m' (a + word_of_nat j) = m (a + word_of_nat j)" by (rule calmD [OF assms(1)])
  then show "bytes m' a n ! j = bytes m a n ! j" using j by simp
qed simp

section \<open>The memory of a heap\<close>

definition heap_span :: "heap \<Rightarrow> nat set" where
  "heap_span h = {unat (start_addr h)..<unat (start_addr h) + length (blocks h) * bsz h}"

text \<open>A heap away from a set of addresses: whatever it grants does not meet them.\<close>

definition away :: "heap \<Rightarrow> nat set \<Rightarrow> bool" where
  "away h S \<longleftrightarrow> heap_span h \<inter> S = {}"

lemma away_empty [simp]: "away h {}"
  by (simp add: away_def)

lemma away_used: "heap_inv h \<Longrightarrow> away h S \<Longrightarrow> a \<in> heap_used h \<Longrightarrow> a \<notin> S"
  using used_in_span [of h a] unfolding away_def heap_span_def by blast

lemma away_free: "away h S \<Longrightarrow> a \<in> heap_free h \<Longrightarrow> a \<notin> S"
  unfolding away_def heap_span_def heap_free_def by blast

lemma away_grant:
  assumes "heap_inv h" and "away h S" and "grant h sz p h'"
  shows "away h' S" and "extent p sz \<inter> S = {}"
proof -
  note g = grantD [OF assms(3)]
  have "length (blocks h') = length (blocks h)"
    using heap_inv_length [OF assms(1)] heap_inv_length [OF g(1)] g(8,10) by simp
  then show "away h' S" using assms(2) g(8,9) by (simp add: away_def heap_span_def)
  show "extent p sz \<inter> S = {}" using grant_in_free(1) [OF assms(1,3)] away_free [OF assms(2)] by blast
qed

lemma calm_used:
  assumes "heap_inv h" and "away h S" and "calm (heap_free h \<union> S) m m'" and "unat x \<in> heap_used h"
  shows "m' x = m x"
  using away_used [OF assms(1,2,4)] assms(4) by (intro calmD [OF assms(3)]) (auto simp: heap_free_def)

section \<open>The contract\<close>

text \<open>\<open>own\<close> is the memory that the driver uses for itself: a read may change it, and apart from the history of device
  accesses and the low heap nothing else decides whether the device is ready.\<close>

locale block_reader =
  fixes rd :: "'z reader"
    and ready :: "disk_device \<Rightarrow> 'z manager_scheme \<Rightarrow> bool"
    and sector :: "disk_device \<Rightarrow> u32 \<Rightarrow> u8 list"
    and own :: "nat set"
  assumes read_ok: "ready d k \<Longrightarrow> buf \<noteq> 0 \<Longrightarrow> unat buf + 512 < 2 ^ 64 \<Longrightarrow> {unat buf..<unat buf + 512} \<inter> own = {} \<Longrightarrow>
      \<exists>m tr. rd d lba buf k = Inr (True, k\<lparr>mem := m, trace := tr\<rparr>) \<and> ready d (k\<lparr>mem := m, trace := tr\<rparr>) \<and>
             placed own buf (sector d lba) (mem k) m"
    and ready_same: "ready d k \<Longrightarrow> trace k' = trace k \<Longrightarrow> low_heap k' = low_heap k \<Longrightarrow>
      (\<forall>x. unat x \<in> own \<longrightarrow> mem k' x = mem k x) \<Longrightarrow> ready d k'"
    and sector_512: "ready d k \<Longrightarrow> length (sector d lba) = 512"
begin

lemma ready_more:
  "ready d k \<Longrightarrow> ready d (k\<lparr>root_heap := h\<rparr>)" "ready d k \<Longrightarrow> ready d (k\<lparr>console := t\<rparr>)"
  "ready d k \<Longrightarrow> ready d (say_bytes u k)"
  by (erule ready_same; simp add: say_bytes_def)+

text \<open>A sector into a buffer that the root heap has granted.\<close>

lemma read_grant:
  assumes "ready d k" and "heap_inv h" and "away h own" and g: "grant h 512 p h'"
  shows "\<exists>m tr. rd d lba p k = Inr (True, k\<lparr>mem := m, trace := tr\<rparr>) \<and> ready d (k\<lparr>mem := m, trace := tr\<rparr>) \<and>
    placed own p (sector d lba) (mem k) m \<and> calm (heap_free h \<union> own) (mem k) m"
proof -
  note gd = grantD [OF g] and ext = away_grant(2) [OF assms(2,3) g]
  have p: "unat p + 512 < 2 ^ 64" "{unat p..<unat p + 512} \<inter> own = {}" using gd(7) ext by (simp_all add: extent_def)
  obtain m tr where m: "rd d lba p k = Inr (True, k\<lparr>mem := m, trace := tr\<rparr>)" "ready d (k\<lparr>mem := m, trace := tr\<rparr>)"
    "placed own p (sector d lba) (mem k) m" using read_ok [OF assms(1) gd(2) p] by blast
  have "calm (heap_free h \<union> own) (mem k) m"
  proof (rule placed_calm [OF m(3)])
    show "{unat p..<unat p + length (sector d lba)} \<union> own \<subseteq> heap_free h \<union> own"
      using grant_in_free(1) [OF assms(2) g] sector_512 [OF assms(1)] by (auto simp: extent_def)
  qed
  then show ?thesis using m by blast
qed

end

section \<open>The ATA disk behind \<^verbatim>\<open>read_disk\<close>\<close>

text \<open>An ATA disk in the state after the accesses \<open>tr\<close>: its drive follows the command set, is idle and has the
  sectors \<open>c\<close>, one for every number.\<close>

definition ata_ready :: "hardware \<Rightarrow> disk_model \<Rightarrow> sectors \<Rightarrow> disk_device \<Rightarrow> history \<Rightarrow> bool" where
  "ata_ready hw dm c d tr \<longleftrightarrow>
     d_type d = DISK_ATA \<and> (\<exists>lba48. ata_device dm d lba48) \<and> ata_answers hw (chan_port (chann_main d) 0) dm \<and>
     drive_idle (drive_state dm (chan_port (chann_main d) 0) tr) \<and>
     contents (drive_state dm (chan_port (chann_main d) 0) tr) = c \<and> (\<forall>n. length (c n) = 256)"

definition disk_sector :: "sectors \<Rightarrow> disk_device \<Rightarrow> u32 \<Rightarrow> u8 list" where
  "disk_sector c d lba = sector_bytes (c (ata_addr (has_LBA48 (d_driver d)) (ucast lba)))"

interpretation ata_disk: block_reader "read_disk hw sp" "\<lambda>d k. ata_ready hw dm c d (trace k)" "disk_sector c" "{}" for hw sp dm c
proof
  fix d :: disk_device and k :: "'z manager_scheme" and lba :: u32 and buf :: u64
  assume r: "ata_ready hw dm c d (trace k)" and buf: "unat buf + 512 < 2 ^ 64"
  then obtain lba48 where drv: "ata_device dm d lba48" and len: "length (c (ata_addr lba48 (ucast lba))) = 256"
    by (auto simp: ata_ready_def)
  from r have "ata_answers hw (chan_port (chann_main d) 0) dm" "c = contents (drive_state dm (chan_port (chann_main d) 0) (trace k))"
    "drive_idle (drive_state dm (chan_port (chann_main d) 0) (trace k))" by (simp_all add: ata_ready_def)
  from ATA_read_ok [OF this(1) refl drv this(3,2) len, of buf] obtain tr where
    tr: "read_disk hw sp d lba buf k = Inr (True, k\<lparr>mem := store buf (disk_sector c d lba) (mem k), trace := tr\<rparr>)"
    "ata_ready hw dm c d tr"
    using r drv by (auto simp: read_disk_def ata_ready_def disk_sector_def ata_device_def)
  moreover have "length (disk_sector c d lba) = 512"
    using drv len by (simp add: disk_sector_def sector_bytes_def ata_device_def)
  then have "placed {} buf (disk_sector c d lba) (mem k) (store buf (disk_sector c d lba) (mem k))"
    using buf by (intro placed_store) simp
  ultimately show "\<exists>m tr. read_disk hw sp d lba buf k = Inr (True, k\<lparr>mem := m, trace := tr\<rparr>) \<and>
      ata_ready hw dm c d (trace (k\<lparr>mem := m, trace := tr\<rparr>)) \<and> placed {} buf (disk_sector c d lba) (mem k) m"
    by (intro exI [of _ "store buf (disk_sector c d lba) (mem k)"] exI [of _ tr]) simp
next
  fix d :: disk_device and k :: "'z manager_scheme" and lba assume "ata_ready hw dm c d (trace k)"
  then show "length (disk_sector c d lba) = 512"
    by (auto simp: ata_ready_def disk_sector_def sector_bytes_def)
qed simp

end
