(* ===== verification/Byte_Runs.thy ===== *)
theory Byte_Runs
  imports Block_Device
begin

text \<open>
  Runs of bytes and what a routine may change: a run is an address and a length, \<open>changes rs m m'\<close> says that
  memory differs in the runs \<open>rs\<close> only.
\<close>

section \<open>Runs\<close>

definition apart :: "u64 \<Rightarrow> nat \<Rightarrow> u64 \<Rightarrow> nat \<Rightarrow> bool" where
  "apart a k b n \<longleftrightarrow>
     unat a + k < 2 ^ 64 \<and> unat b + n < 2 ^ 64 \<and> {unat a..<unat a + k} \<inter> {unat b..<unat b + n} = {}"

lemma apart_sym: "apart a k b n \<Longrightarrow> apart b n a k"
  by (auto simp: apart_def)

lemma apart_sub:
  assumes "apart a k b n" and "i + j \<le> k"
  shows "apart (a + word_of_nat i) j b n"
proof (cases "i = k")
  case True
  have "unat (word_of_nat i :: u64) = i" using assms by (intro unat_of_nat_u64) (simp add: apart_def)
  then have "unat (a + word_of_nat i) = unat a + i"
    using assms by (subst unat_add_u64) (simp_all add: apart_def)
  then show ?thesis using assms True by (simp add: apart_def)
next
  case False
  then have "unat (a + word_of_nat i) = unat a + i"
    using assms by (intro extent_bytes [of a k]) (auto simp: apart_def)
  moreover have "{unat a + i..<unat a + i + j} \<subseteq> {unat a..<unat a + k}" using assms(2) by auto
  ultimately show ?thesis using assms by (auto simp: apart_def)
qed

lemma apart_offsets:
  assumes "unat p + n < 2 ^ 64" and "i + k \<le> n" and "j + l \<le> n" and "i + k \<le> j \<or> j + l \<le> i"
  shows "apart (p + word_of_nat i) k (p + word_of_nat j) l"
proof -
  have "unat (p + word_of_nat x) = unat p + x" if "x \<le> n" for x
  proof -
    have "unat (word_of_nat x :: u64) = x" using assms(1) that by (intro unat_of_nat_u64) simp
    then show ?thesis using assms(1) that by (subst unat_add_u64) simp_all
  qed
  then show ?thesis using assms by (auto simp: apart_def)
qed

definition separate :: "(u64 \<times> nat) list \<Rightarrow> bool" where
  "separate = sorted_wrt (\<lambda>(a, k) (b, n). apart a k b n)"

section \<open>Changes\<close>

definition changes :: "(u64 \<times> nat) list \<Rightarrow> memory \<Rightarrow> memory \<Rightarrow> bool" where
  "changes rs m m' \<longleftrightarrow> (\<forall>x. (\<forall>(p, n) \<in> set rs. unat x \<notin> {unat p..<unat p + n}) \<longrightarrow> m' x = m x)"

lemma changesD: "changes rs m m' \<Longrightarrow> (\<And>p n. (p, n) \<in> set rs \<Longrightarrow> unat x \<notin> {unat p..<unat p + n}) \<Longrightarrow> m' x = m x"
  unfolding changes_def by blast

lemma changes_refl [simp]: "changes rs m m"
  by (simp add: changes_def)

lemma changes_trans: "changes rs m m' \<Longrightarrow> changes rs m' m'' \<Longrightarrow> changes rs m m''"
  by (simp add: changes_def)

lemma changes_mono: "changes rs m m' \<Longrightarrow> set rs \<subseteq> set rs' \<Longrightarrow> changes rs' m m'"
  unfolding changes_def by blast

lemma changes_append:
  assumes "changes rs m m'" and "changes rs' m' m''"
  shows "changes (rs @ rs') m m''"
  by (rule changes_trans [OF changes_mono [OF assms(1)] changes_mono [OF assms(2)]]) auto

lemma changes_part:
  assumes "changes [(p + word_of_nat i, k)] m m'" and "i + k \<le> n" and "unat p + n < 2 ^ 64"
  shows "changes [(p, n)] m m'"
proof -
  have "unat (word_of_nat i :: u64) = i" using assms by (intro unat_of_nat_u64) simp
  then have "unat (p + word_of_nat i) = unat p + i" using assms by (subst unat_add_u64) simp_all
  then show ?thesis using assms by (auto simp: changes_def)
qed

lemma bytes_changes:
  assumes "changes rs m m'" and "\<And>q k. (q, k) \<in> set rs \<Longrightarrow> apart p n q k" and "unat p + n < 2 ^ 64"
  shows "bytes m' p n = bytes m p n"
proof (rule nth_equalityI)
  fix j assume "j < length (bytes m' p n)"
  then have j: "j < n" by simp
  have at: "unat (p + word_of_nat j) = unat p + j" using assms(3) j by (rule extent_bytes)
  have "m' (p + word_of_nat j) = m (p + word_of_nat j)"
  proof (rule changesD [OF assms(1)])
    fix q k assume "(q, k) \<in> set rs"
    then have "{unat p..<unat p + n} \<inter> {unat q..<unat q + k} = {}" using assms(2) by (simp add: apart_def)
    moreover have "unat p + j \<in> {unat p..<unat p + n}" using j by simp
    ultimately show "unat (p + word_of_nat j) \<notin> {unat q..<unat q + k}" unfolding at by blast
  qed
  then show "bytes m' p n ! j = bytes m p n ! j" using j by simp
qed simp

lemma changes_store: "unat p + length bs < 2 ^ 64 \<Longrightarrow> length bs \<le> n \<Longrightarrow> changes [(p, n)] m (store p bs m)"
  by (auto simp: changes_def intro!: store_elsewhere)

lemma changes_run:
  assumes "\<And>x. m' x \<noteq> m x \<Longrightarrow> \<exists>i < n. x = p + word_of_nat i" and "unat p + n < 2 ^ 64"
  shows "changes [(p, n)] m m'"
  unfolding changes_def
proof (intro allI impI)
  fix x :: u64 assume x: "\<forall>(p, n) \<in> set [(p, n)]. unat x \<notin> {unat p..<unat p + n}"
  show "m' x = m x"
  proof (rule ccontr)
    assume "m' x \<noteq> m x"
    then obtain i where "i < n" "x = p + word_of_nat i" using assms(1) by blast
    then show False using x extent_bytes [OF assms(2)] by simp
  qed
qed

lemma changes_write_u16: "unat p + 2 < 2 ^ 64 \<Longrightarrow> changes [(p, 2)] m (write_u16 p v m)"
proof (rule changes_run)
  fix x assume "write_u16 p v m x \<noteq> m x"
  then have "x \<in> (\<lambda>i. p + word_of_nat i) ` {0, 1}" using write_u16_other [of x p v m] by auto
  then obtain i :: nat where "i \<in> {0, 1}" "x = p + word_of_nat i" by blast
  then show "\<exists>i < 2. x = p + word_of_nat i" by (intro exI [of _ i]) auto
qed

lemma changes_write_u32: "unat p + 4 < 2 ^ 64 \<Longrightarrow> changes [(p, 4)] m (write_u32 p v m)"
proof (rule changes_run)
  fix x assume "write_u32 p v m x \<noteq> m x"
  then have "x \<in> (\<lambda>i. p + word_of_nat i) ` {0, 1, 2, 3}"
    by (auto simp: write_u32_def write_u16_def split: if_splits)
  then obtain i :: nat where "i \<in> {0, 1, 2, 3}" "x = p + word_of_nat i" by blast
  then show "\<exists>i < 4. x = p + word_of_nat i" by (intro exI [of _ i]) auto
qed

lemma double_nat: "2 * unat (p :: u64) < 2 ^ 64 \<Longrightarrow> unat (2 * p) = 2 * unat p"
  by (subst unat_mult_u64) simp_all

text \<open>What \<^verbatim>\<open>memset\<close> changes begins at twice the address it is given.\<close>

lemma memset_twice:
  assumes "2 * unat p + unat n < 2 ^ 64"
  shows "changes [(2 * p, unat n)] m (memset p c n m)"
    and "bytes (memset p c n m) (2 * p) (unat n) = replicate (unat n) c"
proof -
  have "p \<le> p + n" using assms by (simp add: word_le_nat_alt unat_add_u64)
  then have eq: "memset p c n m = (\<lambda>a. if \<exists>i<unat n. a = 2 * p + word_of_nat i then c else m a)"
    by (simp only: memset_loop add.assoc [symmetric] mult_2)
  have "unat (2 * p) + unat n < 2 ^ 64" using assms by (subst double_nat) simp_all
  then show "changes [(2 * p, unat n)] m (memset p c n m)"
    unfolding eq by (intro changes_run) (auto split: if_splits)
  show "bytes (memset p c n m) (2 * p) (unat n) = replicate (unat n) c"
    unfolding eq by (rule nth_equalityI) auto
qed

lemma memcpy_apart:
  assumes "apart src (unat n) dest (unat n)"
  shows "bytes (memcpy src dest n m) dest (unat n) = bytes m src (unat n)"
    and "changes [(dest, unat n)] m (memcpy src dest n m)"
proof -
  have a: "unat src + unat n < 2 ^ 64" "unat dest + unat n < 2 ^ 64" using assms by (simp_all add: apart_def)
  have ne: "src + word_of_nat j \<noteq> dest + word_of_nat i" if "i < unat n" "j < unat n" for i j
  proof
    assume "src + word_of_nat j = dest + word_of_nat i"
    then have "unat src + j = unat dest + i" using extent_bytes [OF a(1) that(2)] extent_bytes [OF a(2) that(1)] by metis
    then show False using assms that by (auto simp: apart_def disjoint_iff)
  qed
  have eq: "memcpy src dest n m = (\<lambda>a. if \<exists>i<unat n. a = dest + word_of_nat i then m (src + (a - dest)) else m a)"
    using ne by (intro memcpy_loop) simp
  show "bytes (memcpy src dest n m) dest (unat n) = bytes m src (unat n)"
    unfolding eq by (rule nth_equalityI) auto
  show "changes [(dest, unat n)] m (memcpy src dest n m)"
    unfolding eq using a(2) by (intro changes_run) (auto split: if_splits)
qed

text \<open>Fields are functions of their bytes.\<close>

lemma field_changes:
  assumes "changes rs m m'" and "unat p + 8 < 2 ^ 64"
  shows "(\<And>q k. (q, k) \<in> set rs \<Longrightarrow> apart p 2 q k) \<Longrightarrow> read_u16 m' p = read_u16 m p"
    and "(\<And>q k. (q, k) \<in> set rs \<Longrightarrow> apart p 4 q k) \<Longrightarrow> read_u32 m' p = read_u32 m p"
    and "(\<And>q k. (q, k) \<in> set rs \<Longrightarrow> apart p 8 q k) \<Longrightarrow> read_u64 m' p = read_u64 m p"
proof -
  have byte: "m' (p + word_of_nat i) = m (p + word_of_nat i)"
    if "\<And>q k. (q, k) \<in> set rs \<Longrightarrow> apart p n q k" "i < n" "n \<le> 8" for i n
  proof -
    have "bytes m' p n ! i = bytes m p n ! i"
      using bytes_changes [OF assms(1) that(1)] assms(2) that(3) by simp
    then show ?thesis using that(2) by simp
  qed
  show "read_u16 m' p = read_u16 m p" if "\<And>q k. (q, k) \<in> set rs \<Longrightarrow> apart p 2 q k"
    using byte [OF that, of 0] byte [OF that, of 1] by (simp add: read_u16_def)
  show "read_u32 m' p = read_u32 m p" if "\<And>q k. (q, k) \<in> set rs \<Longrightarrow> apart p 4 q k"
    using byte [OF that, of 0] byte [OF that, of 1] byte [OF that, of 2] byte [OF that, of 3]
    by (simp add: read_u32_def read_u16_def add.assoc)
  show "read_u64 m' p = read_u64 m p" if "\<And>q k. (q, k) \<in> set rs \<Longrightarrow> apart p 8 q k"
    using byte [OF that, of 0] byte [OF that, of 1] byte [OF that, of 2] byte [OF that, of 3]
      byte [OF that, of 4] byte [OF that, of 5] byte [OF that, of 6] byte [OF that, of 7]
    by (simp add: read_u64_def read_u32_def read_u16_def add.assoc)
qed

end
