(* ===== verification/Ahci.thy ===== *)
theory Ahci
  imports Byte_Runs
begin

text \<open>
  An AHCI port with a disk, as the specification of the host controller describes it, and the AHCI
  driver's reads on it.
\<close>

section \<open>The device\<close>

text \<open>The value of a register that only the driver writes.\<close>

primrec last_write :: "u64 \<Rightarrow> history \<Rightarrow> u32" where
  "last_write a [] = 0"
| "last_write a (ev # tr) = (case ev of RegW b v \<Rightarrow> if b = a then v else last_write a tr | _ \<Rightarrow> last_write a tr)"

definition list_base :: "u64 \<Rightarrow> history \<Rightarrow> u64" where
  "list_base port tr =
     ucast (last_write (port + PX_CLB) tr) OR push_bit 32 (ucast (last_write (port + PX_CLBU) tr))"

text \<open>The command that was issued last and the number of register reads since.\<close>

primrec issued :: "u64 \<Rightarrow> history \<Rightarrow> (u32 \<times> nat) option" where
  "issued port [] = None"
| "issued port (ev # tr) =
     (case ev of
        RegW a v \<Rightarrow> if a = port + PX_CI then Some (v, 0) else issued port tr
      | RegR a v \<Rightarrow> map_option (apsnd Suc) (issued port tr)
      | RegR16 a v \<Rightarrow> map_option (apsnd Suc) (issued port tr)
      | _ \<Rightarrow> issued port tr)"

text \<open>A command FIS with the command READ DMA EXT for one sector, and the address in it.\<close>

definition fis_reads_one :: "u8 list \<Rightarrow> bool" where
  "fis_reads_one f \<longleftrightarrow> f ! 0 = 0x27 \<and> f ! 1 AND 0x80 \<noteq> 0 \<and> f ! 2 = 0x24 \<and> f ! 7 AND 0x40 \<noteq> 0 \<and> f ! 12 = 1 \<and> f ! 13 = 0"

definition fis_lba :: "u8 list \<Rightarrow> nat" where
  "fis_lba f = unat (f ! 4) + 2 ^ 8 * unat (f ! 5) + 2 ^ 16 * unat (f ! 6) +
     2 ^ 24 * unat (f ! 8) + 2 ^ 32 * unat (f ! 9) + 2 ^ 40 * unat (f ! 10)"

text \<open>A read with one entry in the table of buffers: the controller finds the table in the header of the slot,
  transfers the sector, and counts the bytes in the header.\<close>

definition ahci_transfer :: "(nat \<Rightarrow> u8 list) \<Rightarrow> u64 \<Rightarrow> memory \<Rightarrow> memory" where
  "ahci_transfer img header m =
     (let table = ucast (read_u32 m (header + 8)) OR push_bit 32 (ucast (read_u32 m (header + 12)));
          f = bytes m table 20;
          dba = ucast (read_u32 m (table + 128)) OR push_bit 32 (ucast (read_u32 m (table + 132)));
          n = unat (read_u32 m (table + 140) AND 0x3FFFFF) + 1 in
      if read_u16 m header AND 0x5F = 5 \<and> read_u16 m (header + 2) = 1 \<and> fis_reads_one f \<and> n = 512
      then write_u32 (header + 4) 512 (store dba (img (fis_lba f)) m)
      else m)"

text \<open>\<open>delay\<close> is the number of register reads after which a command is done. Until then the slot's bit is set
  in CI; no error is reported. The received FIS may be written with the transfer.\<close>

definition ahci_quiet :: "u64 \<Rightarrow> nat \<Rightarrow> history \<Rightarrow> bool" where
  "ahci_quiet port delay tr \<longleftrightarrow> (case issued port tr of None \<Rightarrow> True | Some (v, n) \<Rightarrow> delay < n)"

definition ahci_answers :: "hardware \<Rightarrow> u64 \<Rightarrow> (nat \<Rightarrow> u8 list) \<Rightarrow> u64 \<Rightarrow> nat \<Rightarrow> bool" where
  "ahci_answers hw port img received delay \<longleftrightarrow>
     (\<forall>tr m. reg_in hw tr m (port + PX_IS) AND push_bit 30 1 = 0) \<and>
     (\<forall>tr m. ahci_quiet port delay tr \<longrightarrow>
        dma hw tr m = m \<and> reg_in hw tr m (port + PX_CI) = 0 \<and> reg_in hw tr m (port + PX_SACT) = 0 \<and>
        reg_in hw tr m (port + PX_TFD) AND 0x89 = 0) \<and>
     (\<forall>tr m v n. issued port tr = Some (v, n) \<and> n < delay \<longrightarrow> dma hw tr m = m \<and> reg_in hw tr m (port + PX_CI) = v) \<and>
     (\<forall>tr m. issued port tr = Some (1, delay) \<longrightarrow>
        reg_in hw tr m (port + PX_CI) = 0 \<and>
        changes [(received, 256)] (ahci_transfer img (list_base port tr) m) (dma hw tr m))"

lemma ahciD:
  assumes "ahci_answers hw port img received delay"
  shows "reg_in hw tr m (port + PX_IS) AND push_bit 30 1 = 0"
    and "ahci_quiet port delay tr \<Longrightarrow> dma hw tr m = m" "ahci_quiet port delay tr \<Longrightarrow> reg_in hw tr m (port + PX_CI) = 0"
      "ahci_quiet port delay tr \<Longrightarrow> reg_in hw tr m (port + PX_SACT) = 0"
      "ahci_quiet port delay tr \<Longrightarrow> reg_in hw tr m (port + PX_TFD) AND 0x89 = 0"
    and "issued port tr = Some (v, n) \<Longrightarrow> n < delay \<Longrightarrow> dma hw tr m = m"
      "issued port tr = Some (v, n) \<Longrightarrow> n < delay \<Longrightarrow> reg_in hw tr m (port + PX_CI) = v"
    and "issued port tr = Some (1, delay) \<Longrightarrow> reg_in hw tr m (port + PX_CI) = 0"
      "issued port tr = Some (1, delay) \<Longrightarrow> changes [(received, 256)] (ahci_transfer img (list_base port tr) m) (dma hw tr m)"
  using assms unfolding ahci_answers_def by blast+

section \<open>Polling\<close>

lemma issued_read: "issued port (RegR a v # tr) = map_option (apsnd Suc) (issued port tr)"
  by simp

lemma base_read: "list_base port (RegR a v # tr) = list_base port tr"
  by (simp add: list_base_def)

lemma quiet_read: "ahci_quiet port delay tr \<Longrightarrow> ahci_quiet port delay (RegR a v # tr)"
  by (auto simp: ahci_quiet_def split: option.splits)

text \<open>A register read of a device that is quiet.\<close>

lemma reg_read_quiet:
  assumes "ahci_answers hw port img received delay" and "ahci_quiet port delay (trace k)"
  shows "reg_read hw a k = (reg_in hw (trace k) (mem k) a, k\<lparr>trace := RegR a (reg_in hw (trace k) (mem k) a) # trace k\<rparr>)"
  using ahciD(2) [OF assms] by (simp add: reg_read_def Let_def)

text \<open>The state while a command is carried out: before the transfer, or after it.\<close>

definition underway :: "hardware \<Rightarrow> u64 \<Rightarrow> (nat \<Rightarrow> u8 list) \<Rightarrow> u64 \<Rightarrow> nat \<Rightarrow> u64 \<Rightarrow> memory \<Rightarrow> nat \<Rightarrow> 'z machine_scheme \<Rightarrow> bool" where
  "underway hw port img received delay header m0 n k \<longleftrightarrow>
     issued port (trace k) = Some (1, n) \<and> list_base port (trace k) = header \<and>
     (if n \<le> delay then mem k = m0 else changes [(received, 256)] (ahci_transfer img header m0) (mem k))"

lemma underway_read:
  assumes ans: "ahci_answers hw port img received delay" and u: "underway hw port img received delay header m0 n k"
  shows "\<exists>v m tr. reg_read hw a k = (v, k\<lparr>mem := m, trace := tr\<rparr>) \<and>
     underway hw port img received delay header m0 (Suc n) (k\<lparr>mem := m, trace := tr\<rparr>) \<and>
     (a = port + PX_CI \<longrightarrow> v = (if n < delay then 1 else 0)) \<and> (a = port + PX_IS \<longrightarrow> v AND push_bit 30 1 = 0)"
proof -
  note i = u [unfolded underway_def]
  let ?m = "dma hw (trace k) (mem k)"
  let ?v = "reg_in hw (trace k) ?m a" 
  let ?k1 = "k\<lparr>mem := ?m, trace := RegR a ?v # trace k\<rparr>"
  have "underway hw port img received delay header m0 (Suc n) ?k1 \<and>
     (a = port + PX_CI \<longrightarrow> ?v = (if n < delay then 1 else 0))"
  proof -
    consider "n < delay" | "n = delay" | "delay < n" by linarith
    then show ?thesis
    proof cases
      case 1
      then show ?thesis using i ahciD(6,7) [OF ans, of "trace k" 1 n] by (auto simp: underway_def base_read)
    next
      case 2
      then show ?thesis using i ahciD(8,9) [OF ans, of "trace k"] by (auto simp: underway_def base_read)
    next
      case 3
      then have "ahci_quiet port delay (trace k)" using i by (simp add: ahci_quiet_def)
      from ahciD(2,3) [OF ans this] show ?thesis using i 3 by (auto simp: underway_def base_read)
    qed
  qed
  then show ?thesis using ahciD(1) [OF ans, of "trace k" ?m]
    by (intro exI [of _ ?v], intro exI [of _ ?m], intro exI [of _ "RegR a ?v # trace k"]) (simp add: reg_read_def Let_def)
qed

lemma wait_command_ok:
  assumes ans: "ahci_answers hw port img received delay"
  shows "underway hw port img received delay header m0 n k \<Longrightarrow> delay \<le> n + 2 * unat t \<Longrightarrow>
     \<exists>m tr. wait_command hw port 1 t k = (True, k\<lparr>mem := m, trace := tr\<rparr>) \<and> ahci_quiet port delay tr \<and>
       list_base port tr = header \<and> changes [(received, 256)] (ahci_transfer img header m0) m"
proof (induction "unat t" arbitrary: n t k)
  case (0 t n k)
  obtain v m tr where 1: "reg_read hw (port + PX_CI) k = (v, k\<lparr>mem := m, trace := tr\<rparr>)"
    "underway hw port img received delay header m0 (Suc n) (k\<lparr>mem := m, trace := tr\<rparr>)" "v = (if n < delay then 1 else 0)"
    using underway_read [OF ans 0(2), of "port + PX_CI"] by auto
  have "delay \<le> n" using 0 by simp
  then have "wait_command hw port 1 t k = (True, k\<lparr>mem := m, trace := tr\<rparr>)"
    using 1 by (simp add: wait_command.simps [of hw port 1 t k])
  then show ?case using 1(2) \<open>delay \<le> n\<close>
    by (intro exI [of _ m] exI [of _ tr]) (simp add: underway_def ahci_quiet_def)
next
  case (Suc x t n k)
  obtain v m tr where 1: "reg_read hw (port + PX_CI) k = (v, k\<lparr>mem := m, trace := tr\<rparr>)"
    "underway hw port img received delay header m0 (Suc n) (k\<lparr>mem := m, trace := tr\<rparr>)" "v = (if n < delay then 1 else 0)"
    using underway_read [OF ans Suc.prems(1), of "port + PX_CI"] by auto
  show ?case
  proof (cases "n < delay")
    case False
    then have "wait_command hw port 1 t k = (True, k\<lparr>mem := m, trace := tr\<rparr>)"
      using 1 by (simp add: wait_command.simps [of hw port 1 t k])
    then show ?thesis using 1(2) False
      by (intro exI [of _ m] exI [of _ tr]) (simp add: underway_def ahci_quiet_def)
  next
    case True
    obtain w m' tr' where 2: "reg_read hw (port + PX_IS) (k\<lparr>mem := m, trace := tr\<rparr>) = (w, k\<lparr>mem := m', trace := tr'\<rparr>)"
      "underway hw port img received delay header m0 (Suc (Suc n)) (k\<lparr>mem := m', trace := tr'\<rparr>)" "w AND push_bit 30 1 = 0"
      using underway_read [OF ans 1(2), of "port + PX_IS"] by auto
    have t: "t \<noteq> 0" using Suc.hyps(2) by auto
    then have t1: "x = unat (t - 1)" using Suc.hyps(2) unat_minus_one [OF t] by simp
    have "wait_command hw port 1 t k = wait_command hw port 1 (t - 1) (k\<lparr>mem := m', trace := tr'\<rparr>)"
      using True 1(1,3) 2(1,3) t by (simp add: wait_command.simps [of hw port 1 t k])
    then show ?thesis using Suc.hyps(1) [OF t1 2(2)] Suc.prems(2) Suc.hyps(2) t1 by simp
  qed
qed

end
