(* ===== verification/Demo_Disk.thy ===== *)
theory Demo_Disk
  imports Block_Device
begin

text \<open>
  A concrete disk, heap and machine on which the witnesses of the file system properties run: an ATA
  disk on the primary channel that answers from a table of sectors, and a root heap of 64 free blocks.
\<close>

text \<open>Sectors given by their bytes, and the device that serves them.\<close>

definition image_sectors :: "(nat \<Rightarrow> memory) \<Rightarrow> sectors" where
  "image_sectors f n = map (\<lambda>j. read_u16 (f n) (0 + 2 * word_of_nat j)) [0..<256]"

definition sim_drive :: "sectors \<Rightarrow> disk_model" where
  "sim_drive img = \<lparr>image = img, is_slave = False, latency = (\<lambda>_. 2)\<rparr>"

definition sim_hw :: "sectors \<Rightarrow> hardware" where
  "sim_hw img = drive_hw (sim_drive img)"

definition sim_disk :: disk_device where
  "sim_disk = \<lparr>d_name = [107, 0], d_type = DISK_ATA, chann_main = 0x1F0, chann_sub = 0xA0, d_size = 0,
               d_driver = ATA_driver_data True\<rparr>"

lemma sim_ready: "ata_ready (sim_hw (image_sectors f)) (sim_drive (image_sectors f)) (image_sectors f) sim_disk []"
proof -
  have "ata_answers (sim_hw (image_sectors f)) 0x1F0 (sim_drive (image_sectors f))"
    unfolding sim_hw_def by (rule drive_hw_answers) (simp add: sim_drive_def)
  moreover have "ata_device (sim_drive (image_sectors f)) sim_disk True" by (simp add: ata_device_def sim_disk_def sim_drive_def)
  ultimately show ?thesis
    by (auto simp: ata_ready_def sim_disk_def sim_drive_def chan_port_def drive_idle_def pending_def image_sectors_def)
qed

lemma sim_sector: "disk_sector (image_sectors f) sim_disk lba = bytes (f (unat lba)) 0 512"
proof -
  have "unat (ucast lba :: u64) = unat lba" by (rule end_block_nat)
  moreover have "unat lba < 2 ^ 48"
    using unsigned_less [of lba, where ?'a = nat] by simp
  ultimately have "ata_addr True (ucast lba) = unat lba" by (simp add: ata_addr_def)
  then show ?thesis
    using bytes_words [of "f (unat lba)" 0 256]
    by (simp add: disk_sector_def sim_disk_def sector_bytes_def image_sectors_def del: map_map upt_rec_numeral)
qed

definition sim_heap :: heap where
  "sim_heap = \<lparr>block_size = 512, start_addr = 0x100000, max_size = 0x8000, blocks = replicate 64 free_entry\<rparr>"

definition sim_machine :: "memory \<Rightarrow> manager" where
  "sim_machine m = \<lparr>mem = m, console = [], trace = [], RSD_T = 0, memory_map = None, ranges = [],
                    root_heap = Some sim_heap, low_heap = None, bump_heap = None\<rparr>"

lemma sim_heap_inv: "heap_inv sim_heap"
  by (simp add: sim_heap_def heap_inv_def table_inv_fresh)

lemma sim_room: "n \<le> 64 \<Longrightarrow> room sim_heap n"
  unfolding room_iff by (auto simp: run_free_def blocked_iff taken_def sim_heap_def free_entry_def intro!: exI [of _ 0])

lemma sim_blocks: "needed_blocks sim_heap sz = (unat sz + 511) div 512"
  by (simp add: needed_blocks_def sim_heap_def)

lemma sim_machine_simps [simp]:
  "trace (sim_machine m) = []" "root_heap (sim_machine m) = Some sim_heap" "mem (sim_machine m) = m"
  by (simp_all add: sim_machine_def)

text \<open>The bytes of the sectors: a partition table, a FAT in sector 2 with the chain 2, 4, and data
  sectors that are filled with their number.\<close>

definition sim_bytes :: "nat \<Rightarrow> memory" where
  "sim_bytes n =
     (if n = 0 then (\<lambda>_. 0xEE)(510 := 0x55, 511 := 0xAA, 450 := 7, 454 := 1, 455 := 0, 456 := 0, 457 := 0, 458 := 0,
                               459 := 1, 460 := 0, 461 := 0)
      else if n = 2 then (\<lambda>_. 0)(8 := 4, 16 := 0xFF, 17 := 0xFF, 18 := 0xFF, 19 := 0xFF)
      else (\<lambda>_. word_of_nat n))"

abbreviation sim_sectors :: sectors where "sim_sectors \<equiv> image_sectors sim_bytes"

end
