(* ===== verification/Sata_Props.thy ===== *)
theory Sata_Props
  imports Ahci Demo_Disk
begin

text \<open>
  The reads of the AHCI driver on a port that follows the specification.
\<close>

section \<open>The command in memory\<close>

lemma low_word: "unat x < 2 ^ 32 \<Longrightarrow> (ucast (ucast (x :: u64) :: u32) :: u64) = x"
  by (intro unat_inject) (simp add: unsigned_ucast_eq unsigned_take_bit_eq take_bit_nat_eq_self)

text \<open>Offsets in a structure that ends before the address space does.\<close>

lemma offset_nat: "unat (p :: u64) + n < 2 ^ 64 \<Longrightarrow> j < n \<Longrightarrow> unat (p + word_of_nat j) = unat p + j"
  by (rule extent_bytes)

lemma changes_within:
  assumes "unat p + n < 2 ^ 64" and "changes [(p + word_of_nat i, k)] m m'" and "i + k \<le> n"
  shows "changes [(p, n)] m m'"
  by (rule changes_part [OF assms(2,3,1)])

text \<open>The entry of the table of buffers.\<close>

lemma fill_prdt_ok:
  assumes "unat T + 144 < 2 ^ 64" and m1: "m1 = fill_prdt T buffer sz m"
  shows "changes [(T + 128, 16)] m m1" and "read_u32 m1 (T + 128) = ucast buffer" and "read_u32 m1 (T + 132) = 0"
    and "read_u32 m1 (T + 140) = ucast (sz - 1)"
proof -
  note at = offset_nat [OF assms(1)] and o = apart_offsets [OF assms(1)]
  define mF where "mF = write_u32 (T + 128) (ucast buffer) m"
  define mG where "mG = write_u32 (T + 132) 0 mF"
  define mI where "mI = write_u32 (T + 136) 0 mG"
  have m1': "m1 = write_u32 (T + 140) (ucast (sz - 1)) mI" by (simp add: m1 fill_prdt_def mF_def mG_def mI_def)
  have F: "changes [(T + 128, 4)] m mF" and G: "changes [(T + 132, 4)] mF mG" and I: "changes [(T + 136, 4)] mG mI"
    and J: "changes [(T + 140, 4)] mI m1"
    unfolding mF_def mG_def mI_def m1'
    using assms(1) at [of 128] at [of 132] at [of 136] at [of 140] by (auto intro!: changes_write_u32)
  have n: "unat (T + 128) + 16 < 2 ^ 64" using at [of 128] assms(1) by simp
  note w = changes_within [OF n]
  have "changes [(T + 128, 16)] m mF" "changes [(T + 128, 16)] mF mG" "changes [(T + 128, 16)] mG mI" "changes [(T + 128, 16)] mI m1"
    using w [of 0 4] F w [of 4 4] G w [of 8 4] I w [of 12 4] J by (simp_all add: add.assoc)
  then show "changes [(T + 128, 16)] m m1" using changes_trans by blast
  have "read_u32 m1 (T + 128) = read_u32 mF (T + 128)"
  proof (rule field_changes(2) [OF changes_append [OF G changes_append [OF I J]]])
    fix q :: u64 and k :: nat assume "(q, k) \<in> set ([(T + 132, 4)] @ [(T + 136, 4)] @ [(T + 140, 4)])"
    then show "apart (T + 128) 4 q k" using o [of 128 4 132 4] o [of 128 4 136 4] o [of 128 4 140 4] by auto
  qed (use n in simp)
  then show "read_u32 m1 (T + 128) = ucast buffer" by (simp add: mF_def read_write_u32)
  have "read_u32 m1 (T + 132) = read_u32 mG (T + 132)"
  proof (rule field_changes(2) [OF changes_append [OF I J]])
    fix q :: u64 and k :: nat assume "(q, k) \<in> set ([(T + 136, 4)] @ [(T + 140, 4)])"
    then show "apart (T + 132) 4 q k" using o [of 132 4 136 4] o [of 132 4 140 4] by auto
  qed (use assms(1) at [of 132] in simp)
  then show "read_u32 m1 (T + 132) = 0" by (simp add: mG_def read_write_u32)
  show "read_u32 m1 (T + 140) = ucast (sz - 1)" by (simp add: m1' read_write_u32)
qed

text \<open>The first 8 bytes of the command header.\<close>

lemma fill_header_ok:
  assumes "unat H + 32 < 2 ^ 64" and m1: "m1 = write_u32 (H + 4) 0 (write_u16 (H + 2) 1 (write_u16 H flags m))"
  shows "changes [(H, 8)] m m1" and "read_u16 m1 H = flags" and "read_u16 m1 (H + 2) = 1"
proof -
  have n: "unat H + 8 < 2 ^ 64" using assms(1) by simp
  note at = offset_nat [OF assms(1)] and o = apart_offsets [OF assms(1)] and w = changes_within [OF n]
  define mC where "mC = write_u16 H flags m"
  define mD where "mD = write_u16 (H + 2) 1 mC"
  have m1': "m1 = write_u32 (H + 4) 0 mD" by (simp add: m1 mC_def mD_def)
  have C: "changes [(H, 2)] m mC" and D: "changes [(H + 2, 2)] mC mD" and E: "changes [(H + 4, 4)] mD m1"
    unfolding mC_def mD_def m1' using assms(1) at [of 2] at [of 4] by (auto intro!: changes_write_u16 changes_write_u32)
  have "changes [(H, 8)] m mC" "changes [(H, 8)] mC mD" "changes [(H, 8)] mD m1"
    using w [of 0 2] C w [of 2 2] D w [of 4 4] E by simp_all
  then show "changes [(H, 8)] m m1" using changes_trans by blast
  have "read_u16 m1 H = read_u16 mC H"
  proof (rule field_changes(1) [OF changes_append [OF D E]])
    fix q :: u64 and k :: nat assume "(q, k) \<in> set ([(H + 2, 2)] @ [(H + 4, 4)])"
    then show "apart H 2 q k" using o [of 0 2 2 2] o [of 0 2 4 4] by auto
  qed (use n in simp)
  then show "read_u16 m1 H = flags" by (simp add: mC_def read_write_u16)
  have "read_u16 m1 (H + 2) = read_u16 mD (H + 2)"
  proof (rule field_changes(1) [OF E])
    fix q :: u64 and k :: nat assume "(q, k) \<in> set [(H + 4, 4)]"
    then show "apart (H + 2) 2 q k" using o [of 2 2 4 4] by auto
  qed (use assms(1) at [of 2] in simp)
  then show "read_u16 m1 (H + 2) = 1" by (simp add: mD_def read_write_u16)
qed

text \<open>The FIS in the command table. The \<^verbatim>\<open>memset\<close> of the table zeroes memory at twice its address.\<close>

lemma fill_table_ok:
  assumes fis: "apart fis 20 (2 * T) 144" "apart fis 20 T 144" and T: "unat T < 2 ^ 32"
    and m1: "m1 = memcpy fis T sizeof_fis (memset T 0 sizeof_cmd_table m)"
  shows "changes [(2 * T, 144), (T, 144)] m m1" and "bytes m1 T 20 = bytes m fis 20"
proof -
  let ?m = "memset T 0 144 m"
  have A: "changes [(2 * T, 144)] m ?m" using memset_twice(1) [of T 144 m 0] T by simp
  have "apart fis 20 T 20" using apart_sub [OF apart_sym [OF fis(2)], of 0 20] by (simp add: apart_sym)
  then have B: "bytes m1 T 20 = bytes ?m fis 20" "changes [(T + word_of_nat 0, 20)] ?m m1"
    using memcpy_apart [of fis 20 T ?m] by (simp_all add: m1 sizeof_fis_def sizeof_cmd_table_def)
  have "bytes ?m fis 20 = bytes m fis 20" using fis(1) by (intro bytes_changes [OF A]) (auto simp: apart_def)
  then show "bytes m1 T 20 = bytes m fis 20" using B(1) by simp
  have "changes [(T, 144)] ?m m1" using fis(2) by (intro changes_part [OF B(2)]) (simp_all add: apart_def)
  from changes_append [OF A this] show "changes [(2 * T, 144), (T, 144)] m m1" by simp
qed

text \<open>What the driver writes for a read of one sector into \<open>buffer\<close> is a command that the controller carries
  out.\<close>

lemma command_memory:
  assumes fis: "apart fis 20 (2 * T) 144" "apart fis 20 T 144" and header: "apart H 32 T 144" "apart H 32 (2 * T) 144"
    and T: "unat T < 2 ^ 32" "read_u32 m (H + 8) = ucast T" "read_u32 m (H + 12) = 0"
    and buffer: "unat buffer < 2 ^ 32" and reads: "fis_reads_one (bytes m fis 20)"
    and m1: "m1 = fill_prdt T buffer 512 (fill_command H T fis False m)"
  shows "ahci_transfer img H m1 = write_u32 (H + 4) 512 (store buffer (img (fis_lba (bytes m fis 20))) m1)"
    and "changes [(2 * T, 144), (T, 144), (H, 8)] m m1"
proof -
  have Hn: "unat H + 32 < 2 ^ 64" and Tn: "unat T + 144 < 2 ^ 64" using header by (simp_all add: apart_def)
  define mB where "mB = memcpy fis T sizeof_fis (memset T 0 sizeof_cmd_table m)"
  define mE where "mE = write_u32 (H + 4) 0 (write_u16 (H + 2) 1 (write_u16 H 5 mB))"
  have "m1 = fill_prdt T buffer 512 mE" by (simp add: m1 fill_command_def mB_def mE_def)
  note B = fill_table_ok [OF fis T(1) mB_def] and E = fill_header_ok [OF Hn mE_def] and P = fill_prdt_ok [OF Tn this]
  have PT: "changes [(T, 144)] mE m1" using changes_within [OF Tn, of 128 16] P(1) by simp
  from changes_append [OF B(1) changes_append [OF E(1) PT]]
  show "changes [(2 * T, 144), (T, 144), (H, 8)] m m1" by (rule changes_mono) auto
  have HT: "apart (H + word_of_nat i) k T 144" "apart (H + word_of_nat i) k (2 * T) 144" if "i + k \<le> 32" for i k
    using apart_sub [OF header(1) that] apart_sub [OF header(2) that] by simp_all
  have r: "read_u16 m1 H = read_u16 mE H" "read_u16 m1 (H + 2) = read_u16 mE (H + 2)"
    using HT [of 0 2] HT [of 2 2] Hn offset_nat [OF Hn, of 2] by (auto intro!: field_changes(1) [OF PT])
  have base: "read_u32 m1 (H + word_of_nat j) = read_u32 m (H + word_of_nat j)" if "8 \<le> j" "j + 4 \<le> 16" for j
  proof (rule field_changes(2) [OF changes_append [OF B(1) changes_append [OF E(1) PT]]])
    fix q :: u64 and k :: nat assume "(q, k) \<in> set ([(2 * T, 144), (T, 144)] @ [(H, 8)] @ [(T, 144)])"
    then show "apart (H + word_of_nat j) 4 q k" using apart_offsets [OF Hn, of j 4 0 8] HT [of j 4] that by auto
  qed (use Hn offset_nat [OF Hn, of j] that in simp)
  have "bytes m1 T 20 = bytes mB T 20"
  proof (rule bytes_changes [OF changes_append [OF E(1) P(1)]])
    fix q :: u64 and k :: nat assume "(q, k) \<in> set ([(H, 8)] @ [(T + 128, 16)])"
    then show "apart T 20 q k"
      using apart_offsets [OF Tn, of 0 20 128 16] apart_sub [OF apart_sym [OF HT(1) [of 0 8]], of 0 20] by auto
  qed (use Tn in simp)
  then show "ahci_transfer img H m1 = write_u32 (H + 4) 512 (store buffer (img (fis_lba (bytes m fis 20))) m1)"
    using r E(2,3) base [of 8] base [of 12] T reads low_word [OF T(1)] low_word [OF buffer] P(2-4) B(2)
    by (simp add: ahci_transfer_def Let_def)
qed

section \<open>Executing a command\<close>

text \<open>A port that is quiet and whose command list is at \<open>H\<close>.\<close>

definition port_ready :: "u64 \<Rightarrow> nat \<Rightarrow> u64 \<Rightarrow> history \<Rightarrow> bool" where
  "port_ready port delay H tr \<longleftrightarrow> ahci_quiet port delay tr \<and> list_base port tr = H"

lemma port_read:
  assumes "ahci_answers hw port img received delay" and "port_ready port delay H (trace k)"
  shows "\<exists>tr. reg_read hw a k = (reg_in hw (trace k) (mem k) a, k\<lparr>trace := tr\<rparr>) \<and> port_ready port delay H tr"
  using reg_read_quiet [OF assms(1), of k a] assms(2) quiet_read base_read by (fastforce simp: port_ready_def)

lemma find_slot_0:
  assumes ans: "ahci_answers hw port img received delay" and r: "port_ready port delay H (trace k)" and slots: "slots \<noteq> 0"
  shows "\<exists>tr. SATA_find_command_slot hw port slots k = (0, k\<lparr>trace := tr\<rparr>) \<and> port_ready port delay H tr"
proof -
  obtain tr where 1: "reg_read hw (port + PX_CI) k = (0, k\<lparr>trace := tr\<rparr>)" "port_ready port delay H tr"
    using port_read [OF ans r, of "port + PX_CI"] ahciD(3) [OF ans] r by (auto simp: port_ready_def)
  obtain tr' where 2: "reg_read hw (port + PX_SACT) (k\<lparr>trace := tr\<rparr>) = (0, k\<lparr>trace := tr'\<rparr>)" "port_ready port delay H tr'"
    using port_read [OF ans, of H "k\<lparr>trace := tr\<rparr>" "port + PX_SACT"] ahciD(4) [OF ans] 1(2) by (auto simp: port_ready_def)
  have "0 < slots" using slots by (simp add: word_gt_0)
  then have "first_free_slot 0 slots 0 = 0" by (simp add: first_free_slot.simps)
  then show ?thesis using 1(1) 2 by (auto simp: SATA_find_command_slot_def)
qed

lemma and_part: "(v :: u32) AND 0x89 = 0 \<Longrightarrow> v AND 0x88 = 0 \<and> v AND 1 = 0"
proof -
  assume "v AND 0x89 = 0"
  moreover have "v AND 0x88 = (v AND 0x89) AND 0x88" "v AND 1 = (v AND 0x89) AND 1" by (simp_all add: and.assoc)
  ultimately show "v AND 0x88 = 0 \<and> v AND 1 = 0" by simp
qed

lemma wait_not_busy:
  assumes ans: "ahci_answers hw port img received delay" and r: "port_ready port delay H (trace k)"
  shows "\<exists>tr. wait_clear hw (port + PX_TFD) (push_bit 7 1 OR push_bit 3 1) t k = (True, k\<lparr>trace := tr\<rparr>) \<and> port_ready port delay H tr"
proof -
  obtain v tr where 1: "reg_read hw (port + PX_TFD) k = (v, k\<lparr>trace := tr\<rparr>)" "port_ready port delay H tr" "v AND 0x89 = 0"
    using port_read [OF ans r, of "port + PX_TFD"] ahciD(5) [OF ans] r by (auto simp: port_ready_def)
  then show ?thesis using and_part [OF 1(3)] by (intro exI [of _ tr]) (simp add: wait_clear.simps [of _ _ _ t])
qed

text \<open>Writing the registers IS, SERR and CI issues the command.\<close>

lemma issue_command:
  assumes "list_base port (trace k) = H"
  shows "underway hw port img received delay H (mem k) 0
     (reg_write (port + PX_CI) 1 (reg_write (port + PX_SERR) a (reg_write (port + PX_IS) b k)))"
  using assms by (simp add: underway_def reg_write_def list_base_def port_regs)

lemma execute_read_ok:
  fixes k :: "'z machine_scheme"
  assumes ans: "ahci_answers hw port img received delay" and delay: "delay \<le> 20000000"
    and r: "port_ready port delay (cmd_list d) (trace k)"
    and args: "port \<noteq> 0" "fis \<noteq> 0" "buffer \<noteq> 0" "buffer AND 3 = 0" "command_slots d \<noteq> 0"
    and T: "read_u64 (mem k) (cmd_tables d) = T" "unat T < 2 ^ 32"
      "read_u32 (mem k) (cmd_list d + 8) = ucast T" "read_u32 (mem k) (cmd_list d + 12) = 0"
    and fis: "apart fis 20 (2 * T) 144" "apart fis 20 T 144"
    and header: "apart (cmd_list d) 32 T 144" "apart (cmd_list d) 32 (2 * T) 144"
    and buffer: "unat buffer < 2 ^ 32" "apart buffer 512 (cmd_list d) 32" "apart buffer 512 received 256"
    and reads: "fis_reads_one (bytes (mem k) fis 20)" and len: "\<And>n. length (img n) = 512"
  shows "\<exists>m tr. SATA_execute_command hw port d fis buffer 512 False k = (True, k\<lparr>mem := m, trace := tr\<rparr>) \<and>
     port_ready port delay (cmd_list d) tr \<and> bytes m buffer 512 = img (fis_lba (bytes (mem k) fis 20)) \<and>
     changes [(2 * T, 144), (T, 144), (cmd_list d, 8), (buffer, 512), (received, 256)] (mem k) m"
proof -
  let ?H = "cmd_list d" and ?s = "img (fis_lba (bytes (mem k) fis 20))"
  obtain tr1 where 1: "SATA_find_command_slot hw port (command_slots d) k = (0, k\<lparr>trace := tr1\<rparr>)" "port_ready port delay ?H tr1"
    using find_slot_0 [OF ans r args(5)] by blast
  obtain tr2 where 2: "wait_clear hw (port + PX_TFD) (push_bit 7 1 OR push_bit 3 1) 10000000 (k\<lparr>trace := tr1\<rparr>) = (True, k\<lparr>trace := tr2\<rparr>)"
    "port_ready port delay ?H tr2" using wait_not_busy [OF ans, of ?H "k\<lparr>trace := tr1\<rparr>"] 1(2) by auto
  define m1 where "m1 = fill_prdt T buffer 512 (fill_command ?H T fis False (mem k))"
  note c1 = command_memory(1) [OF fis header T(2-4) buffer(1) reads m1_def, of img]
    and c2 = command_memory(2) [OF fis header T(2-4) buffer(1) reads m1_def]
  let ?k1 = "k\<lparr>trace := tr2, mem := m1\<rparr>"
  let ?k2 = "reg_write (port + PX_CI) 1 (reg_write (port + PX_SERR) 0xFFFFFFFF (reg_write (port + PX_IS) 0xFFFFFFFF ?k1))"
  have base: "list_base port (trace ?k1) = ?H" using 2(2) by (simp add: port_ready_def)
  have "delay \<le> 0 + 2 * unat (10000000 :: u32)" using delay by simp
  from wait_command_ok [OF ans issue_command [OF base, where a = "0xFFFFFFFF" and b = "0xFFFFFFFF"] this] obtain m tr3 where
    3: "wait_command hw port 1 10000000 ?k2 = (True, k\<lparr>mem := m, trace := tr3\<rparr>)" "port_ready port delay ?H tr3"
      "changes [(received, 256)] (ahci_transfer img ?H m1) m"
    by (auto simp: reg_write_def port_ready_def)
  obtain v tr4 where 4: "reg_read hw (port + PX_TFD) (k\<lparr>mem := m, trace := tr3\<rparr>) = (v, k\<lparr>mem := m, trace := tr4\<rparr>)"
    "port_ready port delay ?H tr4" "v AND 1 = 0"
    using port_read [OF ans, of ?H "k\<lparr>mem := m, trace := tr3\<rparr>" "port + PX_TFD"] 3(2) ahciD(5) [OF ans] and_part
    by (auto simp: port_ready_def)
  obtain w tr5 where 5: "reg_read hw (port + PX_IS) (k\<lparr>mem := m, trace := tr4\<rparr>) = (w, k\<lparr>mem := m, trace := tr5\<rparr>)"
    "port_ready port delay ?H tr5" "w AND push_bit 30 1 = 0"
    using port_read [OF ans, of ?H "k\<lparr>mem := m, trace := tr4\<rparr>" "port + PX_IS"] 4(2) ahciD(1) [OF ans] by auto
  have "\<not> 0xFFFFFFFF < buffer" using buffer(1) by (simp add: word_less_nat_alt)
  then have run: "SATA_execute_command hw port d fis buffer 512 False k = (True, k\<lparr>mem := m, trace := tr5\<rparr>)"
    using 1(1) 2(1) 3(1) 4(1,3) 5(1,3) args T(1)
    by (simp add: SATA_execute_command_def Let_def upd_mem_def m1_def)
  have S: "changes [(buffer, 512)] m1 (store buffer ?s m1)"
    using buffer(2) len by (intro changes_store) (simp_all add: apart_def)
  have n: "unat ?H + 8 < 2 ^ 64" "unat (?H + 4) + 4 < 2 ^ 64" using header(1) offset_nat [of ?H 32 4] by (simp_all add: apart_def)
  have W: "changes [(?H, 8)] (store buffer ?s m1) (ahci_transfer img ?H m1)"
    unfolding c1 using changes_within [OF n(1), of 4 4] changes_write_u32 [OF n(2)] by simp
  from changes_append [OF c2 changes_append [OF S changes_append [OF W 3(3)]]]
  have "changes [(2 * T, 144), (T, 144), (?H, 8), (buffer, 512), (received, 256)] (mem k) m" by (rule changes_mono) auto
  moreover have "bytes m buffer 512 = ?s"
  proof -
    have "bytes m buffer 512 = bytes (store buffer ?s m1) buffer 512"
    proof (rule bytes_changes [OF changes_append [OF W 3(3)]])
      fix q :: u64 and l :: nat assume "(q, l) \<in> set ([(?H, 8)] @ [(received, 256)])"
      then show "apart buffer 512 q l" using buffer(3) apart_sub [OF apart_sym [OF buffer(2)], of 0 8] by (auto intro: apart_sym)
    qed (use buffer(2) in \<open>simp add: apart_def\<close>)
    then show ?thesis using bytes_store [of ?s 512 buffer m1] len by simp
  qed
  ultimately show ?thesis using run 5(2) by blast
qed

section \<open>Reading a sector\<close>

text \<open>The memory of a read, as runs that must not overlap: the command list's first header, the table, its
  pointer, the FIS on the stack, the buffers, what the controller receives; and what \<^verbatim>\<open>memset\<close>
  hits, at twice the addresses it is given.\<close>

definition sata_runs :: "sata_port_data \<Rightarrow> u64 \<Rightarrow> u64 \<Rightarrow> u64 \<Rightarrow> u64 \<Rightarrow> u64 \<Rightarrow> (u64 \<times> nat) list" where
  "sata_runs d T sp dma_buffer buff received =
     [(cmd_list d, 32), (T, 144), (cmd_tables d, 8), (sp, 20), (dma_buffer, 512), (buff, 512), (received, 256),
      (2 * dma_buffer, 512), (2 * sp, 20), (2 * T, 144)]"

text \<open>The FIS.\<close>

lemma read_fis_ok:
  assumes "unat sp + 20 < 2 ^ 64"
  shows "changes [(sp, 20)] m (read_fis sp lba m)" and "fis_reads_one (bytes (read_fis sp lba m) sp 20)"
    and "fis_lba (bytes (read_fis sp lba m) sp 20) = unat lba mod 2 ^ 48"
proof -
  show "changes [(sp, 20)] m (read_fis sp lba m)"
  proof (rule changes_run)
    fix x assume "read_fis sp lba m x \<noteq> m x"
    then have "x \<in> (\<lambda>i. sp + word_of_nat i) ` {0, 1, 2, 4, 5, 6, 7, 8, 9, 10, 12, 13}"
      by (auto simp: read_fis_def split: if_splits)
    then obtain i :: nat where "i \<in> {0, 1, 2, 4, 5, 6, 7, 8, 9, 10, 12, 13}" "x = sp + word_of_nat i" by blast
    then show "\<exists>i < 20. x = sp + word_of_nat i" by (intro exI [of _ i]) auto
  qed (rule assms)
  show "fis_reads_one (bytes (read_fis sp lba m) sp 20)"
    by (simp add: fis_reads_one_def read_fis_def CMD_SATA_READ_DMA_EXT_def)
  show "fis_lba (bytes (read_fis sp lba m) sp 20) = unat lba mod 2 ^ 48"
    unfolding sum48 [symmetric] by (simp add: fis_lba_def read_fis_def)
qed

text \<open>The memory after the driver has prepared the FIS.\<close>

lemma prepare_read:
  assumes sep: "separate (sata_runs d T sp dma_buffer buff received)" and lo: "unat dma_buffer < 2 ^ 32" "unat sp < 2 ^ 62"
    and m1: "m1 = read_fis sp lba (memset sp 0 sizeof_fis (memset dma_buffer 0 512 m))"
  shows "changes [(2 * dma_buffer, 512), (2 * sp, 20), (sp, 20)] m m1" and "bytes m1 (2 * dma_buffer) 512 = replicate 512 0"
    and "fis_reads_one (bytes m1 sp 20)" and "fis_lba (bytes m1 sp 20) = unat lba mod 2 ^ 48"
    and "read_u64 m1 (cmd_tables d) = read_u64 m (cmd_tables d)"
    and "read_u32 m1 (cmd_list d + 8) = read_u32 m (cmd_list d + 8)"
    and "read_u32 m1 (cmd_list d + 12) = read_u32 m (cmd_list d + 12)"
proof -
  let ?mA = "memset dma_buffer 0 512 m" and ?mB = "memset sp 0 20 (memset dma_buffer 0 512 m)"
  have sp: "unat sp + 20 < 2 ^ 64" using lo(2) by simp
  have A: "changes [(2 * dma_buffer, 512)] m ?mA" "bytes ?mA (2 * dma_buffer) 512 = replicate 512 0"
    using memset_twice [of dma_buffer 512] lo(1) by simp_all
  have B: "changes [(2 * sp, 20)] ?mA ?mB" using memset_twice(1) [of sp 20] lo(2) by simp
  have C: "changes [(sp, 20)] ?mB m1" using read_fis_ok(1) [OF sp] by (simp add: m1 sizeof_fis_def)
  show "fis_reads_one (bytes m1 sp 20)" "fis_lba (bytes m1 sp 20) = unat lba mod 2 ^ 48"
    unfolding m1 by (rule read_fis_ok [OF sp])+
  note BC = changes_append [OF B C]
  from changes_append [OF A(1) BC] show all: "changes [(2 * dma_buffer, 512), (2 * sp, 20), (sp, 20)] m m1" by simp
  note L = sep [unfolded separate_def sata_runs_def, simplified]
  have "apart (2 * dma_buffer) 512 (2 * sp) 20" "apart sp 20 (2 * dma_buffer) 512" using L by blast+
  then have "bytes m1 (2 * dma_buffer) 512 = bytes ?mA (2 * dma_buffer) 512"
    using apart_sym [of sp 20 "2 * dma_buffer" 512] by (intro bytes_changes [OF BC]) (auto simp: apart_def)
  then show "bytes m1 (2 * dma_buffer) 512 = replicate 512 0" using A(2) by simp
  have t: "unat (cmd_tables d) + 8 < 2 ^ 64" and l: "unat (cmd_list d) + 32 < 2 ^ 64" using L by (auto simp: apart_def)
  show "read_u64 m1 (cmd_tables d) = read_u64 m (cmd_tables d)"
    by (rule field_changes(3) [OF all t]) (use L in auto)
  have part: "apart (cmd_list d + word_of_nat j) 4 q n"
    if "(q, n) \<in> set [(2 * dma_buffer, 512), (2 * sp, 20), (sp, 20)]" "j + 4 \<le> 32" for q n j
    by (rule apart_sub [of "cmd_list d" 32]) (use L that in auto)
  show "read_u32 m1 (cmd_list d + 8) = read_u32 m (cmd_list d + 8)"
    using part [of _ _ 8] l offset_nat [OF l, of 8] by (intro field_changes(2) [OF all]) auto
  show "read_u32 m1 (cmd_list d + 12) = read_u32 m (cmd_list d + 12)"
    using part [of _ _ 12] l offset_nat [OF l, of 12] by (intro field_changes(2) [OF all]) auto
qed

lemma low_grant:
  assumes "low_heap k = Some h" and "heap_inv h" and "low_kalloc_aligned 512 512 k = Inr (p, k1)" and "p \<noteq> 0"
  obtains h' where "k1 = k\<lparr>low_heap := Some h'\<rparr>" and "free h' p = Inr h"
proof -
  obtain h' where a: "alloc_aligned h 512 512 = Inr (p, h')" "k1 = k\<lparr>low_heap := Some h'\<rparr>"
    using assms(1,3) by (auto simp: low_kalloc_aligned_def andthen_def split: sum.splits)
  have s: "size_ok h 512" by (rule size_ok_small) simp_all
  from alloc_aligned_grantD [OF assms(2) s a(1)] have "free h' p = Inr h"
    using assms(4) free_take [OF assms(2) _ needed_nat(2) [OF assms(2) s]] by auto
  then show thesis using a(2) that by blast
qed

text \<open>What a read writes: of the header only the first 8 bytes, and not the pointer to the table.\<close>

definition sata_writes :: "sata_port_data \<Rightarrow> u64 \<Rightarrow> u64 \<Rightarrow> u64 \<Rightarrow> u64 \<Rightarrow> u64 \<Rightarrow> (u64 \<times> nat) list" where
  "sata_writes d T sp dma_buffer buff received =
     [(cmd_list d, 8), (T, 144), (sp, 20), (dma_buffer, 512), (buff, 512), (received, 256),
      (2 * dma_buffer, 512), (2 * sp, 20), (2 * T, 144)]"

lemma sata_writes_runs:
  assumes "separate (sata_runs d T sp dma_buffer buff received)" and "changes (sata_writes d T sp dma_buffer buff received) m m'"
  shows "changes (sata_runs d T sp dma_buffer buff received) m m'"
  unfolding changes_def
proof (intro allI impI)
  fix x :: u64 assume x: "\<forall>(p, n) \<in> set (sata_runs d T sp dma_buffer buff received). unat x \<notin> {unat p..<unat p + n}"
  show "m' x = m x"
  proof (rule changesD [OF assms(2)])
    fix p n assume "(p, n) \<in> set (sata_writes d T sp dma_buffer buff received)"
    then show "unat x \<notin> {unat p..<unat p + n}" using x by (auto simp: sata_writes_def sata_runs_def)
  qed
qed

text \<open>The pointers to the table, in the header and in the driver's array, survive a read.\<close>

lemma sata_pointers:
  assumes sep: "separate (sata_runs d T sp dma_buffer buff received)"
    and ch: "changes (sata_writes d T sp dma_buffer buff received) m m'"
  shows "read_u64 m' (cmd_tables d) = read_u64 m (cmd_tables d)"
    and "read_u32 m' (cmd_list d + 8) = read_u32 m (cmd_list d + 8)"
    and "read_u32 m' (cmd_list d + 12) = read_u32 m (cmd_list d + 12)"
proof -
  note L = sep [unfolded separate_def sata_runs_def, simplified]
  have t: "unat (cmd_tables d) + 8 < 2 ^ 64" and l: "unat (cmd_list d) + 32 < 2 ^ 64" using L by (auto simp: apart_def)
  have T: "apart (cmd_tables d) 8 T 144" and H: "apart (cmd_tables d) 8 (cmd_list d) 8"
    using L apart_sym [of T 144 "cmd_tables d" 8] apart_sym [OF apart_sub [of "cmd_list d" 32 "cmd_tables d" 8 0 8]] by simp_all
  show "read_u64 m' (cmd_tables d) = read_u64 m (cmd_tables d)"
    by (rule field_changes(3) [OF ch t]) (use L T H in \<open>auto simp: sata_writes_def\<close>)
  have part: "apart (cmd_list d + word_of_nat j) 4 q n"
    if "(q, n) \<in> set (sata_writes d T sp dma_buffer buff received)" "8 \<le> j" "j + 4 \<le> 32" for q n j
  proof (cases "(q, n) = (cmd_list d, 8)")
    case True
    then show ?thesis using apart_offsets [OF l, of j 4 0 8] that(2,3) by simp
  next
    case False
    then have "apart (cmd_list d) 32 q n" using that(1) L by (auto simp: sata_writes_def)
    then show ?thesis using that(3) by (rule apart_sub)
  qed
  show "read_u32 m' (cmd_list d + 8) = read_u32 m (cmd_list d + 8)"
    using part [of _ _ 8] l offset_nat [OF l, of 8] by (intro field_changes(2) [OF ch]) auto
  show "read_u32 m' (cmd_list d + 12) = read_u32 m (cmd_list d + 12)"
    using part [of _ _ 12] l offset_nat [OF l, of 12] by (intro field_changes(2) [OF ch]) auto
qed

lemma SATA_read_ok:
  fixes k :: "'z manager_scheme"
  assumes ans: "ahci_answers hw port img received delay" "delay \<le> 20000000" "\<And>n. length (img n) = 512"
    and dev: "d_driver d = SATA_driver_data hba port pd num" "port_ready port delay (cmd_list pd) (trace k)"
    and args: "port \<noteq> 0" "sp \<noteq> 0" "buff \<noteq> 0" "command_slots pd \<noteq> 0"
    and heap: "low_heap k = Some h" "heap_inv h" "low_kalloc_aligned 512 512 k = Inr (dma_buffer, k1)"
      "dma_buffer \<noteq> 0" "dma_buffer AND 3 = 0"
    and table: "read_u64 (mem k) (cmd_tables pd) = T" "read_u32 (mem k) (cmd_list pd + 8) = ucast T"
      "read_u32 (mem k) (cmd_list pd + 12) = 0"
    and low: "unat T < 2 ^ 32" "unat dma_buffer < 2 ^ 32" "unat sp < 2 ^ 62"
    and sep: "separate (sata_runs pd T sp dma_buffer buff received)"
  shows "\<exists>m tr. SATA_read hw sp d lba buff k = Inr (True, k\<lparr>mem := m, trace := tr\<rparr>) \<and>
     bytes m buff 512 = img (unat lba mod 2 ^ 48) \<and> port_ready port delay (cmd_list pd) tr \<and>
     changes (sata_writes pd T sp dma_buffer buff received) (mem k) m \<and>
     bytes m (2 * dma_buffer) 512 = replicate 512 0"
proof -
  let ?H = "cmd_list pd"
  obtain h1 where k1: "k1 = k\<lparr>low_heap := Some h1\<rparr>" "free h1 dma_buffer = Inr h"
    by (rule low_grant [OF heap(1-4)])
  define m1 where "m1 = read_fis sp lba (memset sp 0 sizeof_fis (memset dma_buffer 0 512 (mem k)))"
  note p = prepare_read [OF sep low(2,3) m1_def] and L = sep [unfolded separate_def sata_runs_def, simplified]
  let ?k2 = "k\<lparr>low_heap := Some h1, mem := m1\<rparr>"
  have run: "apart sp 20 (2 * T) 144" "apart sp 20 T 144" "apart ?H 32 T 144" "apart ?H 32 (2 * T) 144"
    "apart dma_buffer 512 ?H 32" "apart dma_buffer 512 received 256" "apart dma_buffer 512 buff 512"
    using L apart_sym [of T 144 sp 20] apart_sym [of ?H 32 dma_buffer 512] by blast+
  have tb: "read_u64 (mem ?k2) (cmd_tables pd) = T" "read_u32 (mem ?k2) (?H + 8) = ucast T" "read_u32 (mem ?k2) (?H + 12) = 0"
    using p(5-7) table by simp_all
  have "port_ready port delay ?H (trace ?k2)" "fis_reads_one (bytes (mem ?k2) sp 20)" using dev(2) p(3) by simp_all
  from execute_read_ok [OF ans(1,2) this(1) args(1,2) heap(4,5) args(4) tb(1) low(1) tb(2,3) run(1-4) low(2) run(5,6) this(2) ans(3)]
  obtain m2 tr where e: "SATA_execute_command hw port pd sp dma_buffer 512 False ?k2 = (True, ?k2\<lparr>mem := m2, trace := tr\<rparr>)"
    "port_ready port delay ?H tr" "bytes m2 dma_buffer 512 = img (unat lba mod 2 ^ 48)"
    "changes [(2 * T, 144), (T, 144), (?H, 8), (dma_buffer, 512), (received, 256)] m1 m2"
    using p(4) by auto
  define m3 where "m3 = memcpy dma_buffer buff 512 m2"
  have c: "bytes m3 buff 512 = bytes m2 dma_buffer 512" "changes [(buff, 512)] m2 m3"
    using memcpy_apart [of dma_buffer 512 buff m2] run(7) by (simp_all add: m3_def)
  note after = changes_append [OF e(4) c(2)]
  have "changes (sata_writes pd T sp dma_buffer buff received) (mem k) m3"
    using changes_append [OF p(1) after] by (rule changes_mono) (simp add: sata_writes_def)
  moreover have "bytes m3 (2 * dma_buffer) 512 = bytes m1 (2 * dma_buffer) 512"
  proof (rule bytes_changes [OF after])
    fix q :: u64 and n :: nat
    assume "(q, n) \<in> set ([(2 * T, 144), (T, 144), (?H, 8), (dma_buffer, 512), (received, 256)] @ [(buff, 512)])"
    moreover have "apart ?H 8 (2 * dma_buffer) 512" using L apart_sub [of ?H 32 "2 * dma_buffer" 512 0 8] by simp
    ultimately show "apart (2 * dma_buffer) 512 q n"
      using L apart_sym [of T 144 "2 * dma_buffer" 512] apart_sym [of ?H 8 "2 * dma_buffer" 512]
        apart_sym [of dma_buffer 512 "2 * dma_buffer" 512] apart_sym [of received 256 "2 * dma_buffer" 512]
        apart_sym [of buff 512 "2 * dma_buffer" 512] by auto
  qed (use L in \<open>simp add: apart_def\<close>)
  moreover have "SATA_read hw sp d lba buff k = Inr (True, k\<lparr>mem := m3, trace := tr\<rparr>)"
  proof -
    have same: "k\<lparr>trace := tr, mem := m3, low_heap := Some h\<rparr> = k\<lparr>mem := m3, trace := tr\<rparr>" using heap(1) by (cases k) simp
    show ?thesis
      using args(3) heap(3,4) dev(1) e(1) k1
      by (simp add: SATA_read_def Let_def upd_mem_def m1_def [symmetric] m3_def [symmetric] low_kfree_def same)
  qed
  ultimately show ?thesis using p(2) c(1) e(2,3) by auto
qed

text \<open>
  C22. A sector from an AHCI disk. On a port that follows the specification and answers in time, with the command list
  as \<^verbatim>\<open>SATA_port_configure\<close> leaves it, \<^verbatim>\<open>SATA_read\<close> returns true with the
  512 bytes of the addressed sector in the buffer; the low heap is what it was, the port is ready for the next command, and nothing
  changes outside the runs. But \<^verbatim>\<open>memset\<close> writes at twice the address it is given: 512 bytes at
  twice the address of the DMA buffer, which belong to someone else, are zero afterwards. The hypothesis
  \<open>separate\<close> asks that these runs hit none of the structures of the read.
\<close>

theorem SATA_read_sector:
  fixes k :: "'z manager_scheme"
  assumes ans: "ahci_answers hw port img received delay" "delay \<le> 20000000" "\<And>n. length (img n) = 512"
    and dev: "d_driver d = SATA_driver_data hba port pd num" "port_ready port delay (cmd_list pd) (trace k)"
    and args: "port \<noteq> 0" "sp \<noteq> 0" "buff \<noteq> 0" "command_slots pd \<noteq> 0"
    and heap: "low_heap k = Some h" "heap_inv h" "low_kalloc_aligned 512 512 k = Inr (dma_buffer, k1)"
      "dma_buffer \<noteq> 0" "dma_buffer AND 3 = 0"
    and table: "read_u64 (mem k) (cmd_tables pd) = T" "read_u32 (mem k) (cmd_list pd + 8) = ucast T"
      "read_u32 (mem k) (cmd_list pd + 12) = 0"
    and low: "unat T < 2 ^ 32" "unat dma_buffer < 2 ^ 32" "unat sp < 2 ^ 62"
    and sep: "separate (sata_runs pd T sp dma_buffer buff received)"
  shows "\<exists>m tr. SATA_read hw sp d lba buff k = Inr (True, k\<lparr>mem := m, trace := tr\<rparr>) \<and>
     bytes m buff 512 = img (unat lba mod 2 ^ 48) \<and> port_ready port delay (cmd_list pd) tr \<and>
     changes (sata_runs pd T sp dma_buffer buff received) (mem k) m \<and>
     bytes m (2 * dma_buffer) 512 = replicate 512 0"
proof -
  obtain m tr where "SATA_read hw sp d lba buff k = Inr (True, k\<lparr>mem := m, trace := tr\<rparr>)"
    "bytes m buff 512 = img (unat lba mod 2 ^ 48)" "port_ready port delay (cmd_list pd) tr"
    "changes (sata_writes pd T sp dma_buffer buff received) (mem k) m" "bytes m (2 * dma_buffer) 512 = replicate 512 0"
    using SATA_read_ok [OF assms] by blast
  then show ?thesis using sata_writes_runs [OF sep] by blast
qed

section \<open>Witness\<close>

text \<open>A controller that follows the specification, with its port at 0x80000000.\<close>

definition sim_ahci :: "(nat \<Rightarrow> u8 list) \<Rightarrow> nat \<Rightarrow> hardware" where
  "sim_ahci img delay =
     \<lparr>port_in = (\<lambda>_ _. 0),
      reg_in = (\<lambda>tr m a.
        if a = 0x80000000 + PX_CI then (case issued 0x80000000 tr of None \<Rightarrow> 0 | Some (v, n) \<Rightarrow> if n < delay then v else 0)
        else if a = 0x80000000 + PX_TFD then 0x50 else 0),
      dma = (\<lambda>tr m. case issued 0x80000000 tr of
               None \<Rightarrow> m | Some (v, n) \<Rightarrow> if v = 1 \<and> n = delay then ahci_transfer img (list_base 0x80000000 tr) m else m)\<rparr>"

lemma sim_ahci_answers: "ahci_answers (sim_ahci img delay) 0x80000000 img received delay"
  by (auto simp: ahci_answers_def sim_ahci_def ahci_quiet_def port_regs split: option.splits)

definition ahci_port :: sata_port_data where
  "ahci_port = \<lparr>cmd_list = 0x8000, fis_area = 0xC000, cmd_tables = 0xA000, command_slots = 1\<rparr>"

definition ahci_disk :: disk_device where
  "ahci_disk = \<lparr>d_name = [107, 0], d_type = DISK_SATA, chann_main = 0, chann_sub = 0, d_size = 0,
                d_driver = SATA_driver_data 0 0x80000000 ahci_port 0\<rparr>"

definition ahci_machine :: manager where
  "ahci_machine = (sim_machine ((\<lambda>_. 0)(0x8009 := 0x90, 0xA001 := 0x90)))
     \<lparr>low_heap := Some sim_heap, trace := [RegW 0x80000000 0x8000]\<rparr>"

theorem SATA_read_sector_witness:
  "\<exists>m tr. SATA_read (sim_ahci (\<lambda>n. replicate 512 (word_of_nat n)) 5) 0x70000 ahci_disk 7 0xB000 ahci_machine =
       Inr (True, ahci_machine\<lparr>mem := m, trace := tr\<rparr>) \<and>
     bytes m 0xB000 512 = replicate 512 7 \<and> bytes m 0x200000 512 = replicate 512 0"
proof -
  let ?k = ahci_machine and ?img = "\<lambda>n. replicate 512 (word_of_nat n) :: u8 list"
  have pd: "cmd_list ahci_port = 0x8000" "cmd_tables ahci_port = 0xA000" "command_slots ahci_port \<noteq> 0"
    by (simp_all add: ahci_port_def)
  have dev: "d_driver ahci_disk = SATA_driver_data 0 0x80000000 ahci_port 0"
    "port_ready 0x80000000 5 (cmd_list ahci_port) (trace ?k)"
    by (simp_all add: ahci_disk_def ahci_machine_def port_ready_def ahci_quiet_def list_base_def port_regs pd)
  have heap: "low_heap ?k = Some sim_heap" by (simp add: ahci_machine_def)
  have alloc: "low_kalloc_aligned 512 512 ?k = Inr (0x100000, ?k\<lparr>low_heap := Some (take_run sim_heap 0 1)\<rparr>)"
  proof -
    have "alloc_aligned sim_heap 512 512 = Inr (0x100000, take_run sim_heap 0 1)" by code_simp
    then show ?thesis by (simp add: low_kalloc_aligned_def heap)
  qed
  have table: "read_u64 (mem ?k) (cmd_tables ahci_port) = 0x9000" "read_u32 (mem ?k) (cmd_list ahci_port + 8) = ucast (0x9000 :: u64)"
    "read_u32 (mem ?k) (cmd_list ahci_port + 12) = 0"
    by (simp_all add: pd ahci_machine_def read_u64_def read_u32_def read_u16_def)
  have sep: "separate (sata_runs ahci_port 0x9000 0x70000 0x100000 0xB000 0xC000)"
    by (simp add: separate_def sata_runs_def apart_def pd)
  have "unat (7 :: u64) mod 2 ^ 48 = 7" by simp
  then show ?thesis
    using SATA_read_sector [OF sim_ahci_answers _ _ dev _ _ _ pd(3) heap sim_heap_inv alloc _ _ table _ _ _ sep, of ?img 7]
    by simp blast
qed

end
