(* ===== verification/Mbr.thy ===== *)
theory Mbr
  imports Sata
begin

text \<open>
  The partition table (\<^verbatim>\<open>drivers/fs/mbr/mbr.c\<close>). The sector is in byte memory, a
  \<^verbatim>\<open>mbr_partition_t\<close> is a typed object behind its pointer. The sector reader is an
  argument; the kernel's is \<open>read_disk\<close>.
\<close>

record mbr_partition =
  boot :: u8
  p_type :: u8
  lba_start :: u32
  p_sectors :: u32

definition sizeof_mbr_partition :: u64 where "sizeof_mbr_partition = 12"

definition mbr_u32 :: "memory \<Rightarrow> u64 \<Rightarrow> u32" where
  "mbr_u32 m p =
     ucast (m p) OR push_bit 8 (ucast (m (p + 1))) OR push_bit 16 (ucast (m (p + 2))) OR
     push_bit 24 (ucast (m (p + 3)))"

definition partition_at :: "memory \<Rightarrow> u64 \<Rightarrow> mbr_partition" where
  "partition_at m entry =
     \<lparr>boot = m entry, p_type = m (entry + 4), lba_start = mbr_u32 m (entry + 8), p_sectors = mbr_u32 m (entry + 12)\<rparr>"

text \<open>The body of the loop over the four entries; \<open>ps\<close> is the array
  \<^verbatim>\<open>partitions\<close> up to \<^verbatim>\<open>partitions_idx\<close>, each pointer with what it
  points to.\<close>

definition mbr_entry ::
  "u64 \<Rightarrow> u64 \<Rightarrow> (u64 \<times> mbr_partition) list \<times> 'z manager_scheme \<Rightarrow>
     ((u64 \<times> mbr_partition) list \<times> 'z manager_scheme) result" where
  "mbr_entry mbr i = (\<lambda>(ps, k).
     let entry = mbr + (0x1BE + i * 16); kind = mem k (entry + 4) in
     if kind = 0x00 \<or> kind = 0x07 then
       andthen (kalloc sizeof_mbr_partition k) (\<lambda>(p, k1).
       if p = 0 then Inl NullDeref
       else
         let part = partition_at (mem k1) entry in
         Inr (ps @ [(p, part)],
              if kind = 0x07 then
                say_hexLN (p_sectors part) (say ''MBR EXFAT sectors: ''
                  (say_hexLN (lba_start part) (say ''MBR EXFAT at: ''
                    (say_hexLN (ucast (p_type part)) (say ''MBR EXFAT: '' k1)))))
              else k1))
     else Inr (ps, k))"

definition MBR_get_partitions ::
  "'z reader \<Rightarrow> disk_device \<Rightarrow> 'z manager_scheme \<Rightarrow>
     (int \<times> (u64 \<times> mbr_partition) list \<times> 'z manager_scheme) result" where
  "MBR_get_partitions rd d k =
     andthen (kalloc 512 k) (\<lambda>(mbr, k1).
     andthen (rd d 0 mbr k1) (\<lambda>(ok, k2).
     if \<not> ok then andthen (kfree mbr k2) (\<lambda>k3. Inr (- 1, [], k3))
     else if mem k2 (mbr + 510) \<noteq> 0x55 \<or> mem k2 (mbr + 511) \<noteq> 0xAA then
       andthen (kfree mbr k2) (\<lambda>k3. Inr (- 1, [], k3))
     else
       andthen (for_u64_r 0 4 (mbr_entry mbr) ([], k2)) (\<lambda>(ps, k3).
       andthen (kfree mbr k3) (\<lambda>k4. Inr (int (length ps), ps, k4)))))"

end
