(* ===== verification/Byte_Order.thy ===== *)
theory Byte_Order
  imports Machine
begin

text \<open>
  The value of a run of bytes, least significant first, and the shift-and-or expressions with which the
  drivers read multi-byte fields.
\<close>

definition le_value :: "u8 list \<Rightarrow> nat" where
  "le_value bs = foldr (\<lambda>b n. unat b + 256 * n) bs 0"

lemma le_value_simps [simp]:
  "le_value [] = 0"
  "le_value (b # bs) = unat b + 256 * le_value bs"
  by (simp_all add: le_value_def)

lemma le_value_bound: "le_value bs < 256 ^ length bs"
proof (induction bs)
  case Nil
  then show ?case by simp
next
  case (Cons b bs)
  have "unat b < 256" using unsigned_less [of b, where ?'a = nat] by simp
  then show ?case using Cons by simp
qed

text \<open>Joining a byte with a word whose low eight bits are clear.\<close>

lemma or_shifted:
  fixes w :: "'a::len word"
  assumes "8 \<le> LENGTH('a)"
  shows "push_bit n (ucast (b :: u8)) OR push_bit (n + 8) w = push_bit n (ucast b + 256 * w)"
proof -
  have "ucast b OR push_bit 8 w = ucast b + push_bit 8 w"
    by (rule disjunctive_add_eq_or [symmetric]) (auto simp: bit_eq_iff bit_simps dest: bit_imp_le_length)
  moreover have "push_bit n (ucast b) OR push_bit (n + 8) w = push_bit n (ucast b OR push_bit 8 w)"
    by (simp add: push_bit_or push_bit_push_bit)
  ultimately show ?thesis by (simp add: push_bit_eq_mult mult.commute)
qed

lemma byte_word: "ucast (b :: u8) = (word_of_nat (unat b) :: 'a::len word)"
  by simp

lemma le_u16: "ucast (a :: u8) OR push_bit 8 (ucast (b :: u8)) = (word_of_nat (le_value [a, b]) :: u16)"
  using or_shifted [where ?'a = 16, of 0 a "ucast b"] by simp

lemma le_u32:
  "ucast (a :: u8) OR push_bit 8 (ucast (b :: u8)) OR push_bit 16 (ucast (c :: u8)) OR push_bit 24 (ucast (d :: u8)) =
     (word_of_nat (le_value [a, b, c, d]) :: u32)"
  using or_shifted [where ?'a = 32, of 16 c "ucast d"] or_shifted [where ?'a = 32, of 8 b "ucast c + 256 * ucast d"]
    or_shifted [where ?'a = 32, of 0 a "ucast b + 256 * (ucast c + 256 * ucast d)"] by simp

lemma le_u64:
  "ucast (a :: u8) OR push_bit 8 (ucast (b :: u8)) OR push_bit 16 (ucast (c :: u8)) OR push_bit 24 (ucast (d :: u8)) OR
   push_bit 32 (ucast (e :: u8)) OR push_bit 40 (ucast (f :: u8)) OR push_bit 48 (ucast (g :: u8)) OR
   push_bit 56 (ucast (h :: u8)) = (word_of_nat (le_value [a, b, c, d, e, f, g, h]) :: u64)"
  using or_shifted [where ?'a = 64, of 48 g "ucast h"] or_shifted [where ?'a = 64, of 40 f "ucast g + 256 * ucast h"]
    or_shifted [where ?'a = 64, of 32 e "ucast f + 256 * (ucast g + 256 * ucast h)"]
    or_shifted [where ?'a = 64, of 24 d "ucast e + 256 * (ucast f + 256 * (ucast g + 256 * ucast h))"]
    or_shifted [where ?'a = 64, of 16 c "ucast d + 256 * (ucast e + 256 * (ucast f + 256 * (ucast g + 256 * ucast h)))"]
    or_shifted [where ?'a = 64, of 8 b "ucast c + 256 * (ucast d + 256 * (ucast e + 256 * (ucast f + 256 * (ucast g + 256 * ucast h))))"]
    or_shifted [where ?'a = 64, of 0 a "ucast b + 256 * (ucast c + 256 * (ucast d + 256 * (ucast e + 256 * (ucast f + 256 * (ucast g + 256 * ucast h)))))"]
  by simp

end
