(* ===== verification/Mbr_Props.thy ===== *)
theory Mbr_Props
  imports Demo_Disk Mbr Byte_Order
begin

text \<open>
  What \<^verbatim>\<open>MBR_get_partitions\<close> returns, against a description of the partition table as
  a list of bytes.
\<close>

section \<open>The partition table\<close>

definition table_entry :: "u8 list \<Rightarrow> nat \<Rightarrow> u8 list" where
  "table_entry s i = take 16 (drop (446 + 16 * i) s)"

definition decode_partition :: "u8 list \<Rightarrow> mbr_partition" where
  "decode_partition e =
     \<lparr>boot = e ! 0, p_type = e ! 4, lba_start = word_of_nat (le_value (take 4 (drop 8 e))),
      p_sectors = word_of_nat (le_value (take 4 (drop 12 e)))\<rparr>"

text \<open>The code takes the entries of type 0 (unused) and 7 (exFAT).\<close>

definition kept_partitions :: "u8 list \<Rightarrow> nat \<Rightarrow> mbr_partition list" where
  "kept_partitions s n =
     filter (\<lambda>p. p_type p = 0 \<or> p_type p = 7) (map (\<lambda>i. decode_partition (table_entry s i)) [0..<n])"

lemma kept_Suc:
  "kept_partitions s (Suc n) =
     kept_partitions s n @ (let p = decode_partition (table_entry s n) in if p_type p = 0 \<or> p_type p = 7 then [p] else [])"
  by (simp add: kept_partitions_def Let_def)

lemma kept_length: "length (kept_partitions s n) \<le> n"
  unfolding kept_partitions_def by (rule order_trans [OF length_filter_le]) simp

lemma four_bytes: "a + 3 < length s \<Longrightarrow> take 4 (drop a s) = [s ! a, s ! (a + 1), s ! (a + 2), s ! (a + 3)]"
  by (rule nth_equalityI) (auto simp: less_Suc_eq numeral_eq_Suc add.commute)

text \<open>An entry in a buffer that holds the sector.\<close>

lemma partition_at_decode:
  assumes "length s = 512" and "i < 4"
  shows "partition_at (store mbr s m) (mbr + (0x1BE + word_of_nat i * 16)) = decode_partition (table_entry s i)"
proof -
  have at: "store mbr s m (mbr + (0x1BE + word_of_nat i * 16) + word_of_nat j) = s ! (446 + 16 * i + j)"
    if "446 + 16 * i + j < 512" for j
    using store_in [of "446 + 16 * i + j" s mbr m] that assms(1) by (simp add: algebra_simps)
  have e: "table_entry s i ! j = s ! (446 + 16 * i + j)" if "j < 16" for j
    using that assms by (simp add: table_entry_def)
  have f: "take 4 (drop a (table_entry s i)) =
      [s ! (446 + 16 * i + a), s ! (446 + 16 * i + a + 1), s ! (446 + 16 * i + a + 2), s ! (446 + 16 * i + a + 3)]"
    if "a + 3 < 16" for a
    using that assms by (subst four_bytes) (auto simp: table_entry_def add.assoc)
  have u: "mbr_u32 (store mbr s m) (mbr + (0x1BE + word_of_nat i * 16) + word_of_nat a) =
      word_of_nat (le_value (take 4 (drop a (table_entry s i))))" if "a + 3 < 16" for a
    using at [of a] at [of "a + 1"] at [of "a + 2"] at [of "a + 3"] that assms(2)
    by (simp only: f [OF that] le_u32 [symmetric] mbr_u32_def) (simp add: algebra_simps)
  show ?thesis
    using at [of 0] at [of 4] u [of 8] u [of 12] e [of 0] e [of 4] assms(2)
    by (simp add: partition_at_def decode_partition_def)
qed

section \<open>The loop over the entries\<close>

text \<open>The blocks of the partitions found so far.\<close>

definition partition_runs :: "heap \<Rightarrow> nat list \<Rightarrow> (nat \<times> nat) set" where
  "partition_runs h ss = (\<lambda>s. (s, s + needed_blocks h sizeof_mbr_partition)) ` set ss"

lemma mbr_entry_eq:
  fixes s i
  defines "e \<equiv> decode_partition (table_entry s i)"
  assumes "length s = 512" and "i < 4" and "mem k = store mbr s m"
  shows "mbr_entry mbr (word_of_nat i) (ps, k) =
    (if p_type e = 0 \<or> p_type e = 7 then
       andthen (kalloc sizeof_mbr_partition k) (\<lambda>(p, k1).
       if p = 0 then Inl NullDeref
       else let part = partition_at (mem k1) (mbr + (0x1BE + word_of_nat i * 16)) in
         Inr (ps @ [(p, part)],
            if p_type e = 7 then
              say_hexLN (p_sectors part) (say ''MBR EXFAT sectors: ''
                (say_hexLN (lba_start part) (say ''MBR EXFAT at: ''
                  (say_hexLN (ucast (p_type part)) (say ''MBR EXFAT: '' k1)))))
            else k1))
     else Inr (ps, k))"
proof -
  have "partition_at (mem k) (mbr + (0x1BE + word_of_nat i * 16)) = e"
    unfolding e_def assms(4) using assms(2,3) by (rule partition_at_decode)
  then have "mem k (mbr + (0x1BE + word_of_nat i * 16) + 4) = p_type e"
    by (metis partition_at_def mbr_partition.select_convs(2))
  then show ?thesis by (simp only: mbr_entry_def prod.case Let_def)
qed

lemma mbr_entries_ok:
  assumes "heap_inv h" and "room h (n + 4 * needed_blocks h sizeof_mbr_partition)" and "root_heap k = Some h"
    and "mem k = store mbr s m" and "length s = 512"
  shows "\<exists>ps k' h' ss. for_u64_r 0 4 (mbr_entry mbr) ([], k) = Inr (ps, k') \<and> map snd ps = kept_partitions s 4 \<and>
     mem k' = mem k \<and> trace k' = trace k \<and> root_heap k' = Some h' \<and> heap_inv h' \<and>
     map fst ps = map (block_addr h) ss \<and> distinct ss \<and> live h' = live h \<union> partition_runs h ss \<and>
     partition_runs h ss \<inter> live h = {} \<and> block_addr h' = block_addr h"
proof -
  let ?n = "needed_blocks h sizeof_mbr_partition"
  let ?P = "\<lambda>j (ps, k'). j \<le> 4 \<and> map snd ps = kept_partitions s j \<and> mem k' = mem k \<and> trace k' = trace k \<and>
     (\<exists>h' ss. root_heap k' = Some h' \<and> heap_inv h' \<and> room h' (n + (4 - j) * ?n) \<and>
       map fst ps = map (block_addr h) ss \<and> distinct ss \<and> live h' = live h \<union> partition_runs h ss \<and>
       partition_runs h ss \<inter> live h = {} \<and> block_addr h' = block_addr h \<and> needed_blocks h' = needed_blocks h)"
  have "\<exists>t. for_u64_r 0 4 (mbr_entry mbr) ([], k) = Inr t \<and> ?P (unat (4 :: u64)) t"
  proof (rule for_u64_r_rule)
    show "?P (unat (0 :: u64)) ([], k)"
      using assms by (auto simp: kept_partitions_def partition_runs_def intro: exI [of _ "[]"])
  next
    fix j t assume j: "j < unat (4 :: u64)" and "?P j t"
    then obtain ps k' h' ss where t: "t = (ps, k')" "map snd ps = kept_partitions s j" "mem k' = mem k"
      "trace k' = trace k" "root_heap k' = Some h'" "heap_inv h'" "room h' (n + (4 - j) * ?n)"
      "map fst ps = map (block_addr h) ss" "distinct ss" "live h' = live h \<union> partition_runs h ss"
      "partition_runs h ss \<inter> live h = {}" "block_addr h' = block_addr h" "needed_blocks h' = needed_blocks h"
      by (cases t) auto
    let ?e = "decode_partition (table_entry s j)"
    have j4: "j < 4" using j by simp
    note body = mbr_entry_eq [OF assms(5) j4, of k' mbr m ps, unfolded t(3), OF assms(4)]
    show "\<exists>t'. mbr_entry mbr (word_of_nat j) t = Inr t' \<and> ?P (Suc j) t'"
    proof (cases "p_type ?e = 0 \<or> p_type ?e = 7")
      case False
      have "n + (4 - Suc j) * ?n \<le> n + (4 - j) * ?n" by (intro add_left_mono mult_le_mono1 diff_le_mono2) simp
      with t(7) have "room h' (n + (4 - Suc j) * ?n)" by (rule room_mono)
      then have "?P (Suc j) (ps, k')" using False t j4 by (auto simp: kept_Suc Let_def)
      moreover have "mbr_entry mbr (word_of_nat j) t = Inr (ps, k')" using False by (simp add: t(1) body)
      ultimately show ?thesis by blast
    next
      case True
      have fit: "needed_blocks h' sizeof_mbr_partition \<le> n + (4 - j) * ?n"
        using j4 t(13) by (cases "4 - j") auto
      obtain p h2 where p: "kalloc sizeof_mbr_partition k' = Inr (p, k'\<lparr>root_heap := Some h2\<rparr>)"
        "grant h' sizeof_mbr_partition p h2" "room h2 (n + (4 - j) * ?n - needed_blocks h' sizeof_mbr_partition)"
        by (rule kalloc_room [OF t(5,6) size_ok_small t(7) fit]) (auto simp: sizeof_mbr_partition_def)
      obtain st where st: "p = block_addr h' st" "(st, st + ?n) \<notin> live h'" "live h2 = insert (st, st + ?n) (live h')"
        using grant_live [OF p(2)] t(13) by metis
      have "n + (4 - j) * ?n - ?n = n + (4 - Suc j) * ?n" using j4 by (cases "4 - j") (auto simp: Suc_diff_Suc)
      then have r2: "room h2 (n + (4 - Suc j) * ?n)" using p(3) t(13) by simp
      have new: "st \<notin> set ss" using st(2) t(10) by (auto simp: partition_runs_def)
      have runs: "partition_runs h (ss @ [st]) = insert (st, st + ?n) (partition_runs h ss)"
        by (auto simp: partition_runs_def)
      obtain k2 where k2: "mbr_entry mbr (word_of_nat j) t = Inr (ps @ [(p, ?e)], k2)" "mem k2 = mem k"
        "trace k2 = trace k" "root_heap k2 = Some h2"
        using True p(1) grantD(2) [OF p(2)] partition_at_decode [OF assms(5) j4, of mbr m] assms(4) t(3,4)
        by (simp add: t(1) body Let_def say_defs split: if_splits)
      have "?P (Suc j) (ps @ [(p, ?e)], k2)"
        using True t(1,2,5-13) j4 k2 r2 new st runs grantD(1) [OF p(2)] grant_addr [OF p(2)] grant_blocks [OF p(2)]
        by (auto simp: kept_Suc Let_def intro!: exI [of _ "ss @ [st]"])
      then show ?thesis using k2(1) by blast
    qed
  qed simp
  then show ?thesis by auto
qed

section \<open>The whole routine\<close>

context block_reader
begin

lemma MBR_partitions_ok:
  assumes "ready d k" and "root_heap k = Some h" and "heap_inv h" and "away h own"
    and "room h (needed_blocks h 512 + 4 * needed_blocks h sizeof_mbr_partition)"
    and "sector d 0 ! 510 = 0x55" and "sector d 0 ! 511 = 0xAA"
  shows "\<exists>ps k' h' ss. MBR_get_partitions rd d k = Inr (int (length ps), ps, k') \<and>
     map snd ps = kept_partitions (sector d 0) 4 \<and> map fst ps = map (block_addr h) ss \<and> distinct ss \<and>
     root_heap k' = Some h' \<and> heap_inv h' \<and> live h' = live h \<union> partition_runs h ss \<and>
     partition_runs h ss \<inter> live h = {} \<and> (\<forall>x. unat x \<in> heap_used h \<longrightarrow> mem k' x = mem k x)"
proof -
  let ?n = "needed_blocks h sizeof_mbr_partition" and ?s = "sector d 0"
  obtain p h1 where p: "kalloc 512 k = Inr (p, k\<lparr>root_heap := Some h1\<rparr>)" "grant h 512 p h1"
    "room h1 (4 * ?n)" by (rule kalloc_first [OF assms(2,3,5)]) auto
  obtain s0 where s0: "p = block_addr h s0" "(s0, s0 + needed_blocks h 512) \<notin> live h"
    "live h1 = insert (s0, s0 + needed_blocks h 512) (live h)" by (rule grant_live [OF p(2)])
  note g = grantD [OF p(2)] and nb = grant_blocks [OF p(2)] and ad = grant_addr [OF p(2)]
  from read_grant [OF ready_more(1) [OF assms(1)] assms(3,4) p(2), of 0 "Some h1"] obtain m tr where tr:
    "rd d 0 p (k\<lparr>root_heap := Some h1\<rparr>) = Inr (True, k\<lparr>root_heap := Some h1, mem := m, trace := tr\<rparr>)"
    "placed own p ?s (mem k) m" "calm (heap_free h \<union> own) (mem k) m" by auto
  define k2 where "k2 = k\<lparr>root_heap := Some h1, mem := m, trace := tr\<rparr>"
  note len = sector_512 [OF assms(1), of 0]
  have magic: "mem k2 (p + 510) = 0x55" "mem k2 (p + 511) = 0xAA"
    using placed_nth [OF tr(2), of 510] placed_nth [OF tr(2), of 511] len assms(6,7) by (simp_all add: k2_def)
  have "mem k2 = store p ?s m" using placed_self [OF tr(2)] g(7) len by (simp add: k2_def)
  then have k2: "root_heap k2 = Some h1" "mem k2 = store p ?s m" by (simp_all add: k2_def)
  have "room h1 (0 + 4 * needed_blocks h1 sizeof_mbr_partition)" using p(3) nb by simp
  from mbr_entries_ok [OF g(1) this k2 len] obtain ps k3 h3 ss where
    r: "for_u64_r 0 4 (mbr_entry p) ([], k2) = Inr (ps, k3)" "map snd ps = kept_partitions ?s 4"
    "mem k3 = mem k2" "trace k3 = trace k2" "root_heap k3 = Some h3" "heap_inv h3"
    "map fst ps = map (block_addr h1) ss" "distinct ss" "live h3 = live h1 \<union> partition_runs h1 ss"
    "partition_runs h1 ss \<inter> live h1 = {}" "block_addr h3 = block_addr h1" by blast
  have "(s0, s0 + needed_blocks h 512) \<in> live h3" using r(9) s0(3) by simp
  from free_run [OF r(6) this] obtain h4 where h4: "free h3 p = Inr h4" "heap_inv h4"
    "live h4 = live h3 - {(s0, s0 + needed_blocks h 512)}" using s0(1) r(11) ad by metis
  have runs: "partition_runs h1 ss = partition_runs h ss" by (simp add: partition_runs_def nb)
  have "live h4 = live h \<union> partition_runs h ss" "partition_runs h ss \<inter> live h = {}"
    using h4(3) r(9,10) s0(2,3) runs by auto
  moreover have "MBR_get_partitions rd d k = Inr (int (length ps), ps, k3\<lparr>root_heap := Some h4\<rparr>)"
    using p(1) tr(1) magic r(1) kfree_root [OF r(5) h4(1)] by (simp add: MBR_get_partitions_def k2_def [symmetric])
  moreover have "mem k3 x = mem k x" if "unat x \<in> heap_used h" for x
    using calm_used [OF assms(3,4) tr(3) that] by (simp add: r(3) k2_def)
  ultimately show ?thesis
    using r h4(2) ad
    by (intro exI [of _ ps] exI [of _ "k3\<lparr>root_heap := Some h4\<rparr>"] exI [of _ h4] exI [of _ ss]) simp
qed

lemma MBR_rejected_ok:
  assumes "ready d k" and "root_heap k = Some h" and "heap_inv h" and "away h own" and "room h (needed_blocks h 512)"
    and "sector d 0 ! 510 \<noteq> 0x55 \<or> sector d 0 ! 511 \<noteq> 0xAA"
  shows "\<exists>p m tr. MBR_get_partitions rd d k = Inr (- 1, [], k\<lparr>mem := m, trace := tr\<rparr>) \<and>
     placed own p (sector d 0) (mem k) m \<and> unat p + 512 < 2 ^ 64 \<and> extent p 512 \<inter> heap_used h = {}"
proof -
  let ?s = "sector d 0"
  have "room h (needed_blocks h 512 + 0)" using assms(5) by simp
  then obtain p h1 where p: "kalloc 512 k = Inr (p, k\<lparr>root_heap := Some h1\<rparr>)" "grant h 512 p h1"
    by (rule kalloc_first [OF assms(2,3)]) simp_all
  note g = grantD [OF p(2)]
  from read_grant [OF ready_more(1) [OF assms(1)] assms(3,4) p(2), of 0 "Some h1"] obtain m tr where tr:
    "rd d 0 p (k\<lparr>root_heap := Some h1\<rparr>) = Inr (True, k\<lparr>root_heap := Some h1, mem := m, trace := tr\<rparr>)"
    "placed own p ?s (mem k) m" by auto
  have "m (p + 510) = ?s ! 510" "m (p + 511) = ?s ! 511"
    using placed_nth [OF tr(2), of 510] placed_nth [OF tr(2), of 511] sector_512 [OF assms(1), of 0] by simp_all
  moreover have "kfree p (k\<lparr>root_heap := Some h1, mem := m, trace := tr\<rparr>) = Inr (k\<lparr>root_heap := Some h, mem := m, trace := tr\<rparr>)"
    using g(3) by (simp add: kfree_def)
  moreover have "k\<lparr>root_heap := Some h, mem := m, trace := tr\<rparr> = k\<lparr>mem := m, trace := tr\<rparr>" using assms(2) by (cases k) simp
  ultimately show ?thesis
    using p(1) tr assms(6) g(4,7)
    by (intro exI [of _ p] exI [of _ m] exI [of _ tr]) (auto simp: MBR_get_partitions_def)
qed

end

section \<open>Properties\<close>

text \<open>
  C18. On an ATA disk whose first sector ends in 0x55 0xAA, \<^verbatim>\<open>MBR_get_partitions\<close>
  returns, in order, exactly the entries of type 0 or 7 of the four entries at offset 446, with their
  little-endian fields decoded. Afterwards the sector buffer is free again, the live runs of the heap are
  the ones before and one more for each partition returned, no two of them the same, and every byte of
  memory that was in use is unchanged. The heap needs room for the sector and four structures.
\<close>

theorem MBR_get_partitions_table:
  assumes "ata_ready hw dm c d (trace k)" and "root_heap k = Some h" and "heap_inv h"
    and "room h (needed_blocks h 512 + 4 * needed_blocks h sizeof_mbr_partition)"
    and "disk_sector c d 0 ! 510 = 0x55" and "disk_sector c d 0 ! 511 = 0xAA"
  shows "\<exists>ps k' h' ss. MBR_get_partitions (read_disk hw sp) d k = Inr (int (length ps), ps, k') \<and>
     map snd ps = kept_partitions (disk_sector c d 0) 4 \<and> map fst ps = map (block_addr h) ss \<and> distinct ss \<and>
     root_heap k' = Some h' \<and> heap_inv h' \<and> live h' = live h \<union> partition_runs h ss \<and>
     partition_runs h ss \<inter> live h = {} \<and> (\<forall>x. unat x \<in> heap_used h \<longrightarrow> mem k' x = mem k x)"
  by (rule ata_disk.MBR_partitions_ok [OF assms(1-3) away_empty assms(4-6)])

text \<open>The demonstration disk has one partition: type 7, from sector 1 on, 256 sectors.\<close>

lemma sim_partitions:
  "kept_partitions (bytes (sim_bytes 0) 0 512) 4 = [\<lparr>boot = 0xEE, p_type = 7, lba_start = 1, p_sectors = 256\<rparr>]"
proof -
  have "store 0 (bytes f 0 512) f = f" for f
    by (rule ext) (simp add: store_def)
  then have e: "decode_partition (table_entry (bytes f 0 512) i) = partition_at f (0 + (0x1BE + word_of_nat i * 16))"
    if "i < 4" for f i
    using partition_at_decode [of "bytes f 0 512" i 0 f] that by simp
  have four: "[0..<4] = [0, 1, 2, 3 :: nat]" by (simp add: upt_rec)
  show ?thesis
    unfolding kept_partitions_def four
    by (simp add: e partition_at_def mbr_u32_def sim_bytes_def)
qed

theorem MBR_get_partitions_table_witness:
  "\<exists>p k'. MBR_get_partitions (read_disk (sim_hw sim_sectors) 0) sim_disk (sim_machine (\<lambda>_. 0)) =
     Inr (1, [(p, \<lparr>boot = 0xEE, p_type = 7, lba_start = 1, p_sectors = 256\<rparr>)], k')"
proof -
  let ?s = "disk_sector sim_sectors sim_disk 0"
  have s: "?s = bytes (sim_bytes 0) 0 512" by (simp add: sim_sector)
  have magic: "?s ! 510 = 0x55" "?s ! 511 = 0xAA" by (simp_all add: s sim_bytes_def)
  have room: "room sim_heap (needed_blocks sim_heap 512 + 4 * needed_blocks sim_heap sizeof_mbr_partition)"
    by (rule sim_room) (simp add: sim_blocks sizeof_mbr_partition_def)
  have ready: "ata_ready (sim_hw sim_sectors) (sim_drive sim_sectors) sim_sectors sim_disk (trace (sim_machine (\<lambda>_. 0)))"
    by (simp add: sim_ready)
  obtain ps k' where r: "MBR_get_partitions (read_disk (sim_hw sim_sectors) 0) sim_disk (sim_machine (\<lambda>_. 0)) =
      Inr (int (length ps), ps, k')" "map snd ps = kept_partitions ?s 4"
    using MBR_get_partitions_table [OF ready _ sim_heap_inv room magic, of 0] by auto
  from r(2) obtain p where "ps = [(p, \<lparr>boot = 0xEE, p_type = 7, lba_start = 1, p_sectors = 256\<rparr>)]"
    by (auto simp: s sim_partitions)
  with r(1) show ?thesis by simp
qed

text \<open>
  C21. A disk without the 0x55 0xAA mark is refused: \<^verbatim>\<open>MBR_get_partitions\<close> returns
  -1 and no partition, the heap is exactly what it was, and the only memory written is the buffer, which
  overlapped nothing in use.
\<close>

theorem MBR_get_partitions_rejects:
  assumes "ata_ready hw dm c d (trace k)" and "root_heap k = Some h" and "heap_inv h"
    and "room h (needed_blocks h 512)"
    and "disk_sector c d 0 ! 510 \<noteq> 0x55 \<or> disk_sector c d 0 ! 511 \<noteq> 0xAA"
  shows "\<exists>p tr. MBR_get_partitions (read_disk hw sp) d k =
       Inr (- 1, [], k\<lparr>mem := store p (disk_sector c d 0) (mem k), trace := tr\<rparr>) \<and>
     extent p 512 \<inter> heap_used h = {}"
proof -
  have len: "length (disk_sector c d 0) = 512" by (rule ata_disk.sector_512) (rule assms(1))
  obtain p m tr where "MBR_get_partitions (read_disk hw sp) d k = Inr (- 1, [], k\<lparr>mem := m, trace := tr\<rparr>)"
    "placed {} p (disk_sector c d 0) (mem k) m" "unat p + 512 < 2 ^ 64" "extent p 512 \<inter> heap_used h = {}"
    using ata_disk.MBR_rejected_ok [OF assms(1-3) away_empty assms(4,5), of sp] by blast
  moreover from this have "m = store p (disk_sector c d 0) (mem k)" by (intro placed_only) (simp_all add: len)
  ultimately show ?thesis by blast
qed

theorem MBR_get_partitions_rejects_witness:
  "\<exists>k'. MBR_get_partitions (read_disk (sim_hw (image_sectors (\<lambda>_ _. 7))) 0) sim_disk (sim_machine (\<lambda>_. 0)) = Inr (- 1, [], k') \<and>
     root_heap k' = Some sim_heap"
proof -
  let ?img = "image_sectors (\<lambda>_ _. 7)" and ?k = "sim_machine (\<lambda>_. 0)"
  have bad: "disk_sector ?img sim_disk 0 ! 510 \<noteq> 0x55 \<or> disk_sector ?img sim_disk 0 ! 511 \<noteq> 0xAA"
    by (simp add: sim_sector)
  have room: "room sim_heap (needed_blocks sim_heap 512)" by (rule sim_room) (simp add: sim_blocks)
  have ready: "ata_ready (sim_hw ?img) (sim_drive ?img) ?img sim_disk (trace ?k)" by (simp add: sim_ready)
  have heap: "root_heap ?k = Some sim_heap" by simp
  obtain p tr where "MBR_get_partitions (read_disk (sim_hw ?img) 0) sim_disk ?k =
      Inr (- 1, [], ?k\<lparr>mem := store p (disk_sector ?img sim_disk 0) (mem ?k), trace := tr\<rparr>)"
    using MBR_get_partitions_rejects [OF ready heap sim_heap_inv room bad, of 0] by blast
  then show ?thesis by (intro exI [of _ "?k\<lparr>mem := store p (disk_sector ?img sim_disk 0) (mem ?k), trace := tr\<rparr>"]) simp
qed

end
