(* ===== verification/Exfat.thy ===== *)
theory Exfat
  imports Mbr
begin

text \<open>
  The exFAT file system (\<^verbatim>\<open>drivers/fs/exfat/exfat.c\<close>). Sectors, the path and file names
  are in byte memory; the structures \<^verbatim>\<open>exfat_instance_t\<close> and
  \<^verbatim>\<open>exfat_file_entry_t\<close> are typed objects, and a pointer to a file entry comes with the
  entry. Reads of a directory buffer beyond its end see whatever memory holds there. The routines take
  the sector reader as an argument; the kernel's is \<open>read_disk\<close>.
\<close>

section \<open>Data\<close>

record exfat_instance =
  x_disk :: disk_device
  sector_on_disk_LBA :: u64
  partition_offset :: u64
  volume_length :: u64
  fat_offset :: u32
  fat_length :: u32
  cluster_heap_offset :: u32
  cluster_count :: u32
  root_cluster :: u32
  bytes_per_sector_shift :: u8
  sectors_per_cluster_shift :: u8
  number_of_fats :: u8

record exfat_file =
  f_path :: u64
  f_fs :: exfat_instance
  attributes :: u16
  first_cluster :: u32
  valid_data_length :: u64
  data_length :: u64
  name_length :: u8
  name_hash :: u16
  f_flags :: u8

definition sizeof_exfat_file :: u64 where "sizeof_exfat_file = 48"

section \<open>Little-endian reads\<close>

definition read_u16_le :: "memory \<Rightarrow> u64 \<Rightarrow> u64 \<Rightarrow> u16" where
  "read_u16_le m buff offset = ucast (m (buff + offset)) OR push_bit 8 (ucast (m (buff + (offset + 1))))"

definition read_u32_le :: "memory \<Rightarrow> u64 \<Rightarrow> u64 \<Rightarrow> u32" where
  "read_u32_le m buff offset =
     ucast (m (buff + offset)) OR push_bit 8 (ucast (m (buff + (offset + 1)))) OR
     push_bit 16 (ucast (m (buff + (offset + 2)))) OR push_bit 24 (ucast (m (buff + (offset + 3))))"

definition read_u64_le :: "memory \<Rightarrow> u64 \<Rightarrow> u64 \<Rightarrow> u64" where
  "read_u64_le m buff offset =
     ucast (m (buff + offset)) OR push_bit 8 (ucast (m (buff + (offset + 1)))) OR
     push_bit 16 (ucast (m (buff + (offset + 2)))) OR push_bit 24 (ucast (m (buff + (offset + 3)))) OR
     push_bit 32 (ucast (m (buff + (offset + 4)))) OR push_bit 40 (ucast (m (buff + (offset + 5)))) OR
     push_bit 48 (ucast (m (buff + (offset + 6)))) OR push_bit 56 (ucast (m (buff + (offset + 7))))"

section \<open>Shifts by a shift count from the disk\<close>

text \<open>\<^verbatim>\<open>1ULL << s\<close> and \<^verbatim>\<open>1 << s\<close>; the latter is of type
  \<^verbatim>\<open>int\<close>, like the product of two of them.\<close>

definition shl_u64 :: "u8 \<Rightarrow> u64 result" where
  "shl_u64 s = (if s < 64 then Inr (push_bit (unat s) 1) else Inl Undefined)"

definition shl_int :: "u8 \<Rightarrow> u32 result" where
  "shl_int s = (if s < 31 then Inr (push_bit (unat s) 1) else Inl Undefined)"

definition mul_int :: "u32 \<Rightarrow> u32 \<Rightarrow> u32 result" where
  "mul_int x y = (if unat x * unat y < 2 ^ 31 then Inr (x * y) else Inl Undefined)"

section \<open>Clusters\<close>

definition EXFAT_cluster_to_lba :: "exfat_instance \<Rightarrow> u32 \<Rightarrow> u64 result" where
  "EXFAT_cluster_to_lba fs cluster =
     andthen (shl_int (sectors_per_cluster_shift fs)) (\<lambda>sectors_per_cluster.
       Inr (sector_on_disk_LBA fs + ucast (cluster_heap_offset fs) + ucast (cluster - 2) * ucast sectors_per_cluster))"

definition EXFAT_get_fat_entry ::
  "'z reader \<Rightarrow> exfat_instance \<Rightarrow> u32 \<Rightarrow> 'z manager_scheme \<Rightarrow> (u32 \<times> 'z manager_scheme) result" where
  "EXFAT_get_fat_entry rd fs cluster k =
     andthen (shl_u64 (bytes_per_sector_shift fs)) (\<lambda>bytes_per_sector.
       let fat_byte_offset = ucast cluster * 4;
           fat_sector = fat_byte_offset div bytes_per_sector;
           offset = fat_byte_offset mod bytes_per_sector;
           lba = sector_on_disk_LBA fs + ucast (fat_offset fs) + fat_sector in
       andthen (kalloc bytes_per_sector k) (\<lambda>(buffer, k1).
       andthen (rd (x_disk fs) (ucast lba) buffer k1) (\<lambda>(ok, k2).
       if \<not> ok then andthen (kfree buffer k2) (\<lambda>k3. Inr (0, k3))
       else
         let next_cluster = read_u32_le (mem k2) buffer offset in
         andthen (kfree buffer k2) (\<lambda>k3. Inr (next_cluster, k3)))))"

text \<open>\<^verbatim>\<open>for (i = 0; i < n; i++) if (!read_disk(disk, lba + i, &buf[i * step])) ...\<close>:
  the result says whether every sector could be read.\<close>

function read_sectors ::
  "'z reader \<Rightarrow> disk_device \<Rightarrow> u64 \<Rightarrow> u64 \<Rightarrow> u64 \<Rightarrow> u64 \<Rightarrow> u64 \<Rightarrow> 'z manager_scheme \<Rightarrow> (bool \<times> 'z manager_scheme) result" where
  "read_sectors rd d lba buf step n i k =
     (if i < n then
        (case rd d (ucast (lba + i)) (buf + i * step) k of
           Inl f \<Rightarrow> Inl f
         | Inr (ok, k') \<Rightarrow> if ok then read_sectors rd d lba buf step n (i + 1) k' else Inr (False, k'))
      else Inr (True, k))"
  by pat_completeness auto
termination
  by (relation "measure (\<lambda>(_, _, _, _, _, n, i, _). unat n - unat i)") (auto simp: unat_step_less)

declare read_sectors.simps [simp del]

section \<open>Mounting\<close>

definition EXFAT_init ::
  "'z reader \<Rightarrow> disk_device \<Rightarrow> mbr_partition \<Rightarrow> 'z manager_scheme \<Rightarrow> (exfat_instance \<times> 'z manager_scheme) result" where
  "EXFAT_init rd d mbr k =
     andthen (kalloc 512 k) (\<lambda>(buff, k1).
     andthen (rd d (lba_start mbr) buff k1) (\<lambda>(_, k2).
     andthen (c_string (bytes (mem k2) (buff + 3) 8 @ [0])) (\<lambda>sig.
     andthen (c_string (d_name d)) (\<lambda>name.
       let k3 = say newline (say_bytes name (say ''EXFAT init for: '' (say newline (say_bytes sig k2))));
           m = mem k3;
           ret = \<lparr>x_disk = d, sector_on_disk_LBA = ucast (lba_start mbr),
                  partition_offset = read_u64_le m buff 0x40, volume_length = read_u64_le m buff 0x48,
                  fat_offset = read_u32_le m buff 0x50, fat_length = read_u32_le m buff 0x54,
                  cluster_heap_offset = read_u32_le m buff 0x58, cluster_count = read_u32_le m buff 0x5C,
                  root_cluster = read_u32_le m buff 0x60, bytes_per_sector_shift = m (buff + 0x6C),
                  sectors_per_cluster_shift = m (buff + 0x6D), number_of_fats = m (buff + 0x6E)\<rparr>;
           k4 = say_hexLN (root_cluster ret) (say ''EXFAT root cluster at: '' k3) in
       andthen (kfree buff k4) (\<lambda>k5. Inr (ret, k5))))))"

section \<open>Opening a file: names\<close>

text \<open>\<^verbatim>\<open>while (*p == '/') p++;\<close>\<close>

partial_function (option) skip_slashes :: "memory \<Rightarrow> u64 \<Rightarrow> u64 option" where
  "skip_slashes m p = (if m p = 0x2F then skip_slashes m (p + 1) else Some p)"

text \<open>The copy of a path component into \<^verbatim>\<open>component[256]\<close> and its NUL; \<open>acc\<close> holds the
  bytes copied so far.\<close>

function copy_component :: "memory \<Rightarrow> u64 \<Rightarrow> u8 list \<Rightarrow> u8 list result" where
  "copy_component m current acc =
     (if length acc < 256 then
        let c = m (current + word_of_nat (length acc)) in
        if c \<noteq> 0x2F \<and> c \<noteq> 0 then copy_component m current (acc @ [c]) else Inr acc
      else Inl OutOfBounds)"
  by pat_completeness auto
termination
  by (relation "measure (\<lambda>(_, _, acc). 256 - length acc)") auto

declare copy_component.simps [simp del]

text \<open>The fifteen characters of a name entry; the result is \<^verbatim>\<open>name_index\<close> and memory.\<close>

function name_chars :: "u64 \<Rightarrow> u64 \<Rightarrow> u8 \<Rightarrow> u64 \<Rightarrow> u64 \<Rightarrow> memory \<Rightarrow> u64 \<times> memory" where
  "name_chars secondary filename len j name_index m =
     (if j < 15 then
        if name_index \<ge> ucast len then (name_index, m)
        else name_chars secondary filename len (j + 1) (name_index + 1)
               (m(filename + name_index := ucast (read_u16_le m secondary (0x02 + j * 2))))
      else (name_index, m))"
  by pat_completeness auto
termination
  by (relation "measure (\<lambda>(_, _, _, j, _, _). unat (15 :: u64) - unat j)") (use unat_step_less [of _ 15] in auto)

declare name_chars.simps [simp del]

text \<open>One secondary entry; the state is \<^verbatim>\<open>name_index\<close>, \<^verbatim>\<open>*file\<close> and
  memory.\<close>

definition secondary_entry :: "u64 \<Rightarrow> u64 \<Rightarrow> u64 \<times> exfat_file \<times> memory \<Rightarrow> u64 \<times> exfat_file \<times> memory" where
  "secondary_entry secondary filename = (\<lambda>(name_index, file, m).
     let file' = (if m secondary = 0xC0 then
                    file\<lparr>name_length := m (secondary + 0x03), name_hash := read_u16_le m secondary 0x04,
                         f_flags := m (secondary + 0x01), valid_data_length := read_u64_le m secondary 0x08,
                         first_cluster := read_u32_le m secondary 0x14, data_length := read_u64_le m secondary 0x18\<rparr>
                  else file) in
     if m secondary = 0xC1 then
       let (name_index', m') = name_chars secondary filename (name_length file') 0 name_index m in
       (name_index', file', m')
     else (name_index, file', m))"

definition read_secondaries ::
  "u64 \<Rightarrow> u64 \<Rightarrow> u8 \<Rightarrow> u64 \<Rightarrow> exfat_file \<Rightarrow> memory \<Rightarrow> u64 \<times> exfat_file \<times> memory" where
  "read_secondaries buffer i secondary_count filename file m =
     for_u64 0 (ucast secondary_count) (\<lambda>f. secondary_entry (buffer + (i + 1 + f) * 32) filename) (0, file, m)"

section \<open>Opening a file: directories\<close>

text \<open>What is at an address that \<^verbatim>\<open>kalloc\<close> returns is not initialised: \<open>raw p\<close> is what
  memory holds there, read as a file entry.\<close>

text \<open>The directory entry with index \<open>i\<close>, of type 0x85: \<open>Some\<close> when its name is the
  component.\<close>

definition try_entry ::
  "(u64 \<Rightarrow> exfat_file) \<Rightarrow> exfat_instance \<Rightarrow> u64 \<Rightarrow> u8 list \<Rightarrow> u64 \<Rightarrow> 'z manager_scheme \<Rightarrow>
     ((u64 \<times> exfat_file) option \<times> 'z manager_scheme) result" where
  "try_entry raw fs buffer component i k =
     (let entry = buffer + i * 32 in
      andthen (kalloc sizeof_exfat_file k) (\<lambda>(file, k1).
      if file = 0 then Inl NullDeref
      else
        let f0 = (raw file)\<lparr>f_fs := fs, attributes := read_u16_le (mem k1) entry 0x04, name_length := 0,
                            first_cluster := 0, data_length := 0\<rparr>;
            secondary_count = mem k1 (entry + 0x01) in
        andthen (kalloc 256 k1) (\<lambda>(filename, k2).
          let (name_index, f1, m) = read_secondaries buffer i secondary_count filename f0 (mem k2);
              k3 = upd_mem (\<lambda>_. m(filename + name_index := 0)) k2 in
          (case strcmp (at (mem k3) filename) (array_of component) of
             None \<Rightarrow> Inl Diverges
           | Some r \<Rightarrow>
               if r = 0 then Inr (Some (file, f1\<lparr>f_path := filename\<rparr>), k3)
               else andthen (kfree filename k3) (\<lambda>k4. andthen (kfree file k4) (\<lambda>k5. Inr (None, k5)))))))"

text \<open>How the scan of a cluster ends: at an entry of type 0x00, at the file, or at the end of the
  buffer.\<close>

datatype dir_scan = Dir_end | Dir_found u64 exfat_file | Dir_more

function scan_entries ::
  "(u64 \<Rightarrow> exfat_file) \<Rightarrow> exfat_instance \<Rightarrow> u64 \<Rightarrow> u8 list \<Rightarrow> u64 \<Rightarrow> u64 \<Rightarrow> 'z manager_scheme \<Rightarrow>
     (dir_scan \<times> 'z manager_scheme) result" where
  "scan_entries raw fs buffer component n i k =
     (if i < n then
        let kind = mem k (buffer + i * 32) in
        if kind = 0x00 then Inr (Dir_end, k)
        else if kind \<noteq> 0x85 then scan_entries raw fs buffer component n (i + 1) k
        else
          (case try_entry raw fs buffer component i k of
             Inl f \<Rightarrow> Inl f
           | Inr (None, k') \<Rightarrow> scan_entries raw fs buffer component n (i + 1) k'
           | Inr (Some (p, file), k') \<Rightarrow> Inr (Dir_found p file, k'))
      else Inr (Dir_more, k))"
  by pat_completeness auto
termination
  by (relation "measure (\<lambda>(_, _, _, _, n, i, _). unat n - unat i)") (auto simp: unat_step_less)

declare scan_entries.simps [simp del]

text \<open>\<^verbatim>\<open>while (1)\<close> over the clusters of a directory, in a buffer for one cluster.
  \<open>None\<close> as the end says that a sector could not be read.\<close>

partial_function (option) search_directory ::
  "'z reader \<Rightarrow> (u64 \<Rightarrow> exfat_file) \<Rightarrow> exfat_instance \<Rightarrow> u64 \<Rightarrow> u8 list \<Rightarrow> u64 \<Rightarrow> u64 \<Rightarrow> u32 \<Rightarrow> 'z manager_scheme \<Rightarrow>
     (dir_scan option \<times> 'z manager_scheme) result option" where
  "search_directory rd raw fs buffer component bytes_per_sector sectors_per_cluster cluster k =
     (case EXFAT_cluster_to_lba fs cluster of
        Inl f \<Rightarrow> Some (Inl f)
      | Inr lba \<Rightarrow>
     (case read_sectors rd (x_disk fs) lba buffer bytes_per_sector sectors_per_cluster 0 k of
        Inl f \<Rightarrow> Some (Inl f)
      | Inr (ok, k1) \<Rightarrow>
     if \<not> ok then Some (Inr (None, k1))
     else
     (case scan_entries raw fs buffer component (bytes_per_sector * sectors_per_cluster div 32) 0 k1 of
        Inl f \<Rightarrow> Some (Inl f)
      | Inr (r, k2) \<Rightarrow>
     if r \<noteq> Dir_more then Some (Inr (Some r, k2))
     else
     (case EXFAT_get_fat_entry rd fs cluster k2 of
        Inl f \<Rightarrow> Some (Inl f)
      | Inr (next_cluster, k3) \<Rightarrow>
          if next_cluster \<ge> 0xFFFFFFF8 then Some (Inr (Some Dir_end, k3))
          else search_directory rd raw fs buffer component bytes_per_sector sectors_per_cluster next_cluster k3))))"

section \<open>Opening a file: paths\<close>

text \<open>One pass of the loop over the components of the path: the routine returns, or goes on at another
  place of the path in another directory.\<close>

datatype path_step = Return "(u64 \<times> exfat_file) option" | Descend u64 u32

definition open_component ::
  "'z reader \<Rightarrow> (u64 \<Rightarrow> exfat_file) \<Rightarrow> exfat_instance \<Rightarrow> u64 \<Rightarrow> u32 \<Rightarrow> 'z manager_scheme \<Rightarrow>
     (path_step \<times> 'z manager_scheme) result" where
  "open_component rd raw fs current directory_cluster k =
     andthen (copy_component (mem k) current []) (\<lambda>component.
     case skip_slashes (mem k) (current + word_of_nat (length component)) of
       None \<Rightarrow> Inl Diverges
     | Some next_path \<Rightarrow>
     andthen (shl_u64 (bytes_per_sector_shift fs)) (\<lambda>bytes_per_sector.
     andthen (shl_u64 (sectors_per_cluster_shift fs)) (\<lambda>sectors_per_cluster.
     andthen (kalloc (bytes_per_sector * sectors_per_cluster) k) (\<lambda>(buffer, k1).
     case search_directory rd raw fs buffer component bytes_per_sector sectors_per_cluster directory_cluster k1 of
       None \<Rightarrow> Inl Diverges
     | Some r \<Rightarrow>
     andthen r (\<lambda>(found, k2).
     andthen (kfree buffer k2) (\<lambda>k3.
       case found of
         Some (Dir_found p file) \<Rightarrow>
           if mem k3 next_path = 0 then Inr (Return (Some (p, file)), k3)
           else
             andthen (kfree (f_path file) k3) (\<lambda>k4.
             andthen (kfree p k4) (\<lambda>k5.
               Inr (if attributes file AND 0x0010 = 0 then Return None
                    else Descend next_path (first_cluster file), k5)))
       | _ \<Rightarrow> Inr (Return None, k3)))))))"

partial_function (option) open_path ::
  "'z reader \<Rightarrow> (u64 \<Rightarrow> exfat_file) \<Rightarrow> exfat_instance \<Rightarrow> u64 \<Rightarrow> u32 \<Rightarrow> 'z manager_scheme \<Rightarrow>
     ((u64 \<times> exfat_file) option \<times> 'z manager_scheme) result option" where
  "open_path rd raw fs current directory_cluster k =
     (if mem k current = 0 then Some (Inr (None, k))
      else
        (case open_component rd raw fs current directory_cluster k of
           Inl f \<Rightarrow> Some (Inl f)
         | Inr (step, k') \<Rightarrow>
             (case step of
                Return r \<Rightarrow> Some (Inr (r, k'))
              | Descend next_path cluster \<Rightarrow> open_path rd raw fs next_path cluster k')))"

definition EXFAT_open_file ::
  "'z reader \<Rightarrow> (u64 \<Rightarrow> exfat_file) \<Rightarrow> exfat_instance \<Rightarrow> u64 \<Rightarrow> 'z manager_scheme \<Rightarrow>
     ((u64 \<times> exfat_file) option \<times> 'z manager_scheme) result" where
  "EXFAT_open_file rd raw fs path k =
     (case skip_slashes (mem k) path of
        None \<Rightarrow> Inl Diverges
      | Some current \<Rightarrow>
          (case open_path rd raw fs current (root_cluster fs) k of
             None \<Rightarrow> Inl Diverges
           | Some r \<Rightarrow> r))"

section \<open>Reading a file\<close>

text \<open>\<^verbatim>\<open>for (i = 0; i < n; i++) data[bytes_read + i] = cluster_buffer[i];\<close>\<close>

definition copy_out :: "u64 \<Rightarrow> u64 \<Rightarrow> u64 \<Rightarrow> u64 \<Rightarrow> memory \<Rightarrow> memory" where
  "copy_out data bytes_read cluster_buffer n =
     for_u64 0 n (\<lambda>i m. m(data + (bytes_read + i) := m (cluster_buffer + i)))"

text \<open>The loop of \<^verbatim>\<open>EXFAT_read_file_ALL\<close>: \<open>Some\<close> of \<^verbatim>\<open>bytes_read\<close>
  when it ends, \<open>None\<close> when a sector cannot be read or the chain ends early.\<close>

partial_function (option) read_all_loop ::
  "'z reader \<Rightarrow> exfat_file \<Rightarrow> u64 \<Rightarrow> u64 \<Rightarrow> u64 \<Rightarrow> u64 \<Rightarrow> u64 \<Rightarrow> u32 \<Rightarrow> 'z manager_scheme \<Rightarrow>
     (u64 option \<times> 'z manager_scheme) result option" where
  "read_all_loop rd file data cluster_buffer bytes_per_sector sectors_per_cluster bytes_read cluster k =
     (if bytes_read < data_length file then
        (case EXFAT_cluster_to_lba (f_fs file) cluster of
           Inl f \<Rightarrow> Some (Inl f)
         | Inr lba \<Rightarrow>
        (case read_sectors rd (x_disk (f_fs file)) lba cluster_buffer bytes_per_sector sectors_per_cluster 0 k of
           Inl f \<Rightarrow> Some (Inl f)
         | Inr (ok, k1) \<Rightarrow>
        if \<not> ok then Some (Inr (None, k1))
        else
          let cluster_size = bytes_per_sector * sectors_per_cluster;
              remaining = data_length file - bytes_read;
              copy_size = (if remaining < cluster_size then remaining else cluster_size);
              k2 = upd_mem (copy_out data bytes_read cluster_buffer copy_size) k1;
              bytes_read' = bytes_read + copy_size in
          if bytes_read' \<ge> data_length file then Some (Inr (Some bytes_read', k2))
          else if f_flags file AND 0x02 \<noteq> 0 then
            read_all_loop rd file data cluster_buffer bytes_per_sector sectors_per_cluster bytes_read' (cluster + 1) k2
          else
            (case EXFAT_get_fat_entry rd (f_fs file) cluster k2 of
               Inl f \<Rightarrow> Some (Inl f)
             | Inr (cluster', k3) \<Rightarrow>
                 if cluster' \<ge> 0xFFFFFFF8 then Some (Inr (None, k3))
                 else read_all_loop rd file data cluster_buffer bytes_per_sector sectors_per_cluster bytes_read' cluster' k3)))
      else Some (Inr (Some bytes_read, k)))"

text \<open>The result is the buffer and \<^verbatim>\<open>*size\<close>; a failure returns NULL and leaves
  \<^verbatim>\<open>*size\<close> alone.\<close>

definition EXFAT_read_file_ALL ::
  "'z reader \<Rightarrow> exfat_file \<Rightarrow> 'z manager_scheme \<Rightarrow> ((u64 \<times> u64) option \<times> 'z manager_scheme) result" where
  "EXFAT_read_file_ALL rd file k =
     andthen (shl_u64 (bytes_per_sector_shift (f_fs file))) (\<lambda>bytes_per_sector.
     andthen (shl_u64 (sectors_per_cluster_shift (f_fs file))) (\<lambda>sectors_per_cluster.
     andthen (kalloc (data_length file) k) (\<lambda>(data, k1).
     andthen (kalloc (bytes_per_sector * sectors_per_cluster) k1) (\<lambda>(cluster_buffer, k2).
     case read_all_loop rd file data cluster_buffer bytes_per_sector sectors_per_cluster 0 (first_cluster file) k2 of
       None \<Rightarrow> Inl Diverges
     | Some r \<Rightarrow>
     andthen r (\<lambda>(got, k3).
     andthen (kfree cluster_buffer k3) (\<lambda>k4.
       case got of
         None \<Rightarrow> andthen (kfree data k4) (\<lambda>k5. Inr (None, k5))
       | Some bytes_read \<Rightarrow> Inr (Some (data, bytes_read), k4)))))))"

text \<open>\<^verbatim>\<open>EXFAT_read_file\<close> ignores what \<^verbatim>\<open>read_disk\<close> returns and does not
  look for the end of the chain.\<close>

definition read_sectors_unchecked ::
  "'z reader \<Rightarrow> disk_device \<Rightarrow> u64 \<Rightarrow> u64 \<Rightarrow> u64 \<Rightarrow> u64 \<Rightarrow> 'z manager_scheme \<Rightarrow> 'z manager_scheme result" where
  "read_sectors_unchecked rd d lba buf step n =
     for_u64_r 0 n (\<lambda>i k. andthen (rd d (ucast (lba + i)) (buf + i * step) k) (\<lambda>(_, k'). Inr k'))"

partial_function (option) read_file_loop ::
  "'z reader \<Rightarrow> exfat_file \<Rightarrow> u64 \<Rightarrow> u64 \<Rightarrow> u64 \<Rightarrow> u64 \<Rightarrow> u64 \<Rightarrow> u32 \<Rightarrow> 'z manager_scheme \<Rightarrow> 'z manager_scheme result option" where
  "read_file_loop rd file data cluster_buffer bytes_per_sector sectors_per_cluster bytes_read cluster k =
     (if bytes_read < data_length file then
        (case EXFAT_cluster_to_lba (f_fs file) cluster of
           Inl f \<Rightarrow> Some (Inl f)
         | Inr lba \<Rightarrow>
        (case read_sectors_unchecked rd (x_disk (f_fs file)) lba cluster_buffer bytes_per_sector sectors_per_cluster k of
           Inl f \<Rightarrow> Some (Inl f)
         | Inr k1 \<Rightarrow>
          let cluster_size = bytes_per_sector * sectors_per_cluster;
              rest = data_length file - bytes_read;
              bytes_to_copy = (if rest > cluster_size then cluster_size else rest);
              k2 = upd_mem (copy_out data bytes_read cluster_buffer bytes_to_copy) k1;
              bytes_read' = bytes_read + bytes_to_copy in
          if bytes_read' \<ge> data_length file then Some (Inr k2)
          else if f_flags file AND 0x02 \<noteq> 0 then
            read_file_loop rd file data cluster_buffer bytes_per_sector sectors_per_cluster bytes_read' (cluster + 1) k2
          else
            (case EXFAT_get_fat_entry rd (f_fs file) cluster k2 of
               Inl f \<Rightarrow> Some (Inl f)
             | Inr (cluster', k3) \<Rightarrow>
                 read_file_loop rd file data cluster_buffer bytes_per_sector sectors_per_cluster bytes_read' cluster' k3)))
      else Some (Inr k))"

definition EXFAT_read_file ::
  "'z reader \<Rightarrow> exfat_file \<Rightarrow> 'z manager_scheme \<Rightarrow> (u64 \<times> u64 \<times> 'z manager_scheme) result" where
  "EXFAT_read_file rd file k =
     andthen (kalloc (data_length file) k) (\<lambda>(data, k1).
     andthen (shl_int (bytes_per_sector_shift (f_fs file))) (\<lambda>bps.
     andthen (shl_int (sectors_per_cluster_shift (f_fs file))) (\<lambda>spc.
     andthen (mul_int bps spc) (\<lambda>cluster_bytes.
     andthen (kalloc (ucast cluster_bytes) k1) (\<lambda>(cluster_buffer, k2).
     case read_file_loop rd file data cluster_buffer (ucast bps) (ucast spc) 0 (first_cluster file) k2 of
       None \<Rightarrow> Inl Diverges
     | Some r \<Rightarrow> andthen r (\<lambda>k3. andthen (kfree cluster_buffer k3) (\<lambda>k4. Inr (data, data_length file, k4))))))))"

end
