(* ===== verification/Exfat_Read.thy ===== *)
theory Exfat_Read
  imports Mbr_Props Exfat
begin

text \<open>
  Reading files: the sectors of a cluster, the entries of the allocation table, and the routine
  \<^verbatim>\<open>EXFAT_read_file_ALL\<close> against a description of a file as the concatenation of its
  clusters. The sectors are 512 bytes, which is what the disk drivers transfer.
\<close>

section \<open>Fields\<close>

lemma bytes_4: "bytes m a 4 = [m a, m (a + 1), m (a + 2), m (a + 3)]"
  by (simp add: bytes_def upt_rec)

lemma read_u32_le_value: "read_u32_le m buff off = word_of_nat (le_value (bytes m (buff + off) 4))"
  unfolding bytes_4 le_u32 [symmetric] by (simp add: read_u32_le_def add.assoc)

lemma read_u16_le_value: "read_u16_le m buff off = word_of_nat (le_value (bytes m (buff + off) 2))"
  by (simp add: read_u16_le_def bytes_def upt_rec le_u16 [symmetric] add.assoc del: le_value_simps)

lemma read_u64_le_value: "read_u64_le m buff off = word_of_nat (le_value (bytes m (buff + off) 8))"
  by (simp add: read_u64_le_def bytes_def upt_rec le_u64 [symmetric] add.assoc del: le_value_simps)

section \<open>The abstract file system\<close>

text \<open>The bytes of \<open>n\<close> sectors from \<open>lba\<close> on, where \<open>sec\<close> gives the bytes of a sector.\<close>

definition run_bytes :: "(u32 \<Rightarrow> u8 list) \<Rightarrow> u64 \<Rightarrow> nat \<Rightarrow> u8 list" where
  "run_bytes sec lba n = concat (map (\<lambda>j. sec (ucast (lba + word_of_nat j))) [0..<n])"

definition cluster_sectors :: "exfat_instance \<Rightarrow> nat" where
  "cluster_sectors fs = 2 ^ unat (sectors_per_cluster_shift fs)"

definition cluster_lba :: "exfat_instance \<Rightarrow> u32 \<Rightarrow> u64" where
  "cluster_lba fs c =
     sector_on_disk_LBA fs + ucast (cluster_heap_offset fs) + ucast (c - 2) * word_of_nat (cluster_sectors fs)"

definition cluster_bytes :: "(u32 \<Rightarrow> u8 list) \<Rightarrow> exfat_instance \<Rightarrow> u32 \<Rightarrow> u8 list" where
  "cluster_bytes sec fs c = run_bytes sec (cluster_lba fs c) (cluster_sectors fs)"

text \<open>The sector of the allocation table with the entry of a cluster, and the entry.\<close>

definition fat_lba :: "exfat_instance \<Rightarrow> u32 \<Rightarrow> u64" where
  "fat_lba fs c = sector_on_disk_LBA fs + ucast (fat_offset fs) + word_of_nat (4 * unat c div 512)"

definition fat_value :: "(u32 \<Rightarrow> u8 list) \<Rightarrow> exfat_instance \<Rightarrow> u32 \<Rightarrow> u32" where
  "fat_value sec fs c = word_of_nat (le_value (take 4 (drop (4 * unat c mod 512) (sec (ucast (fat_lba fs c))))))"

text \<open>The clusters of a file: consecutive ones when the flag says so, a chain of the table
  otherwise.\<close>

primrec file_cluster :: "(u32 \<Rightarrow> u8 list) \<Rightarrow> exfat_file \<Rightarrow> nat \<Rightarrow> u32" where
  "file_cluster sec file 0 = first_cluster file"
| "file_cluster sec file (Suc i) =
     (if f_flags file AND 0x02 \<noteq> 0 then file_cluster sec file i + 1
      else fat_value sec (f_fs file) (file_cluster sec file i))"

definition file_bytes :: "(u32 \<Rightarrow> u8 list) \<Rightarrow> exfat_file \<Rightarrow> nat \<Rightarrow> u8 list" where
  "file_bytes sec file n = concat (map (\<lambda>i. cluster_bytes sec (f_fs file) (file_cluster sec file i)) [0..<n])"

text \<open>The number of bytes of a cluster, and the geometry the lemmas are about.\<close>

definition cluster_size :: "exfat_instance \<Rightarrow> nat" where
  "cluster_size fs = 512 * cluster_sectors fs"

definition geometry_ok :: "exfat_instance \<Rightarrow> bool" where
  "geometry_ok fs \<longleftrightarrow> bytes_per_sector_shift fs = 9 \<and> sectors_per_cluster_shift fs < 31"

lemma run_bytes_Suc: "run_bytes sec lba (Suc n) = run_bytes sec lba n @ sec (ucast (lba + word_of_nat n))"
  by (simp add: run_bytes_def)

lemma file_bytes_Suc:
  "file_bytes sec file (Suc n) = file_bytes sec file n @ cluster_bytes sec (f_fs file) (file_cluster sec file n)"
  by (simp add: file_bytes_def)

lemma length_run_bytes: "(\<And>l. length (sec l) = 512) \<Longrightarrow> length (run_bytes sec lba n) = 512 * n"
  by (induction n) (simp_all add: run_bytes_Suc, simp add: run_bytes_def)

lemma length_cluster_bytes: "(\<And>l. length (sec l) = 512) \<Longrightarrow> length (cluster_bytes sec fs c) = cluster_size fs"
  by (simp add: cluster_bytes_def length_run_bytes cluster_size_def)

lemma length_file_bytes: "(\<And>l. length (sec l) = 512) \<Longrightarrow> length (file_bytes sec file n) = n * cluster_size (f_fs file)"
  by (induction n) (simp_all add: file_bytes_Suc length_cluster_bytes, simp add: file_bytes_def)

section \<open>Shift counts\<close>

lemma geometry_shifts:
  assumes "geometry_ok fs"
  shows "shl_u64 (bytes_per_sector_shift fs) = Inr 512"
    and "shl_u64 (sectors_per_cluster_shift fs) = Inr (word_of_nat (cluster_sectors fs))"
    and "EXFAT_cluster_to_lba fs c = Inr (cluster_lba fs c)"
    and "0 < cluster_sectors fs" and "cluster_sectors fs \<le> 2 ^ 30"
proof -
  have s: "unat (sectors_per_cluster_shift fs) < 31" "sectors_per_cluster_shift fs < 64"
    using assms by (simp_all add: geometry_ok_def word_less_nat_alt)
  have p: "push_bit (unat (sectors_per_cluster_shift fs)) 1 = (word_of_nat (cluster_sectors fs) :: u64)"
    "push_bit (unat (sectors_per_cluster_shift fs)) 1 = (word_of_nat (cluster_sectors fs) :: u32)"
    by (simp_all add: cluster_sectors_def push_bit_eq_mult)
  show "shl_u64 (bytes_per_sector_shift fs) = Inr 512"
    using assms by (simp add: geometry_ok_def shl_u64_def push_bit_eq_mult)
  show "shl_u64 (sectors_per_cluster_shift fs) = Inr (word_of_nat (cluster_sectors fs))"
    using s p(1) by (simp add: shl_u64_def)
  show "0 < cluster_sectors fs" by (simp add: cluster_sectors_def)
  show le: "cluster_sectors fs \<le> 2 ^ 30"
    unfolding cluster_sectors_def using s(1) by (intro power_increasing) simp_all
  have "ucast (word_of_nat (cluster_sectors fs) :: u32) = (word_of_nat (cluster_sectors fs) :: u64)"
    using le by (intro unat_inject) (simp add: unat_of_nat unsigned_ucast_eq take_bit_nat_eq_self)
  then show "EXFAT_cluster_to_lba fs c = Inr (cluster_lba fs c)"
    using assms p(2) by (simp add: EXFAT_cluster_to_lba_def shl_int_def geometry_ok_def cluster_lba_def)
qed

lemma cluster_size_nat:
  assumes "geometry_ok fs"
  shows "unat (512 * word_of_nat (cluster_sectors fs) :: u64) = cluster_size fs"
    and "0 < cluster_size fs" and "cluster_size fs \<le> 2 ^ 39"
proof -
  note s = geometry_shifts(4,5) [OF assms]
  have "unat (word_of_nat (cluster_sectors fs) :: u64) = cluster_sectors fs"
    using s(2) by (intro unat_of_nat_u64) simp
  then show "unat (512 * word_of_nat (cluster_sectors fs) :: u64) = cluster_size fs"
    using s(2) by (subst unat_mult_u64) (simp_all add: cluster_size_def)
  show "0 < cluster_size fs" "cluster_size fs \<le> 2 ^ 39" using s by (simp_all add: cluster_size_def)
qed

section \<open>Copying out of the cluster buffer\<close>

lemma copy_out_store:
  assumes "extent src n \<inter> extent (data + done_bytes) n = {}"
    and "unat src + unat n < 2 ^ 64" and "unat (data + done_bytes) + unat n < 2 ^ 64"
  shows "copy_out data done_bytes src n m = store (data + done_bytes) (bytes m src (unat n)) m"
proof -
  let ?d = "data + done_bytes"
  have apart: "src + word_of_nat j \<noteq> ?d + word_of_nat i" if "i < unat n" "j < unat n" for i j
  proof
    assume "src + word_of_nat j = ?d + word_of_nat i"
    then have "unat src + j = unat ?d + i"
      using extent_bytes [OF assms(2) that(2)] extent_bytes [OF assms(3) that(1)] by metis
    moreover have "unat src + j \<in> extent src n" "unat ?d + i \<in> extent ?d n" using that by (simp_all add: extent_def)
    ultimately show False using assms(1) by auto
  qed
  have "copy_out data done_bytes src n = memcpy src ?d n"
    by (rule ext) (simp add: copy_out_def memcpy_def add.assoc)
  then have eq: "copy_out data done_bytes src n m =
      (\<lambda>a. if \<exists>i<unat n. a = ?d + word_of_nat i then m (src + (a - ?d)) else m a)"
    using memcpy_loop [of n src ?d m] apart by simp
  have in_iff: "(\<exists>i<unat n. a = ?d + word_of_nat i) \<longleftrightarrow> unat (a - ?d) < unat n" for a
  proof
    assume "\<exists>i<unat n. a = ?d + word_of_nat i"
    then obtain i where i: "i < unat n" "a = ?d + word_of_nat i" by blast
    have "i < 2 ^ 64" using i(1) unat_u64_less [of n] by simp
    then show "unat (a - ?d) < unat n" using i by (simp add: unat_of_nat_u64)
  next
    assume "unat (a - ?d) < unat n"
    then show "\<exists>i<unat n. a = ?d + word_of_nat i" by (intro exI [of _ "unat (a - ?d)"]) simp
  qed
  show ?thesis
    unfolding eq store_def in_iff by (rule ext) simp
qed

section \<open>The two buffers of a read\<close>

text \<open>The file's buffer \<open>data\<close> and the cluster buffer \<open>buf\<close> have been granted, in this order, and
  there is room for a sector of the allocation table. The heap is away from \<open>S\<close>, the memory that the driver of the disk owns.\<close>

definition reading :: "nat set \<Rightarrow> exfat_file \<Rightarrow> heap \<Rightarrow> u64 \<Rightarrow> heap \<Rightarrow> u64 \<Rightarrow> heap \<Rightarrow> bool" where
  "reading S file h data h1 buf h2 \<longleftrightarrow>
     geometry_ok (f_fs file) \<and> heap_inv h \<and> away h S \<and> grant h (data_length file) data h1 \<and>
     grant h1 (512 * word_of_nat (cluster_sectors (f_fs file))) buf h2 \<and> room h2 (needed_blocks h2 512)"

lemma extent_nat: "extent p sz = {unat p..<unat p + unat sz}"
  by (simp add: extent_def)

lemma reading_facts:
  assumes "reading S file h data h1 buf h2"
  shows "geometry_ok (f_fs file)" "unat data + unat (data_length file) < 2 ^ 64"
    and "unat buf + cluster_size (f_fs file) < 2 ^ 64" "buf \<noteq> 0"
    and "{unat data..<unat data + unat (data_length file)} \<inter> ({unat buf..<unat buf + cluster_size (f_fs file)} \<union> S) = {}"
    and "{unat data..<unat data + unat (data_length file)} \<subseteq> heap_free h"
    and "{unat buf..<unat buf + cluster_size (f_fs file)} \<subseteq> heap_free h"
    and "{unat buf..<unat buf + cluster_size (f_fs file)} \<inter> S = {}"
    and "{unat data..<unat data + unat (data_length file)} \<subseteq> heap_used h2" and "heap_free h2 \<subseteq> heap_free h"
    and "heap_inv h2" and "room h2 (needed_blocks h2 512)" and "away h2 S"
proof -
  let ?c = "512 * word_of_nat (cluster_sectors (f_fs file)) :: u64"
  have r: "geometry_ok (f_fs file)" "heap_inv h" "away h S" "grant h (data_length file) data h1" "grant h1 ?c buf h2"
    "room h2 (needed_blocks h2 512)" using assms by (simp_all add: reading_def)
  note size = cluster_size_nat(1) [OF r(1)]
  note g1 = grantD [OF r(4), unfolded extent_nat] and g2 = grantD [OF r(5), unfolded extent_nat size]
  note a1 = away_grant [OF r(2-4), unfolded extent_nat] and a2 = away_grant [OF g1(1) away_grant(1) [OF r(2-4)] r(5), unfolded extent_nat size]
  note f1 = grant_in_free [OF r(2,4), unfolded extent_nat] and f2 = grant_in_free [OF g1(1) r(5), unfolded extent_nat size]
  show "geometry_ok (f_fs file)" "unat data + unat (data_length file) < 2 ^ 64"
    "unat buf + cluster_size (f_fs file) < 2 ^ 64" "buf \<noteq> 0" "heap_inv h2" "room h2 (needed_blocks h2 512)" "away h2 S"
    using r g1 g2 a2 by simp_all
  show "{unat data..<unat data + unat (data_length file)} \<inter> ({unat buf..<unat buf + cluster_size (f_fs file)} \<union> S) = {}"
    using g1(6) g2(4) a1(2) by blast
  show "{unat data..<unat data + unat (data_length file)} \<subseteq> heap_free h" by (rule f1(1))
  show "{unat buf..<unat buf + cluster_size (f_fs file)} \<subseteq> heap_free h" using f1(2) f2(1) by blast
  show "{unat buf..<unat buf + cluster_size (f_fs file)} \<inter> S = {}" by (rule a2(2))
  show "{unat data..<unat data + unat (data_length file)} \<subseteq> heap_used h2" using g1(6) g2(5) by blast
  show "heap_free h2 \<subseteq> heap_free h" using f1(2) f2(2) by blast
qed

text \<open>Appending to a run of bytes.\<close>

lemma bytes_append_store:
  assumes "unat a + (n + length ys) < 2 ^ 64"
  shows "bytes (store (a + word_of_nat n) ys m) a (n + length ys) = bytes m a n @ ys"
proof (rule nth_equalityI)
  fix j assume "j < length (bytes (store (a + word_of_nat n) ys m) a (n + length ys))"
  then have j: "j < n + length ys" by simp
  have at: "unat (a + word_of_nat j) = unat a + j" using assms j by (rule extent_bytes)
  show "bytes (store (a + word_of_nat n) ys m) a (n + length ys) ! j = (bytes m a n @ ys) ! j"
  proof (cases "j < n")
    case True
    have "unat (a + word_of_nat n) = unat a + n" if "ys \<noteq> []"
      using that by (intro extent_bytes [OF assms]) simp
    then have "store (a + word_of_nat n) ys m (a + word_of_nat j) = m (a + word_of_nat j)"
      using True assms at by (cases "ys = []") (auto intro!: store_elsewhere)
    then show ?thesis using True j by (simp add: nth_append)
  next
    case False
    then have "a + word_of_nat j = a + word_of_nat n + word_of_nat (j - n)" by (simp add: of_nat_diff)
    moreover have "store (a + word_of_nat n) ys m (a + word_of_nat n + word_of_nat (j - n)) = ys ! (j - n)"
      using False j assms by (intro store_in) linarith+
    ultimately show ?thesis using False j by (simp add: nth_append)
  qed
qed simp

text \<open>A cluster in its buffer and the part of it that is copied to the file's buffer.\<close>

lemma copy_pass:
  fixes m :: memory
  assumes r: "reading S file h data h1 buf h2" and "length cb = cluster_size (f_fs file)" and pl: "placed S buf cb m m1"
    and n: "n < unat (data_length file)" "n + cs \<le> unat (data_length file)" and cs: "cs \<le> cluster_size (f_fs file)"
  defines "m' \<equiv> copy_out data (word_of_nat n) buf (word_of_nat cs) m1"
  shows "bytes m' data (n + cs) = bytes m data n @ take cs cb" and "calm (heap_free h \<union> S) m m'"
    and "unat x \<in> S \<Longrightarrow> m' x = m1 x"
proof -
  note f = reading_facts [OF r] and N = cluster_size_nat(3) [OF reading_facts(1) [OF r]]
  let ?d = "data + word_of_nat n"
  have d: "unat ?d = unat data + n" using f(2) n(1) by (rule extent_bytes)
  have c: "unat (word_of_nat cs :: u64) = cs" using N cs by (intro unat_of_nat_u64) simp
  have sub: "{unat ?d..<unat ?d + cs} \<subseteq> {unat data..<unat data + unat (data_length file)}" using d n by auto
  have "{unat buf..<unat buf + cs} \<subseteq> {unat buf..<unat buf + cluster_size (f_fs file)}" using cs by auto
  then have "{unat buf..<unat buf + cs} \<inter> {unat ?d..<unat ?d + cs} = {}" using f(5) sub by blast
  moreover have "unat buf + cs < 2 ^ 64" "unat ?d + cs < 2 ^ 64" using f(2,3) n cs d by linarith+
  ultimately have "m' = store ?d (bytes m1 buf cs) m1"
    unfolding m'_def by (simp only: copy_out_store extent_def c)
  moreover have "bytes m1 buf cs = take cs cb"
    using placed_nth [OF pl] cs assms(2) by (intro nth_equalityI) simp_all
  ultimately have m': "m' = store ?d (take cs cb) m1" by simp
  have t: "length (take cs cb) = cs" using cs assms(2) by simp
  have q: "calm ({unat buf..<unat buf + cluster_size (f_fs file)} \<union> S) m m1" by (rule placed_calm [OF pl]) (simp add: assms(2))
  have "bytes m' data (n + length (take cs cb)) = bytes m1 data n @ take cs cb"
    unfolding m' using f(2) n t by (intro bytes_append_store) simp
  moreover have "bytes m1 data n = bytes m data n"
  proof (rule bytes_calm [OF q])
    have "{unat data..<unat data + n} \<subseteq> {unat data..<unat data + unat (data_length file)}" using n by auto
    then show "{unat data..<unat data + n} \<inter> ({unat buf..<unat buf + cluster_size (f_fs file)} \<union> S) = {}" using f(5) by blast
  qed (use f(2) n in simp)
  ultimately show "bytes m' data (n + cs) = bytes m data n @ take cs cb" by (simp only: t)
  have out: "m' y = m1 y" if "unat y \<notin> {unat data..<unat data + unat (data_length file)}" for y
  proof -
    have "unat y \<notin> {unat ?d..<unat ?d + cs}" using that sub by blast
    then show ?thesis unfolding m' using t d f(2) n by (intro store_elsewhere) auto
  qed
  then have "calm {unat data..<unat data + unat (data_length file)} m1 m'" by (simp add: calm_def)
  then have "calm (heap_free h \<union> S) m1 m'" using f(6) by (blast intro: calm_mono)
  moreover have "calm (heap_free h \<union> S) m m1" using q f(7) by (blast intro: calm_mono)
  ultimately show "calm (heap_free h \<union> S) m m'" by (metis calm_trans)
  show "m' x = m1 x" if "unat x \<in> S" using that f(5) by (intro out) blast
qed

text \<open>A sector of the allocation table in a buffer granted for it.\<close>

lemma fat_pass:
  assumes r: "reading S file h data h1 buf h2" and g: "grant h2 512 p h3" and "length s = 512"
    and pl: "placed S p s m m1" and n: "n \<le> unat (data_length file)"
  shows "bytes m1 data n = bytes m data n" and "calm (heap_free h \<union> S) m m1"
proof -
  note f = reading_facts [OF r]
  have p: "{unat p..<unat p + 512} \<subseteq> heap_free h2" using grant_in_free(1) [OF f(11) g] by (simp add: extent_def)
  have "calm ({unat p..<unat p + 512} \<union> S) m m1" by (rule placed_calm [OF pl]) (simp add: assms(3))
  then have q: "calm (heap_free h2 \<union> S) m m1" using p by (blast intro: calm_mono)
  then show "calm (heap_free h \<union> S) m m1" using f(10) by (blast intro: calm_mono)
  show "bytes m1 data n = bytes m data n"
  proof (rule bytes_calm [OF q])
    have "{unat data..<unat data + n} \<subseteq> {unat data..<unat data + unat (data_length file)}" using n by auto
    moreover have "heap_free h2 \<inter> heap_used h2 = {}" by (auto simp: heap_free_def)
    ultimately show "{unat data..<unat data + n} \<inter> (heap_free h2 \<union> S) = {}" using f(5,9) by blast
  qed (use f(2) n in simp)
qed

text \<open>The number of clusters of a file, and the room a read needs.\<close>

definition cluster_total :: "exfat_file \<Rightarrow> nat" where
  "cluster_total file = (unat (data_length file) + cluster_size (f_fs file) - 1) div cluster_size (f_fs file)"

definition read_blocks :: "heap \<Rightarrow> exfat_file \<Rightarrow> nat" where
  "read_blocks h file =
     needed_blocks h (data_length file) +
     (needed_blocks h (512 * word_of_nat (cluster_sectors (f_fs file))) + needed_blocks h 512)"

lemma reading_setup:
  assumes "root_heap k = Some h" and "heap_inv h" and "geometry_ok (f_fs file)" and "away h S"
    and "data_length file \<noteq> 0" and "unat (data_length file) < 2 ^ 63" and "room h (read_blocks h file)"
  obtains data h1 buf h2 where "kalloc (data_length file) k = Inr (data, k\<lparr>root_heap := Some h1\<rparr>)"
    "kalloc (512 * word_of_nat (cluster_sectors (f_fs file))) (k\<lparr>root_heap := Some h1\<rparr>) = Inr (buf, k\<lparr>root_heap := Some h2\<rparr>)"
    "reading S file h data h1 buf h2"
proof -
  let ?c = "512 * word_of_nat (cluster_sectors (f_fs file)) :: u64"
  note c = cluster_size_nat [OF assms(3)]
  obtain data h1 where d: "kalloc (data_length file) k = Inr (data, k\<lparr>root_heap := Some h1\<rparr>)"
    "grant h (data_length file) data h1" "room h1 (needed_blocks h ?c + needed_blocks h 512)"
    using assms(7) unfolding read_blocks_def by (rule kalloc_first [OF assms(1,2) _ assms(5,6)])
  let ?k = "k\<lparr>root_heap := Some h1\<rparr>"
  have room: "room h1 (needed_blocks h1 ?c + needed_blocks h 512)" using d(3) grant_blocks [OF d(2)] by simp
  have "?c \<noteq> 0" using c(1,2) by (metis less_irrefl unat_0)
  moreover have "unat ?c < 2 ^ 63" using c(1,3) by simp
  moreover have "root_heap ?k = Some h1" by simp
  ultimately obtain buf h2 where b: "kalloc ?c ?k = Inr (buf, ?k\<lparr>root_heap := Some h2\<rparr>)" "grant h1 ?c buf h2"
    "room h2 (needed_blocks h 512)" using grantD(1) [OF d(2)] room by (metis kalloc_first)
  have "room h2 (needed_blocks h2 512)" using b(3) grant_blocks [OF d(2)] grant_blocks [OF b(2)] by simp
  then have "reading S file h data h1 buf h2" using assms(2-4) d(2) b(2) by (simp add: reading_def)
  then show thesis using d(1) b(1) by (intro that) simp_all
qed

section \<open>The routines on a device that is ready\<close>

context block_reader
begin

lemma read_sectors_ok:
  assumes "ready d k" and "i \<le> n" and buf: "buf \<noteq> 0" "unat buf + 512 * unat n < 2 ^ 64"
      "{unat buf..<unat buf + 512 * unat n} \<inter> own = {}"
    and "placed own buf (run_bytes (sector d) lba (unat i)) m (mem k)"
  shows "\<exists>m' tr. read_sectors rd d lba buf 512 n i k = Inr (True, k\<lparr>mem := m', trace := tr\<rparr>) \<and>
     ready d (k\<lparr>mem := m', trace := tr\<rparr>) \<and> placed own buf (run_bytes (sector d) lba (unat n)) m m'"
  using assms(1,2,6)
proof (induction "unat n - unat i" arbitrary: i k)
  case 0
  then have "i = n" by (auto simp: word_le_nat_alt intro: unat_inject)
  then have "read_sectors rd d lba buf 512 n i k = Inr (True, k)" by (subst read_sectors.simps) simp
  then show ?case using 0 \<open>i = n\<close> by (intro exI [of _ "mem k"] exI [of _ "trace k"]) simp
next
  case (Suc x)
  then have lt: "i < n" by (simp add: word_less_nat_alt)
  let ?s = "sector d (ucast (lba + i))" and ?b = "buf + i * 512"
  have off: "i * 512 = word_of_nat (512 * unat i)" by (simp add: mult.commute)
  have in_buf: "512 * unat i + 512 \<le> 512 * unat n" using lt by (simp add: word_less_nat_alt)
  have b: "unat ?b = unat buf + 512 * unat i"
    unfolding off using in_buf by (intro extent_bytes [OF buf(2)]) linarith
  have "?b \<noteq> 0" using b buf(1) by (metis add_is_0 unat_0 unat_eq_zero)
  moreover have "unat ?b + 512 < 2 ^ 64" using b in_buf buf(2) by linarith
  moreover have "{unat ?b..<unat ?b + 512} \<subseteq> {unat buf..<unat buf + 512 * unat n}" using b in_buf by auto
  then have "{unat ?b..<unat ?b + 512} \<inter> own = {}" using buf(3) by blast
  ultimately obtain m1 tr where tr: "rd d (ucast (lba + i)) ?b k = Inr (True, k\<lparr>mem := m1, trace := tr\<rparr>)"
    "ready d (k\<lparr>mem := m1, trace := tr\<rparr>)" "placed own ?b ?s (mem k) m1"
    using read_ok [OF Suc.prems(1)] by blast
  let ?k = "k\<lparr>mem := m1, trace := tr\<rparr>"
  have i1: "unat (i + 1) = Suc (unat i)" using lt by (rule unat_Suc_less)
  have len: "length (run_bytes (sector d) lba (unat i)) = 512 * unat i" "length ?s = 512"
    using sector_512 [OF Suc.prems(1)] by (simp_all add: length_run_bytes)
  have sub: "{unat buf..<unat buf + (512 * unat i + 512)} \<subseteq> {unat buf..<unat buf + 512 * unat n}" using in_buf by auto
  have "placed own buf (run_bytes (sector d) lba (unat i) @ ?s) m m1"
  proof (rule placed_append [OF Suc.prems(3)])
    show "placed own (buf + word_of_nat (length (run_bytes (sector d) lba (unat i)))) ?s (mem k) m1"
      using tr(3) by (simp only: len off)
    show "{unat buf..<unat buf + (length (run_bytes (sector d) lba (unat i)) + length ?s)} \<inter> own = {}"
      unfolding len using sub buf(3) by blast
  qed (use len in_buf buf(2) in linarith)
  then have "placed own buf (run_bytes (sector d) lba (unat (i + 1))) m (mem ?k)" by (simp add: i1 run_bytes_Suc)
  moreover have "x = unat n - unat (i + 1)" using Suc.hyps(2) i1 by simp
  ultimately obtain m' tr' where "read_sectors rd d lba buf 512 n (i + 1) ?k = Inr (True, ?k\<lparr>mem := m', trace := tr'\<rparr>) \<and>
      ready d (?k\<lparr>mem := m', trace := tr'\<rparr>) \<and> placed own buf (run_bytes (sector d) lba (unat n)) m m'"
    using Suc.hyps(1) [of "i + 1" ?k] tr(2) inc_le [OF lt] by blast
  then show ?case
    using tr(1) lt by (intro exI [of _ m'] exI [of _ tr']) (simp add: read_sectors.simps [of rd d lba buf 512 n i])
qed

text \<open>A whole cluster.\<close>

lemma read_cluster_ok:
  assumes "ready (x_disk fs) k" and "geometry_ok fs" and "buf \<noteq> 0" and "unat buf + cluster_size fs < 2 ^ 64"
    and "{unat buf..<unat buf + cluster_size fs} \<inter> own = {}"
  shows "\<exists>m tr. read_sectors rd (x_disk fs) (cluster_lba fs c) buf 512 (word_of_nat (cluster_sectors fs)) 0 k =
       Inr (True, k\<lparr>mem := m, trace := tr\<rparr>) \<and>
     ready (x_disk fs) (k\<lparr>mem := m, trace := tr\<rparr>) \<and> placed own buf (cluster_bytes (sector (x_disk fs)) fs c) (mem k) m"
proof -
  note g = geometry_shifts(4,5) [OF assms(2)]
  have n: "unat (word_of_nat (cluster_sectors fs) :: u64) = cluster_sectors fs"
    using g(2) by (intro unat_of_nat_u64) simp
  have "placed own buf (run_bytes (sector (x_disk fs)) (cluster_lba fs c) (unat (0 :: u64))) (mem k) (mem k)"
    by (simp add: run_bytes_def placed_Nil)
  from read_sectors_ok [OF assms(1) _ assms(3) _ _ this, of "word_of_nat (cluster_sectors fs)"]
  show ?thesis using assms(4,5) by (simp add: n cluster_bytes_def cluster_size_def)
qed

text \<open>An entry of the allocation table: the buffer it is read into is free again afterwards.\<close>

lemma get_fat_entry_ok:
  assumes "ready (x_disk fs) k" and "geometry_ok fs" and "root_heap k = Some h" and "heap_inv h" and "away h own"
    and "room h (needed_blocks h 512)"
  shows "\<exists>p h' m tr. EXFAT_get_fat_entry rd fs c k =
       Inr (fat_value (sector (x_disk fs)) fs c, k\<lparr>mem := m, trace := tr\<rparr>) \<and>
     grant h 512 p h' \<and> ready (x_disk fs) (k\<lparr>mem := m, trace := tr\<rparr>) \<and>
     placed own p (sector (x_disk fs) (ucast (fat_lba fs c))) (mem k) m \<and> calm (heap_free h \<union> own) (mem k) m"
proof -
  let ?d = "x_disk fs" and ?off = "ucast c * 4 :: u64"
  let ?s = "sector ?d (ucast (fat_lba fs c))"
  have "room h (needed_blocks h 512 + 0)" using assms(6) by simp
  then obtain p h1 where p: "kalloc 512 k = Inr (p, k\<lparr>root_heap := Some h1\<rparr>)" "grant h 512 p h1"
    by (rule kalloc_first [OF assms(3,4)]) simp_all
  have "unat (ucast c :: u64) = unat c" by (rule end_block_nat)
  moreover have "unat c < 2 ^ 32" using unsigned_less [of c, where ?'a = nat] by simp
  ultimately have off: "unat ?off = 4 * unat c" by (subst unat_mult_u64) simp_all
  have "unat (?off div 512) = 4 * unat c div 512" "unat (?off mod 512) = 4 * unat c mod 512"
    by (simp_all add: unat_div_distrib unat_mod_distrib off)
  then have dm: "?off div 512 = word_of_nat (4 * unat c div 512)" "?off mod 512 = word_of_nat (4 * unat c mod 512)"
    by (metis of_nat_unat ucast_id)+
  have lba: "sector_on_disk_LBA fs + ucast (fat_offset fs) + ?off div 512 = fat_lba fs c"
    by (simp only: fat_lba_def dm)
  from read_grant [OF ready_more(1) [OF assms(1)] assms(4,5) p(2), of "ucast (fat_lba fs c)" "Some h1"] obtain m tr where
    tr: "rd ?d (ucast (fat_lba fs c)) p (k\<lparr>root_heap := Some h1\<rparr>) = Inr (True, k\<lparr>root_heap := Some h1, mem := m, trace := tr\<rparr>)"
      "ready ?d (k\<lparr>root_heap := Some h1, mem := m, trace := tr\<rparr>)" "placed own p ?s (mem k) m" "calm (heap_free h \<union> own) (mem k) m"
    by auto
  define a where "a = 4 * unat c mod 512"
  have "a = 4 * (unat c mod 128)" using mult_mod_right [of 4 "unat c" 128] by (simp add: a_def)
  moreover have "unat c mod 128 < 128" by simp
  ultimately have a: "a + 3 < 512" by linarith
  have len: "length ?s = 512" by (rule sector_512 [OF assms(1)])
  have at: "m (p + word_of_nat a + word_of_nat j) = ?s ! (a + j)" if "j < 4" for j
    using placed_nth [OF tr(3), of "a + j"] a that len by (simp add: add.assoc)
  have "bytes m (p + word_of_nat a) 4 = take 4 (drop a ?s)"
    using a len by (intro nth_equalityI) (simp_all add: at)
  then have val: "read_u32_le m p (word_of_nat a) = fat_value (sector ?d) fs c"
    by (simp add: read_u32_le_value fat_value_def a_def)
  have same: "k\<lparr>mem := m, trace := tr, root_heap := Some h\<rparr> = k\<lparr>mem := m, trace := tr\<rparr>"
    using assms(3) by (cases k) simp
  have free: "kfree p (k\<lparr>root_heap := Some h1, mem := m, trace := tr\<rparr>) = Inr (k\<lparr>mem := m, trace := tr\<rparr>)"
    using grantD(3) [OF p(2)] same by (simp add: kfree_def)
  have "EXFAT_get_fat_entry rd fs c k = Inr (fat_value (sector ?d) fs c, k\<lparr>mem := m, trace := tr\<rparr>)"
    using p(1) tr(1) val free
    by (simp add: EXFAT_get_fat_entry_def geometry_shifts(1) [OF assms(2)] lba Let_def dm(2) a_def)
  moreover have "ready ?d (k\<lparr>mem := m, trace := tr\<rparr>)" using tr(2) by (rule ready_same) simp_all
  ultimately show ?thesis using p(2) tr(3,4) by blast
qed

section \<open>The loop over the clusters\<close>

text \<open>The loop of \<^verbatim>\<open>EXFAT_read_file_ALL\<close> with the sizes it is called with, and what a pass
  leaves alone: everything but memory and the device, and of memory all that was in use before.\<close>

abbreviation read_loop :: "exfat_file \<Rightarrow> u64 \<Rightarrow> u64 \<Rightarrow> nat \<Rightarrow> u32 \<Rightarrow> 'z manager_scheme \<Rightarrow> (u64 option \<times> 'z manager_scheme) result option" where
  "read_loop file data buf n c k \<equiv>
     read_all_loop rd file data buf 512 (word_of_nat (cluster_sectors (f_fs file))) (word_of_nat n) c k"

definition pass_keeps :: "exfat_file \<Rightarrow> heap \<Rightarrow> 'z manager_scheme \<Rightarrow> 'z manager_scheme \<Rightarrow> bool" where
  "pass_keeps file h k k' \<longleftrightarrow>
     (\<exists>m tr. k' = k\<lparr>mem := m, trace := tr\<rparr>) \<and> ready (x_disk (f_fs file)) k' \<and> calm (heap_free h \<union> own) (mem k) (mem k')"

lemma pass_keepsI:
  "k' = k\<lparr>mem := m, trace := tr\<rparr> \<Longrightarrow> ready (x_disk (f_fs file)) k' \<Longrightarrow> calm (heap_free h \<union> own) (mem k) m \<Longrightarrow>
     pass_keeps file h k k'"
  by (auto simp: pass_keeps_def)

lemma pass_keeps_trans:
  assumes "pass_keeps file h k k'" and "pass_keeps file h k' k''"
  shows "pass_keeps file h k k''"
proof -
  obtain m tr m' tr' where "k' = k\<lparr>mem := m, trace := tr\<rparr>" "k'' = k'\<lparr>mem := m', trace := tr'\<rparr>"
    using assms by (auto simp: pass_keeps_def)
  then have "k'' = k\<lparr>mem := m', trace := tr'\<rparr>" by simp
  then have "\<exists>m tr. k'' = k\<lparr>mem := m, trace := tr\<rparr>" by blast
  then show ?thesis using assms calm_trans by (simp add: pass_keeps_def) blast
qed

lemma pass_keeps_heap: "pass_keeps file h k k' \<Longrightarrow> root_heap k' = root_heap k"
  by (auto simp: pass_keeps_def)

lemma read_pass:
  assumes r: "reading own file h data h1 buf h2"
  defines "N \<equiv> cluster_size (f_fs file)" and "L \<equiv> unat (data_length file)" and "fs \<equiv> f_fs file"
  assumes ready: "ready (x_disk fs) k"
    and heap: "root_heap k = Some h2" and n: "n < L" and cs: "cs = min N (L - n)"
  shows "\<exists>k2. read_loop file data buf n c k =
       (if L \<le> n + cs then Some (Inr (Some (data_length file), k2))
        else if f_flags file AND 0x02 \<noteq> 0 then read_loop file data buf (n + cs) (c + 1) k2
        else
          (case EXFAT_get_fat_entry rd fs c k2 of
             Inl f \<Rightarrow> Some (Inl f)
           | Inr (c', k3) \<Rightarrow> if c' \<ge> 0xFFFFFFF8 then Some (Inr (None, k3)) else read_loop file data buf (n + cs) c' k3)) \<and>
     pass_keeps file h k k2 \<and>
     bytes (mem k2) data (n + cs) = bytes (mem k) data n @ take cs (cluster_bytes (sector (x_disk fs)) fs c)"
proof -
  note f = reading_facts [OF r]
  let ?w = "word_of_nat (cluster_sectors fs) :: u64" and ?cb = "cluster_bytes (sector (x_disk fs)) fs c"
  have N: "unat (512 * ?w) = N" using cluster_size_nat(1) [OF f(1)] by (simp add: N_def fs_def)
  obtain m1 tr where tr: "read_sectors rd (x_disk fs) (cluster_lba fs c) buf 512 ?w 0 k = Inr (True, k\<lparr>mem := m1, trace := tr\<rparr>)"
      "ready (x_disk fs) (k\<lparr>mem := m1, trace := tr\<rparr>)" "placed own buf ?cb (mem k) m1"
    using read_cluster_ok [OF ready f(1,4,3,8) [folded fs_def]] by blast
  have len: "length ?cb = N"
    unfolding N_def fs_def by (rule length_cluster_bytes) (rule sector_512 [OF ready [unfolded fs_def]])
  have le: "n + cs \<le> L" "cs \<le> N" using n cs by simp_all
  have L64: "L < 2 ^ 64" unfolding L_def by (rule unat_u64_less)
  have wn: "unat (word_of_nat n :: u64) = n" and wcs: "unat (word_of_nat cs :: u64) = cs"
    using n le L64 by (simp_all only: unat_of_nat_u64)
  have wsum: "unat (word_of_nat n + word_of_nat cs :: u64) = n + cs"
    using unat_add_u64 [of "word_of_nat n" "word_of_nat cs"] le L64 wn wcs by simp
  have rest: "unat (data_length file - word_of_nat n) = L - n"
    using n wn by (simp add: unat_sub word_le_nat_alt L_def)
  have size_w: "(if data_length file - word_of_nat n < 512 * ?w then data_length file - word_of_nat n else 512 * ?w) = word_of_nat cs"
    by (rule unat_inject) (simp add: wcs word_less_nat_alt rest N, simp add: cs)
  define k2 where "k2 = upd_mem (copy_out data (word_of_nat n) buf (word_of_nat cs)) (k\<lparr>mem := m1, trace := tr\<rparr>)"
  have less: "word_of_nat n < data_length file" "data_length file \<le> word_of_nat n + word_of_nat cs \<longleftrightarrow> L \<le> n + cs"
    using n wn wsum by (simp_all add: word_less_nat_alt word_le_nat_alt L_def)
  have whole: "word_of_nat n + word_of_nat cs = data_length file" if "L \<le> n + cs"
    using that le wsum by (intro unat_inject) (simp add: L_def)
  note p = copy_pass [OF r len [unfolded N_def] tr(3) n [unfolded L_def] le(1) [unfolded L_def] le(2) [unfolded N_def]]
  have k2: "k2 = k\<lparr>mem := copy_out data (word_of_nat n) buf (word_of_nat cs) m1, trace := tr\<rparr>"
    by (simp add: k2_def upd_mem_def)
  have "ready (x_disk fs) k2" using tr(2) by (rule ready_same) (simp_all add: k2 p(3))
  then have keeps: "pass_keeps file h k k2"
    unfolding fs_def using p(2) by (rule pass_keepsI [OF k2])
  have pass: "read_loop file data buf n c k =
       (if L \<le> n + cs then Some (Inr (Some (word_of_nat (n + cs)), k2))
        else if f_flags file AND 0x02 \<noteq> 0 then read_loop file data buf (n + cs) (c + 1) k2
        else
          (case EXFAT_get_fat_entry rd fs c k2 of
             Inl f \<Rightarrow> Some (Inl f)
           | Inr (c', k3) \<Rightarrow> if c' \<ge> 0xFFFFFFF8 then Some (Inr (None, k3)) else read_loop file data buf (n + cs) c' k3))"
    unfolding fs_def
    by (subst read_all_loop.simps)
      (simp only: less if_True geometry_shifts(3) [OF f(1)] tr(1) [unfolded fs_def] sum.case prod.case
        not_True_eq_False if_False Let_def size_w [unfolded fs_def] k2_def fs_def of_nat_add)
  have "bytes (mem k2) data (n + cs) = bytes (mem k) data n @ take cs ?cb"
    using k2 p(1) by simp
  moreover have "L \<le> n + cs \<Longrightarrow> word_of_nat (n + cs) = data_length file" using whole by simp
  ultimately show ?thesis
    using keeps by (intro exI [of _ k2] conjI) (cases "L \<le> n + cs"; simp only: pass if_True if_False)+
qed

text \<open>The three ways a pass ends: another cluster, the end of the file, an early end of the chain.\<close>

lemma read_next:
  assumes "reading own file h data h1 buf h2" and "ready (x_disk (f_fs file)) k" and "root_heap k = Some h2"
    and n: "n + cluster_size (f_fs file) < unat (data_length file)"
    and c: "f_flags file AND 0x02 \<noteq> 0 \<or> fat_value (sector (x_disk (f_fs file))) (f_fs file) c < 0xFFFFFFF8"
  shows "\<exists>k'. read_loop file data buf n c k = read_loop file data buf (n + cluster_size (f_fs file))
           (if f_flags file AND 0x02 \<noteq> 0 then c + 1 else fat_value (sector (x_disk (f_fs file))) (f_fs file) c) k' \<and>
     pass_keeps file h k k' \<and>
     bytes (mem k') data (n + cluster_size (f_fs file)) =
       bytes (mem k) data n @ cluster_bytes (sector (x_disk (f_fs file))) (f_fs file) c"
proof -
  let ?fs = "f_fs file" and ?N = "cluster_size (f_fs file)" and ?d = "x_disk (f_fs file)"
  have n': "n < unat (data_length file)" "?N = min ?N (unat (data_length file) - n)" using n by simp_all
  have len: "length (cluster_bytes (sector ?d) ?fs c) = ?N"
    by (rule length_cluster_bytes) (rule sector_512 [OF assms(2)])
  obtain k2 where k2: "read_loop file data buf n c k =
      (if f_flags file AND 0x02 \<noteq> 0 then read_loop file data buf (n + ?N) (c + 1) k2
       else (case EXFAT_get_fat_entry rd ?fs c k2 of
               Inl f \<Rightarrow> Some (Inl f)
             | Inr (c', k3) \<Rightarrow> if c' \<ge> 0xFFFFFFF8 then Some (Inr (None, k3)) else read_loop file data buf (n + ?N) c' k3))"
    "pass_keeps file h k k2" "bytes (mem k2) data (n + ?N) = bytes (mem k) data n @ cluster_bytes (sector ?d) ?fs c"
    using read_pass [OF assms(1-3) n', of c] n len by (simp del: of_nat_add) blast
  show ?thesis
  proof (cases "f_flags file AND 0x02 \<noteq> 0")
    case True
    then show ?thesis using k2 by (intro exI [of _ k2]) simp
  next
    case False
    note f = reading_facts [OF assms(1)]
    have "ready ?d k2" "root_heap k2 = Some h2"
      using k2(2) assms(3) pass_keeps_heap [OF k2(2)] by (simp_all add: pass_keeps_def)
    from get_fat_entry_ok [OF this(1) f(1) this(2) f(11,13,12), of c] obtain p h3 m tr where
      p: "EXFAT_get_fat_entry rd ?fs c k2 = Inr (fat_value (sector ?d) ?fs c, k2\<lparr>mem := m, trace := tr\<rparr>)" "grant h2 512 p h3"
        "ready ?d (k2\<lparr>mem := m, trace := tr\<rparr>)" "placed own p (sector ?d (ucast (fat_lba ?fs c))) (mem k2) m"
      by blast
    note fp = fat_pass [OF assms(1) p(2) sector_512 [OF assms(2), of "ucast (fat_lba ?fs c)"] p(4)]
    let ?k3 = "k2\<lparr>mem := m, trace := tr\<rparr>"
    have "pass_keeps file h k2 ?k3" using refl p(3) fp(2) [of 0] by (intro pass_keepsI) simp_all
    then have "pass_keeps file h k ?k3" using k2(2) by (rule pass_keeps_trans [rotated])
    moreover have "\<not> 0xFFFFFFF8 \<le> fat_value (sector ?d) ?fs c" using c False by (simp add: not_le)
    ultimately show ?thesis
      using False k2(1,3) p(1) fp(1) [of "n + ?N"] n by (intro exI [of _ ?k3]) simp
  qed
qed

lemma read_last:
  assumes "reading own file h data h1 buf h2" and "ready (x_disk (f_fs file)) k" and "root_heap k = Some h2"
    and "n < unat (data_length file)" and "unat (data_length file) \<le> n + cluster_size (f_fs file)"
  shows "\<exists>k'. read_loop file data buf n c k = Some (Inr (Some (data_length file), k')) \<and> pass_keeps file h k k' \<and>
     bytes (mem k') data (unat (data_length file)) = bytes (mem k) data n @
       take (unat (data_length file) - n) (cluster_bytes (sector (x_disk (f_fs file))) (f_fs file) c)"
proof -
  have "unat (data_length file) - n = min (cluster_size (f_fs file)) (unat (data_length file) - n)"
    using assms(5) by simp
  from read_pass [OF assms(1-4) this, of c] show ?thesis
    using assms(4) by (simp del: of_nat_add)
qed

lemma read_cut:
  assumes "reading own file h data h1 buf h2" and "ready (x_disk (f_fs file)) k" and "root_heap k = Some h2"
    and n: "n + cluster_size (f_fs file) < unat (data_length file)"
    and c: "f_flags file AND 0x02 = 0" "fat_value (sector (x_disk (f_fs file))) (f_fs file) c \<ge> 0xFFFFFFF8"
  shows "\<exists>k'. read_loop file data buf n c k = Some (Inr (None, k')) \<and> pass_keeps file h k k'"
proof -
  let ?fs = "f_fs file" and ?N = "cluster_size (f_fs file)" and ?d = "x_disk (f_fs file)"
  have n': "n < unat (data_length file)" "?N = min ?N (unat (data_length file) - n)" using n by simp_all
  obtain k2 where k2: "read_loop file data buf n c k =
      (case EXFAT_get_fat_entry rd ?fs c k2 of
               Inl f \<Rightarrow> Some (Inl f)
             | Inr (c', k3) \<Rightarrow> if c' \<ge> 0xFFFFFFF8 then Some (Inr (None, k3)) else read_loop file data buf (n + ?N) c' k3)"
    "pass_keeps file h k k2"
    using read_pass [OF assms(1-3) n', of c] n c(1) by (simp del: of_nat_add) blast
  note f = reading_facts [OF assms(1)]
  have "ready ?d k2" "root_heap k2 = Some h2"
    using k2(2) assms(3) pass_keeps_heap [OF k2(2)] by (simp_all add: pass_keeps_def)
  from get_fat_entry_ok [OF this(1) f(1) this(2) f(11,13,12), of c] obtain p h3 m tr where
    p: "EXFAT_get_fat_entry rd ?fs c k2 = Inr (fat_value (sector ?d) ?fs c, k2\<lparr>mem := m, trace := tr\<rparr>)" "grant h2 512 p h3"
      "ready ?d (k2\<lparr>mem := m, trace := tr\<rparr>)" "placed own p (sector ?d (ucast (fat_lba ?fs c))) (mem k2) m"
    by blast
  let ?k3 = "k2\<lparr>mem := m, trace := tr\<rparr>"
  note fp = fat_pass(2) [OF assms(1) p(2) sector_512 [OF assms(2), of "ucast (fat_lba ?fs c)"] p(4)]
  have "pass_keeps file h k2 ?k3" using refl p(3) fp [of 0] by (intro pass_keepsI) simp_all
  then have "pass_keeps file h k ?k3" using k2(2) by (rule pass_keeps_trans [rotated])
  then show ?thesis using k2(1) p(1) c(2) by auto
qed

text \<open>The passes over the first \<open>i\<close> clusters.\<close>

lemma read_clusters:
  fixes i :: nat
  assumes r: "reading own file h data h1 buf h2" and ready: "ready (x_disk (f_fs file)) k" and heap: "root_heap k = Some h2"
    and go: "\<And>j. j < i \<Longrightarrow> Suc j * cluster_size (f_fs file) < unat (data_length file) \<and>
           (f_flags file AND 0x02 \<noteq> 0 \<or> file_cluster (sector (x_disk (f_fs file))) file (Suc j) < 0xFFFFFFF8)"
  shows "\<exists>k'. read_loop file data buf 0 (first_cluster file) k =
       read_loop file data buf (i * cluster_size (f_fs file)) (file_cluster (sector (x_disk (f_fs file))) file i) k' \<and>
     pass_keeps file h k k' \<and>
     bytes (mem k') data (i * cluster_size (f_fs file)) = file_bytes (sector (x_disk (f_fs file))) file i"
  using go
proof (induction i)
  case 0
  have "k = k\<lparr>mem := mem k, trace := trace k\<rparr>" by simp
  then have "pass_keeps file h k k" using ready by (rule pass_keepsI) simp
  then show ?case by (intro exI [of _ k]) (simp add: file_bytes_def)
next
  case (Suc i)
  let ?N = "cluster_size (f_fs file)" and ?sec = "sector (x_disk (f_fs file))"
  from Suc.IH Suc.prems obtain k1 where k1:
    "read_loop file data buf 0 (first_cluster file) k = read_loop file data buf (i * ?N) (file_cluster ?sec file i) k1"
    "pass_keeps file h k k1" "bytes (mem k1) data (i * ?N) = file_bytes ?sec file i" by auto
  have st: "ready (x_disk (f_fs file)) k1" "root_heap k1 = Some h2"
    using k1(2) heap pass_keeps_heap [OF k1(2)] by (simp_all add: pass_keeps_def)
  have len: "i * ?N + ?N < unat (data_length file)" using Suc.prems [of i] by (simp add: add.commute)
  have "f_flags file AND 0x02 \<noteq> 0 \<or> fat_value ?sec (f_fs file) (file_cluster ?sec file i) < 0xFFFFFFF8"
    using Suc.prems [of i] by (cases "f_flags file AND 0x02 = 0") simp_all
  from read_next [OF r st len this] obtain k2 where k2:
    "read_loop file data buf (i * ?N) (file_cluster ?sec file i) k1 =
       read_loop file data buf (i * ?N + ?N) (file_cluster ?sec file (Suc i)) k2" "pass_keeps file h k1 k2"
    "bytes (mem k2) data (i * ?N + ?N) = file_bytes ?sec file (Suc i)"
    unfolding file_cluster.simps(2) [symmetric] file_bytes_Suc k1(3) by blast
  moreover have "Suc i * ?N = i * ?N + ?N" by simp
  ultimately show ?case
    using k1(1) pass_keeps_trans [OF k1(2) k2(2)] by (intro exI [of _ k2]) (simp only: simp_thms)
qed

section \<open>The whole routine\<close>

lemma read_file_ALL_ok:
  assumes ready: "ready (x_disk (f_fs file)) k" and heap: "root_heap k = Some h" "heap_inv h" and aw: "away h own"
    and geo: "geometry_ok (f_fs file)" and len: "data_length file \<noteq> 0" "unat (data_length file) < 2 ^ 63"
    and room: "room h (read_blocks h file)"
    and chain: "\<And>j. Suc j * cluster_size (f_fs file) < unat (data_length file) \<Longrightarrow>
      f_flags file AND 0x02 \<noteq> 0 \<or> file_cluster (sector (x_disk (f_fs file))) file (Suc j) < 0xFFFFFFF8"
  shows "\<exists>data h1 m tr. EXFAT_read_file_ALL rd file k =
       Inr (Some (data, data_length file), k\<lparr>mem := m, trace := tr, root_heap := Some h1\<rparr>) \<and>
     bytes m data (unat (data_length file)) =
       take (unat (data_length file)) (file_bytes (sector (x_disk (f_fs file))) file (cluster_total file)) \<and>
     grant h (data_length file) data h1 \<and> calm (heap_free h \<union> own) (mem k) m \<and>
     ready (x_disk (f_fs file)) (k\<lparr>mem := m, trace := tr, root_heap := Some h1\<rparr>)"
proof -
  let ?L = "unat (data_length file)" and ?N = "cluster_size (f_fs file)" and ?sec = "sector (x_disk (f_fs file))"
  obtain data h1 buf h2 where a: "kalloc (data_length file) k = Inr (data, k\<lparr>root_heap := Some h1\<rparr>)"
    "kalloc (512 * word_of_nat (cluster_sectors (f_fs file))) (k\<lparr>root_heap := Some h1\<rparr>) = Inr (buf, k\<lparr>root_heap := Some h2\<rparr>)"
    "reading own file h data h1 buf h2" by (rule reading_setup [OF heap geo aw len room])
  let ?k = "k\<lparr>root_heap := Some h2\<rparr>"
  define i where "i = (?L - 1) div ?N"
  have N: "0 < ?N" using cluster_size_nat [OF geo] by simp
  have L: "0 < ?L" using len(1) by (simp add: unat_gt_0)
  have "i * ?N \<le> ?L - 1" unfolding i_def by (rule div_times_less_eq_dividend)
  moreover have "?L - 1 < Suc i * ?N" unfolding i_def using dividend_less_div_times [OF N, of "?L - 1"] by simp
  ultimately have i: "i * ?N < ?L" "?L \<le> i * ?N + ?N" using L by simp_all
  have "(?L - 1 + ?N) div ?N = Suc i" using N div_add_self2 [of ?N "?L - 1"] by (simp add: i_def)
  moreover have "?L - 1 + ?N = ?L + ?N - 1" using L by simp
  ultimately have total: "cluster_total file = Suc i" by (simp add: cluster_total_def)
  have "Suc j * ?N < ?L" if "j < i" for j
    using i(1) mult_le_mono1 [of "Suc j" i ?N] that by simp
  then have go: "Suc j * ?N < ?L \<and> (f_flags file AND 0x02 \<noteq> 0 \<or> file_cluster ?sec file (Suc j) < 0xFFFFFFF8)"
    if "j < i" for j using chain that by blast
  have st: "ready (x_disk (f_fs file)) ?k" "root_heap ?k = Some h2" using ready_more(1) [OF ready] by simp_all
  from read_clusters [OF a(3) st go] obtain k1 where k1: "read_loop file data buf 0 (first_cluster file) ?k =
      read_loop file data buf (i * ?N) (file_cluster ?sec file i) k1" "pass_keeps file h ?k k1"
    "bytes (mem k1) data (i * ?N) = file_bytes ?sec file i" by blast
  have st1: "ready (x_disk (f_fs file)) k1" "root_heap k1 = Some h2"
    using k1(2) pass_keeps_heap [OF k1(2)] by (simp_all add: pass_keeps_def)
  from read_last [OF a(3) st1 i, of "file_cluster ?sec file i"] obtain k2 where
    k2: "read_loop file data buf 0 (first_cluster file) ?k = Some (Inr (Some (data_length file), k2))" "pass_keeps file h k1 k2"
    "bytes (mem k2) data ?L = file_bytes ?sec file i @ take (?L - i * ?N) (cluster_bytes ?sec (f_fs file) (file_cluster ?sec file i))"
    using k1(1,3) by auto
  have "length (file_bytes ?sec file i) = i * ?N"
    by (rule length_file_bytes) (rule sector_512 [OF ready])
  then have content: "bytes (mem k2) data ?L = take ?L (file_bytes ?sec file (cluster_total file))"
    using k2(3) i(1) by (simp add: total file_bytes_Suc)
  from pass_keeps_trans [OF k1(2) k2(2)] obtain m tr where
    m: "k2 = ?k\<lparr>mem := m, trace := tr\<rparr>" "calm (heap_free h \<union> own) (mem k) m" "ready (x_disk (f_fs file)) k2"
    by (auto simp: pass_keeps_def)
  have g: "grant h (data_length file) data h1" "free h2 buf = Inr h1"
    using a(3) by (auto simp: reading_def grant_def)
  have "kfree buf k2 = Inr (k\<lparr>mem := m, trace := tr, root_heap := Some h1\<rparr>)"
    using m(1) g(2) by (simp add: kfree_def)
  then have "EXFAT_read_file_ALL rd file k =
      Inr (Some (data, data_length file), k\<lparr>mem := m, trace := tr, root_heap := Some h1\<rparr>)"
    using a(1,2) k2(1) by (simp add: EXFAT_read_file_ALL_def geometry_shifts(1,2) [OF geo])
  moreover have "ready (x_disk (f_fs file)) (k\<lparr>mem := m, trace := tr, root_heap := Some h1\<rparr>)"
    using m(3) by (rule ready_same) (simp_all add: m(1))
  ultimately show ?thesis using content m g(1) by auto
qed

lemma read_file_ALL_cut:
  assumes ready: "ready (x_disk (f_fs file)) k" and heap: "root_heap k = Some h" "heap_inv h" and aw: "away h own"
    and geo: "geometry_ok (f_fs file)" and len: "unat (data_length file) < 2 ^ 63"
    and room: "room h (read_blocks h file)" and i: "Suc i * cluster_size (f_fs file) < unat (data_length file)"
    and chain: "\<And>j. j < i \<Longrightarrow> file_cluster (sector (x_disk (f_fs file))) file (Suc j) < 0xFFFFFFF8"
    and cut: "f_flags file AND 0x02 = 0" "file_cluster (sector (x_disk (f_fs file))) file (Suc i) \<ge> 0xFFFFFFF8"
  shows "\<exists>m tr. EXFAT_read_file_ALL rd file k = Inr (None, k\<lparr>mem := m, trace := tr\<rparr>) \<and> calm (heap_free h \<union> own) (mem k) m"
proof -
  let ?L = "unat (data_length file)" and ?N = "cluster_size (f_fs file)" and ?sec = "sector (x_disk (f_fs file))"
  have "data_length file \<noteq> 0" using i by auto
  then obtain data h1 buf h2 where a: "kalloc (data_length file) k = Inr (data, k\<lparr>root_heap := Some h1\<rparr>)"
    "kalloc (512 * word_of_nat (cluster_sectors (f_fs file))) (k\<lparr>root_heap := Some h1\<rparr>) = Inr (buf, k\<lparr>root_heap := Some h2\<rparr>)"
    "reading own file h data h1 buf h2" by (rule reading_setup [OF heap geo aw _ len room])
  let ?k = "k\<lparr>root_heap := Some h2\<rparr>"
  have "Suc j * ?N < ?L" if "j < i" for j
  proof -
    have "Suc j * ?N \<le> Suc i * ?N" using that by (intro mult_le_mono1) simp
    then show ?thesis using i by linarith
  qed
  then have go: "Suc j * ?N < ?L \<and> (f_flags file AND 0x02 \<noteq> 0 \<or> file_cluster ?sec file (Suc j) < 0xFFFFFFF8)"
    if "j < i" for j using chain that by blast
  have st: "ready (x_disk (f_fs file)) ?k" "root_heap ?k = Some h2" using ready_more(1) [OF ready] by simp_all
  from read_clusters [OF a(3) st go] obtain k1 where k1: "read_loop file data buf 0 (first_cluster file) ?k =
      read_loop file data buf (i * ?N) (file_cluster ?sec file i) k1" "pass_keeps file h ?k k1" by blast
  have st1: "ready (x_disk (f_fs file)) k1" "root_heap k1 = Some h2"
    using k1(2) pass_keeps_heap [OF k1(2)] by (simp_all add: pass_keeps_def)
  have in_file: "i * ?N + ?N < ?L" using i by (simp add: add.commute)
  have ended: "fat_value ?sec (f_fs file) (file_cluster ?sec file i) \<ge> 0xFFFFFFF8" using cut by simp
  from read_cut [OF a(3) st1 in_file cut(1) ended] obtain k2 where
    k2: "read_loop file data buf 0 (first_cluster file) ?k = Some (Inr (None, k2))" "pass_keeps file h k1 k2"
    using k1(1) by auto
  from pass_keeps_trans [OF k1(2) k2(2)] obtain m tr where
    m: "k2 = ?k\<lparr>mem := m, trace := tr\<rparr>" "calm (heap_free h \<union> own) (mem k) m" "ready (x_disk (f_fs file)) k2"
    by (auto simp: pass_keeps_def)
  have g: "free h1 data = Inr h" "free h2 buf = Inr h1"
    using a(3) by (auto simp: reading_def grant_def)
  have "kfree buf k2 = Inr (k\<lparr>mem := m, trace := tr, root_heap := Some h1\<rparr>)"
    using m(1) g(2) by (simp add: kfree_def)
  moreover have "kfree data (k\<lparr>mem := m, trace := tr, root_heap := Some h1\<rparr>) = Inr (k\<lparr>mem := m, trace := tr\<rparr>)"
    using g(1) heap(1) by (cases k) (simp add: kfree_def)
  ultimately have "EXFAT_read_file_ALL rd file k = Inr (None, k\<lparr>mem := m, trace := tr\<rparr>)"
    using a(1,2) k2(1) by (simp add: EXFAT_read_file_ALL_def geometry_shifts(1,2) [OF geo])
  then show ?thesis using m(2) by auto
qed

end

end
