(* ===== verification/Exfat_Dir.thy ===== *)
theory Exfat_Dir
  imports Exfat_Read Byte_Runs
begin

text \<open>
  Directories as the exFAT driver understands them: entries of 32 bytes, a file being a primary entry with
  the secondary entries behind it. The first section says, on lists of bytes, what a directory contains and
  what a look-up yields; the others show that the routines that work on memory compute it.
\<close>

section \<open>The contents of a directory\<close>

definition le_field :: "u8 list \<Rightarrow> nat \<Rightarrow> nat \<Rightarrow> nat" where
  "le_field bs off n = le_value (take n (drop off bs))"

text \<open>A stream extension (type 0xC0), and the low bytes of the characters of a name entry (type 0xC1).\<close>

record stream =
  st_flags :: u8
  st_name_length :: u8
  st_hash :: u16
  st_valid :: u64
  st_first :: u32
  st_length :: u64

definition parse_stream :: "u8 list \<Rightarrow> stream" where
  "parse_stream s =
     \<lparr>st_flags = s ! 1, st_name_length = s ! 3, st_hash = word_of_nat (le_field s 4 2),
      st_valid = word_of_nat (le_field s 8 8), st_first = word_of_nat (le_field s 0x14 4),
      st_length = word_of_nat (le_field s 0x18 8)\<rparr>"

definition name_part :: "u8 list \<Rightarrow> u8 list" where
  "name_part s = map (\<lambda>j. s ! (2 + 2 * j)) [0..<15]"

text \<open>What a file's entries say: attributes, the last stream extension, and the name, which is cut at the
  length the stream extension gives.\<close>

record dirent =
  de_attributes :: u16
  de_stream :: "stream option"
  de_chars :: "u8 list"

definition name_limit :: "dirent \<Rightarrow> nat" where
  "name_limit d = (case de_stream d of None \<Rightarrow> 0 | Some st \<Rightarrow> unat (st_name_length st))"

definition add_secondary :: "dirent \<Rightarrow> u8 list \<Rightarrow> dirent" where
  "add_secondary d s =
     (if s ! 0 = 0xC0 then d\<lparr>de_stream := Some (parse_stream s)\<rparr>
      else if s ! 0 = 0xC1 then d\<lparr>de_chars := de_chars d @ take (name_limit d - length (de_chars d)) (name_part s)\<rparr>
      else d)"

definition parse_set :: "u8 list \<Rightarrow> u8 list list \<Rightarrow> dirent" where
  "parse_set e ss =
     foldl add_secondary \<lparr>de_attributes = word_of_nat (le_field e 4 2), de_stream = None, de_chars = []\<rparr> ss"

definition de_name :: "dirent \<Rightarrow> u8 list" where
  "de_name d = takeWhile (\<lambda>b. b \<noteq> 0) (de_chars d)"

text \<open>The file structure of an entry, on top of what the memory of the structure held.\<close>

definition as_file :: "exfat_file \<Rightarrow> exfat_instance \<Rightarrow> dirent \<Rightarrow> exfat_file" where
  "as_file raw fs d =
     (let f = raw\<lparr>f_fs := fs, attributes := de_attributes d, name_length := 0, first_cluster := 0, data_length := 0\<rparr> in
      case de_stream d of
        None \<Rightarrow> f
      | Some st \<Rightarrow>
          f\<lparr>name_length := st_name_length st, name_hash := st_hash st, f_flags := st_flags st,
            valid_data_length := st_valid st, first_cluster := st_first st, data_length := st_length st\<rparr>)"

text \<open>The entries of a cluster, and the search for a name in them: \<open>Scan_end\<close> at an entry of type 0,
  \<open>Scan_more\<close> at the end of the cluster. A set of entries that does not end in the cluster has no meaning to
  the driver (\<open>None\<close>).\<close>

definition entries_of :: "u8 list \<Rightarrow> u8 list list" where
  "entries_of cb = map (\<lambda>i. take 32 (drop (32 * i) cb)) [0..<length cb div 32]"

datatype scan = Scan_end | Scan_found dirent | Scan_more

fun scan_for :: "u8 list \<Rightarrow> u8 list list \<Rightarrow> scan option" where
  "scan_for name [] = Some Scan_more"
| "scan_for name (e # es) =
     (if e ! 0 = 0 then Some Scan_end
      else if e ! 0 \<noteq> 0x85 then scan_for name es
      else if length es < unat (e ! 1) then None
      else
        let d = parse_set e (take (unat (e ! 1)) es) in
        if de_name d = name then Some (Scan_found d) else scan_for name es)"

text \<open>The search through the clusters of a directory, at most \<open>n\<close> of them.\<close>

fun dir_search :: "(u32 \<Rightarrow> u8 list) \<Rightarrow> exfat_instance \<Rightarrow> u8 list \<Rightarrow> nat \<Rightarrow> u32 \<Rightarrow> dirent option option" where
  "dir_search sec fs name 0 c = None"
| "dir_search sec fs name (Suc n) c =
     (case scan_for name (entries_of (cluster_bytes sec fs c)) of
        None \<Rightarrow> None
      | Some Scan_end \<Rightarrow> Some None
      | Some (Scan_found d) \<Rightarrow> Some (Some d)
      | Some Scan_more \<Rightarrow>
          if fat_value sec fs c \<ge> 0xFFFFFFF8 then Some None else dir_search sec fs name n (fat_value sec fs c))"

text \<open>The first cluster of an entry, and the walk along the components of a path.\<close>

definition de_first :: "dirent \<Rightarrow> u32" where
  "de_first d = (case de_stream d of None \<Rightarrow> 0 | Some st \<Rightarrow> st_first st)"

fun resolve :: "(u32 \<Rightarrow> u8 list) \<Rightarrow> exfat_instance \<Rightarrow> nat \<Rightarrow> u32 \<Rightarrow> u8 list list \<Rightarrow> dirent option option" where
  "resolve sec fs n c [] = Some None"
| "resolve sec fs n c (name # names) =
     (case dir_search sec fs name n c of
        None \<Rightarrow> None
      | Some None \<Rightarrow> Some None
      | Some (Some d) \<Rightarrow>
          if names = [] then Some (Some d)
          else if de_attributes d AND 0x0010 = 0 then Some None
          else resolve sec fs n (de_first d) names)"

text \<open>The components of a path, separated by one slash or more.\<close>

function components :: "u8 list \<Rightarrow> u8 list list" where
  "components s =
     (let t = dropWhile (\<lambda>b. b = 0x2F) s in
      if t = [] then [] else takeWhile (\<lambda>b. b \<noteq> 0x2F) t # components (dropWhile (\<lambda>b. b \<noteq> 0x2F) t))"
  by pat_completeness auto
termination
proof (relation "measure length", simp)
  fix s t :: "u8 list" assume t: "t = dropWhile (\<lambda>b. b = 0x2F) s" "t \<noteq> []"
  have "hd t \<noteq> 0x2F" using t by (metis (full_types) hd_dropWhile)
  with t(2) obtain b u where "t = b # u" "b \<noteq> 0x2F" by (cases t) auto
  then have "length (dropWhile (\<lambda>b. b \<noteq> 0x2F) t) < length t" by (simp add: length_dropWhile_le le_imp_less_Suc)
  also have "\<dots> \<le> length s" unfolding t(1) by (rule length_dropWhile_le)
  finally show "(dropWhile (\<lambda>b. b \<noteq> 0x2F) t, s) \<in> measure length" by simp
qed

declare components.simps [simp del]

section \<open>Fields of an entry in memory\<close>

lemma bytes_window:
  assumes "off + n \<le> k"
  shows "bytes m (p + word_of_nat off) n = take n (drop off (bytes m p k))"
  using assms by (intro nth_equalityI) (simp_all add: add.assoc)

lemma field_at:
  assumes "bytes m p 32 = s"
  shows "read_u16_le m p 4 = word_of_nat (le_field s 4 2)"
    and "read_u64_le m p 8 = word_of_nat (le_field s 8 8)"
    and "read_u32_le m p 0x14 = word_of_nat (le_field s 0x14 4)"
    and "read_u64_le m p 0x18 = word_of_nat (le_field s 0x18 8)"
  using bytes_window [of 4 2 32 m p] bytes_window [of 8 8 32 m p] bytes_window [of 20 4 32 m p]
    bytes_window [of 24 8 32 m p] assms
  by (simp_all add: read_u16_le_value read_u32_le_value read_u64_le_value le_field_def)

lemma byte_at: "bytes m p 32 = s \<Longrightarrow> j < 32 \<Longrightarrow> m (p + word_of_nat j) = s ! j"
  by auto

lemma low_byte: "(ucast (read_u16_le m p off) :: u8) = m (p + off)"
  by (simp add: read_u16_le_def) (rule bit_word_eqI, auto simp: bit_simps)

section \<open>One file\<close>

lemma store_Cons:
  assumes "length ys < 2 ^ 64 - 1"
  shows "store (a + 1) ys (m(a := c)) = store a (c # ys) m"
  using store_append [of "[c]" ys a m] store_snoc [of "[]" a c m] assms by simp

lemma apart_bytes:
  assumes "apart a k b n" and "i + length bs \<le> n"
  shows "bytes (store (b + word_of_nat i) bs m) a k = bytes m a k"
proof (cases "bs = []")
  case False
  have b: "unat b + n < 2 ^ 64" using assms(1) by (simp add: apart_def)
  have i: "i < n" using assms(2) False by (cases bs) simp_all
  have at: "unat (b + word_of_nat i) = unat b + i" using b i by (rule extent_bytes)
  have len: "unat (word_of_nat (length bs) :: u64) = length bs" "unat (word_of_nat k :: u64) = k"
    using assms by (auto simp: apart_def intro!: unat_of_nat_u64)
  show ?thesis
  proof (rule bytes_store_apart)
    show "extent (b + word_of_nat i) (word_of_nat (length bs)) \<inter> extent a (word_of_nat k) = {}"
      using assms by (auto simp: apart_def extent_def at len)
  qed (use assms at in \<open>auto simp: apart_def\<close>)
qed simp

lemma name_chars_from:
  assumes "apart sec 32 filename 256" and "bytes m sec 32 = s" and "j \<le> 15" and "i \<le> 255"
  shows "name_chars sec filename len (word_of_nat j) (word_of_nat i) m =
    (let t = take (unat len - i) (drop j (name_part s)) in
     (word_of_nat (i + length t), store (filename + word_of_nat i) t m))"
  using assms(2-4)
proof (induction "15 - j" arbitrary: i j m)
  case 0
  then show ?case by (subst name_chars.simps) (simp add: name_part_def)
next
  case (Suc x)
  then have j: "j < 15" by simp
  have len: "unat len < 256" using unsigned_less [of len, where ?'a = nat] by simp
  have wj: "(word_of_nat j :: u64) < 15" using j by (simp add: word_less_nat_alt unat_of_nat_u64)
  have wi: "ucast len \<le> (word_of_nat i :: u64) \<longleftrightarrow> unat len \<le> i"
    using Suc.prems len by (simp add: word_le_nat_alt unat_of_nat_u64 unsigned_ucast_eq take_bit_nat_eq_self)
  show ?case
  proof (cases "unat len \<le> i")
    case True
    then show ?thesis using wj wi by (subst name_chars.simps) simp
  next
    case False
    let ?c = "name_part s ! j" and ?m = "m(filename + word_of_nat i := name_part s ! j)"
    let ?t = "take (unat len - (i + 1)) (drop (j + 1) (name_part s))"
    have "m (sec + word_of_nat (2 + 2 * j)) = s ! (2 + 2 * j)"
      by (rule byte_at [OF Suc.prems(1)]) (use j in simp)
    then have c: "ucast (read_u16_le m sec (2 + word_of_nat j * 2)) = ?c"
      using j by (simp add: low_byte name_part_def mult.commute add.assoc)
    have "bytes (store (filename + word_of_nat i) [?c] m) sec 32 = s"
      using apart_bytes [OF assms(1), of i "[?c]" m] Suc.prems by simp
    then have "bytes ?m sec 32 = s" using store_snoc [of "[]" "filename + word_of_nat i" ?c m] by simp
    then have ih: "name_chars sec filename len (word_of_nat (j + 1)) (word_of_nat (i + 1)) ?m =
        (word_of_nat (i + 1 + length ?t), store (filename + word_of_nat (i + 1)) ?t ?m)"
      using Suc.hyps(1) [of "j + 1" ?m "i + 1"] Suc.hyps(2) False len j by (simp add: Let_def)
    have t: "take (unat len - i) (drop j (name_part s)) = ?c # ?t"
      using False j by (simp add: take_Cons' Cons_nth_drop_Suc [symmetric] name_part_def del: map_map upt_rec_numeral)
    have "store (filename + word_of_nat i + 1) ?t ?m = store (filename + word_of_nat i) (?c # ?t) m"
      using len by (intro store_Cons) simp
    then show ?thesis
      using ih wj wi False by (subst name_chars.simps) (simp add: c t add.commute add.left_commute)
  qed
qed

lemma name_chars_ok:
  assumes "apart sec 32 filename 256" and "bytes m sec 32 = s" and "i \<le> 255"
  shows "name_chars sec filename len 0 (word_of_nat i) m =
    (let t = take (unat len - i) (name_part s) in (word_of_nat (i + length t), store (filename + word_of_nat i) t m))"
  using name_chars_from [OF assms(1,2), of 0 i len] assms(3) by simp

text \<open>The state of the loop over the secondary entries: the bytes of the name so far are at the start of its
  buffer, and nothing else in memory has changed since \<open>m0\<close>.\<close>

definition entry_state :: "exfat_file \<Rightarrow> exfat_instance \<Rightarrow> u64 \<Rightarrow> memory \<Rightarrow> dirent \<Rightarrow> u64 \<times> exfat_file \<times> memory \<Rightarrow> bool" where
  "entry_state raw fs filename m0 d st \<longleftrightarrow>
     length (de_chars d) \<le> 255 \<and>
     st = (word_of_nat (length (de_chars d)), as_file raw fs d, store filename (de_chars d) m0)"

lemma as_file_stream:
  "(as_file raw fs d)\<lparr>name_length := st_name_length st, name_hash := st_hash st, f_flags := st_flags st,
      valid_data_length := st_valid st, first_cluster := st_first st, data_length := st_length st\<rparr> =
   as_file raw fs (d\<lparr>de_stream := Some st\<rparr>)"
  by (cases "de_stream d") (simp_all add: as_file_def)

lemma as_file_fields:
  "unat (name_length (as_file raw fs d)) = name_limit d" "attributes (as_file raw fs d) = de_attributes d"
  "first_cluster (as_file raw fs d) = de_first d" "f_fs (as_file raw fs d) = fs"
  by (cases "de_stream d"; simp add: as_file_def name_limit_def de_first_def)+

lemma as_file_chars: "as_file raw fs (d\<lparr>de_chars := t\<rparr>) = as_file raw fs d"
  by (cases "de_stream d") (simp_all add: as_file_def)

lemma secondary_entry_ok:
  assumes a: "apart sec 32 filename 256" and m0: "bytes m0 sec 32 = s" and st: "entry_state raw fs filename m0 d st"
  shows "entry_state raw fs filename m0 (add_secondary d s) (secondary_entry sec filename st)"
proof -
  let ?n = "length (de_chars d)" and ?m = "store filename (de_chars d) m0"
  have n: "?n \<le> 255" and st: "st = (word_of_nat ?n, as_file raw fs d, ?m)" using st by (simp_all add: entry_state_def)
  have m: "bytes ?m sec 32 = s" using apart_bytes [OF a, of 0 "de_chars d" m0] n m0 by simp
  have b: "?m sec = s ! 0" "?m (sec + 1) = s ! 1" "?m (sec + 3) = s ! 3"
    using byte_at [OF m, of 0] byte_at [OF m, of 1] byte_at [OF m, of 3] by simp_all
  show ?thesis
  proof (cases "s ! 0 = 0xC0")
    case True
    have "secondary_entry sec filename st = (word_of_nat ?n, as_file raw fs (d\<lparr>de_stream := Some (parse_stream s)\<rparr>), ?m)"
      using True unfolding st as_file_stream [symmetric]
      by (simp add: secondary_entry_def Let_def b field_at [OF m] parse_stream_def)
    then show ?thesis using True n by (simp add: entry_state_def add_secondary_def)
  next
    case no_stream: False
    show ?thesis
    proof (cases "s ! 0 = 0xC1")
      case True
      let ?t = "take (name_limit d - ?n) (name_part s)"
      have "name_limit d < 256" unfolding as_file_fields(1) [of raw fs d, symmetric]
        using unsigned_less [of "name_length (as_file raw fs d)", where ?'a = nat] by simp
      moreover have "length ?t \<le> name_limit d - ?n" by simp
      ultimately have len: "?n + length ?t \<le> 255" using n by linarith
      have "store (filename + word_of_nat ?n) ?t ?m = store filename (de_chars d @ ?t) m0"
        using len by (intro store_append) simp
      then have "secondary_entry sec filename st = (word_of_nat (?n + length ?t), as_file raw fs d, store filename (de_chars d @ ?t) m0)"
        using True name_chars_ok [OF a m n, of "name_length (as_file raw fs d)"] unfolding st
        by (simp add: secondary_entry_def Let_def b as_file_fields(1) del: of_nat_add)
      then show ?thesis using True len by (simp add: entry_state_def add_secondary_def as_file_chars del: of_nat_add)
    next
      case False
      then show ?thesis using no_stream n unfolding st by (simp add: secondary_entry_def Let_def b entry_state_def add_secondary_def)
    qed
  qed
qed

lemma read_secondaries_ok:
  assumes a: "\<And>f. f < unat cnt \<Longrightarrow> apart (buffer + (i + 1 + word_of_nat f) * 32) 32 filename 256"
    and m0: "\<And>f. f < unat cnt \<Longrightarrow> bytes m0 (buffer + (i + 1 + word_of_nat f) * 32) 32 = ss ! f"
    and len: "length ss = unat cnt"
  shows "entry_state raw fs filename m0 (parse_set e ss)
     (read_secondaries buffer i cnt filename
       (raw\<lparr>f_fs := fs, attributes := word_of_nat (le_field e 4 2), name_length := 0, first_cluster := 0, data_length := 0\<rparr>) m0)"
proof -
  let ?d0 = "\<lparr>de_attributes = word_of_nat (le_field e 4 2), de_stream = None, de_chars = []\<rparr> :: dirent"
  have c: "unat (ucast cnt :: u64) = unat cnt"
    using unsigned_less [of cnt, where ?'a = nat] by (simp add: unsigned_ucast_eq take_bit_nat_eq_self)
  let ?P = "\<lambda>j. entry_state raw fs filename m0 (foldl add_secondary ?d0 (take j ss))"
  have "?P (unat (ucast cnt :: u64)) (read_secondaries buffer i cnt filename
       (raw\<lparr>f_fs := fs, attributes := word_of_nat (le_field e 4 2), name_length := 0, first_cluster := 0, data_length := 0\<rparr>) m0)"
    unfolding read_secondaries_def
  proof (rule for_u64_rule [where P = ?P])
    fix j st assume "j < unat (ucast cnt :: u64)" "?P j st"
    then show "?P (Suc j) (secondary_entry (buffer + (i + 1 + word_of_nat j) * 32) filename st)"
      using secondary_entry_ok [OF a m0, of j] len by (simp add: c take_Suc_conv_app_nth)
  qed (simp_all add: entry_state_def as_file_def)
  then show ?thesis by (simp add: c len parse_set_def)
qed

end
