(* ===== verification/Exfat_Scan.thy ===== *)
theory Exfat_Scan
  imports Exfat_Dir
begin

text \<open>
  The search of a cluster: the routine that works on the cluster's buffer and on fresh blocks of the heap
  yields what \<open>scan_for\<close> says of the cluster's bytes.
\<close>

section \<open>Memory that a routine may change\<close>

text \<open>\<open>m'\<close> differs from \<open>m\<close> only in memory that is not in use on the heap \<open>h\<close>.\<close>

abbreviation quiet :: "heap \<Rightarrow> memory \<Rightarrow> memory \<Rightarrow> bool" where
  "quiet h \<equiv> calm (heap_free h)"

lemma quiet_store:
  assumes "{unat p..<unat p + length bs} \<subseteq> heap_free h" and "unat p + length bs < 2 ^ 64"
  shows "quiet h m (store p bs m)"
  unfolding calm_def
proof (intro allI impI)
  fix x :: u64 assume "unat x \<notin> heap_free h"
  then have "unat x \<notin> {unat p..<unat p + length bs}" using assms(1) by blast
  then show "store p bs m x = m x" using assms(2) by (intro store_elsewhere) auto
qed

lemma extent_small: "n < 2 ^ 64 \<Longrightarrow> extent p (word_of_nat n) = {unat p..<unat p + n}"
  by (simp add: extent_def unat_of_nat_u64)

section \<open>Strings\<close>

lemma holds_prefix:
  assumes "\<And>j. j \<le> length t \<Longrightarrow> a (word_of_nat j) = (t @ [0]) ! j" and "length t < 2 ^ 64"
  shows "holds_string a (takeWhile (\<lambda>b. b \<noteq> 0) t)"
proof -
  let ?s = "takeWhile (\<lambda>b. b \<noteq> 0) t"
  have le: "length ?s \<le> length t" by (rule length_takeWhile_le)
  have "(t @ [0]) ! length ?s = 0"
  proof (cases "length ?s < length t")
    case True
    then show ?thesis using nth_length_takeWhile [OF True] by (simp add: nth_append)
  next
    case False
    then show ?thesis using le by (simp add: nth_append)
  qed
  moreover have "(t @ [0]) ! j = ?s ! j" if "j < length ?s" for j
    using that le by (simp add: nth_append takeWhile_nth)
  moreover have "\<forall>x \<in> set ?s. x \<noteq> 0" by (auto dest: set_takeWhileD)
  ultimately show ?thesis using assms le by (auto simp: holds_string_def list_all_iff)
qed

lemma array_of_name:
  assumes "0 \<notin> set t" and "length t < 256"
  shows "holds_string (array_of t) t"
proof -
  have "unat (word_of_nat j :: u64) = j" if "j \<le> length t" for j
    using that assms(2) by (intro unat_of_nat_u64) simp
  then show ?thesis using assms by (auto simp: holds_string_def array_of_def list_all_iff)
qed

lemma strcmp_names:
  assumes "holds_string a s" and "holds_string b t"
  shows "\<exists>r. strcmp a b = Some r \<and> (r = 0 \<longleftrightarrow> s = t)"
  using strcmp_from_spec [OF assms, of 0] by (auto simp: strcmp_def)

section \<open>One file\<close>

text \<open>A cluster in its buffer, on a heap with room for a file structure and a name.\<close>

definition cluster_in :: "heap \<Rightarrow> u64 \<Rightarrow> u8 list \<Rightarrow> memory \<Rightarrow> bool" where
  "cluster_in h buffer cb m \<longleftrightarrow>
     heap_inv h \<and> room h (needed_blocks h sizeof_exfat_file + needed_blocks h 256) \<and>
     unat buffer + length cb < 2 ^ 64 \<and> {unat buffer..<unat buffer + length cb} \<subseteq> heap_used h \<and>
     bytes m buffer (length cb) = cb"

lemma cluster_inD:
  assumes "cluster_in h buffer cb m"
  shows "heap_inv h" "room h (needed_blocks h sizeof_exfat_file + needed_blocks h 256)"
    "unat buffer + length cb < 2 ^ 64" "{unat buffer..<unat buffer + length cb} \<subseteq> heap_used h"
    "bytes m buffer (length cb) = cb"
  using assms by (simp_all add: cluster_in_def)

lemma cluster_in_quiet: "cluster_in h buffer cb m \<Longrightarrow> quiet h m m' \<Longrightarrow> cluster_in h buffer cb m'"
  using bytes_calm [of "heap_free h" m m' buffer "length cb"] by (auto simp: cluster_in_def heap_free_def)

lemma length_entries [simp]: "length (entries_of cb) = length cb div 32"
  by (simp add: entries_of_def)

lemma entry_end: "x < n div 32 \<Longrightarrow> 32 * x + 32 \<le> (n :: nat)"
  by linarith

lemma entry_bytes:
  assumes "bytes m buffer (length cb) = cb" and "i < length cb div 32"
  shows "bytes m (buffer + word_of_nat (32 * i)) 32 = entries_of cb ! i"
proof -
  have "32 * i + 32 \<le> length cb" using assms(2) by linarith
  from bytes_window [OF this, of m buffer] show ?thesis
    using assms by (simp add: entries_of_def)
qed

lemma entry_first:
  "bytes m p 32 = e \<Longrightarrow> m p = e ! 0" "bytes m p 32 = e \<Longrightarrow> m (p + 1) = e ! 1"
  using byte_at [of m p e 0] byte_at [of m p e 1] by simp_all

text \<open>What \<open>try_entry\<close> leaves: the name's bytes in a block of the heap, and room as long as there
  was some for \<open>c\<close> more blocks.\<close>

definition file_granted :: "(u64 \<Rightarrow> exfat_file) \<Rightarrow> exfat_instance \<Rightarrow> nat \<Rightarrow> heap \<Rightarrow> dirent \<Rightarrow> u64 \<Rightarrow> exfat_file \<Rightarrow> heap \<Rightarrow> memory \<Rightarrow> bool" where
  "file_granted raw fs c h d p f h' m \<longleftrightarrow>
     f = (as_file (raw p) fs d)\<lparr>f_path := f_path f\<rparr> \<and> holds_string (at m (f_path f)) (de_name d) \<and>
     (\<exists>h1. grant h sizeof_exfat_file p h1 \<and> grant h1 256 (f_path f) h') \<and>
     leaves_room h (c + (needed_blocks h sizeof_exfat_file + needed_blocks h 256)) h'"

lemma try_entry_ok:
  fixes k :: "'z manager_scheme"
  assumes k: "root_heap k = Some h" and c: "cluster_in h buffer cb (mem k)"
    and i: "i < length cb div 32" "e = entries_of cb ! i" "i + unat (e ! 1) < length cb div 32"
    and name: "0 \<notin> set name" "length name < 256"
  defines "d \<equiv> parse_set e (take (unat (e ! 1)) (drop (i + 1) (entries_of cb)))"
  shows "\<exists>m'. quiet h (mem k) m' \<and>
    (if de_name d = name
     then \<exists>p f h'. try_entry raw fs buffer name (word_of_nat i) k = Inr (Some (p, f), k\<lparr>root_heap := Some h', mem := m'\<rparr>) \<and>
            file_granted raw fs 0 h d p f h' m'
     else try_entry raw fs buffer name (word_of_nat i) k = Inr (None, k\<lparr>mem := m'\<rparr>))"
proof -
  note c' = cluster_inD [OF c]
  obtain p h1 where p: "kalloc sizeof_exfat_file k = Inr (p, k\<lparr>root_heap := Some h1\<rparr>)" "grant h sizeof_exfat_file p h1"
    "room h1 (needed_blocks h 256)"
    by (rule kalloc_first [OF k c'(1,2)]) (simp_all add: sizeof_exfat_file_def)
  have room: "room h1 (needed_blocks h1 256 + 0)" using p(3) grant_blocks [OF p(2)] by simp
  obtain q h2 where q: "kalloc 256 (k\<lparr>root_heap := Some h1\<rparr>) = Inr (q, k\<lparr>root_heap := Some h2\<rparr>)" "grant h1 256 q h2"
    by (rule kalloc_first [of "k\<lparr>root_heap := Some h1\<rparr>", OF _ grantD(1) [OF p(2)] room]) simp_all
  note gp = grantD [OF p(2)] and gq = grantD [OF q(2)]
  have "leaves_room h (needed_blocks h sizeof_exfat_file) h1"
    by (rule kalloc_leaves [OF k c'(1) _ _ p(1)]) (simp_all add: sizeof_exfat_file_def)
  moreover have "leaves_room h1 (needed_blocks h1 256) h2"
    using q(1) by (intro kalloc_leaves [of "k\<lparr>root_heap := Some h1\<rparr>" h1 256 q, OF _ gp(1)]) simp_all
  ultimately have left: "leaves_room h (needed_blocks h sizeof_exfat_file + needed_blocks h 256) h2"
    using leaves_room_trans grant_blocks [OF p(2)] by metis
  have q256: "{unat q..<unat q + 256} \<subseteq> heap_free h" "unat q + 256 < 2 ^ 64"
    using grant_in_free(1) [OF gp(1) q(2)] grant_in_free(2) [OF c'(1) p(2)] gq(7) by (auto simp: extent_def)
  let ?n = "length cb div 32" and ?cnt = "e ! 1"
  have at_i: "bytes (mem k) (buffer + word_of_nat (32 * j)) 32 = entries_of cb ! j" if "j < ?n" for j
    using c'(5) that by (rule entry_bytes)
  have e0: "bytes (mem k) (buffer + word_of_nat i * 32) 32 = e" using at_i [OF i(1)] i(2) by (simp add: mult.commute)
  note ef = entry_first [OF e0] field_at(1) [OF e0]
  have pos: "buffer + (word_of_nat i + 1 + word_of_nat f) * 32 = buffer + word_of_nat (32 * (i + 1 + f))" for f
    by (simp add: algebra_simps)
  have apart: "apart (buffer + (word_of_nat i + 1 + word_of_nat f) * 32) 32 q 256" if "f < unat ?cnt" for f
  proof -
    have "i + 1 + f < length cb div 32" using that i(3) by simp
    then have lt: "32 * (i + 1 + f) + 32 \<le> length cb" by (rule entry_end)
    then have at: "unat (buffer + word_of_nat (32 * (i + 1 + f))) = unat buffer + 32 * (i + 1 + f)"
      by (intro extent_bytes [OF c'(3)]) linarith
    have "{unat buffer..<unat buffer + length cb} \<inter> {unat q..<unat q + 256} = {}"
      using c'(4) q256(1) unfolding heap_free_def by blast
    moreover have "{unat buffer + 32 * (i + 1 + f)..<unat buffer + 32 * (i + 1 + f) + 32} \<subseteq> {unat buffer..<unat buffer + length cb}"
      using lt by auto
    ultimately have "{unat buffer + 32 * (i + 1 + f)..<unat buffer + 32 * (i + 1 + f) + 32} \<inter> {unat q..<unat q + 256} = {}"
      by blast
    moreover have "unat buffer + 32 * (i + 1 + f) + 32 < 2 ^ 64" using lt c'(3) by linarith
    ultimately show ?thesis using q256(2) unfolding pos apart_def at by blast
  qed
  define ss where "ss = take (unat ?cnt) (drop (i + 1) (entries_of cb))"
  have len: "length ss = unat ?cnt" using i(3) by (simp add: ss_def)
  have sec: "bytes (mem k) (buffer + (word_of_nat i + 1 + word_of_nat f) * 32) 32 = ss ! f" if "f < unat ?cnt" for f
    unfolding pos using that i(3) by (subst at_i) (simp_all add: ss_def)
  have d: "d = parse_set e ss" by (simp add: d_def ss_def)
  let ?f0 = "(raw p)\<lparr>f_fs := fs, attributes := word_of_nat (le_field e 4 2), name_length := 0, first_cluster := 0, data_length := 0\<rparr>"
  have es: "entry_state (raw p) fs q (mem k) d (read_secondaries buffer (word_of_nat i) ?cnt q ?f0 (mem k))"
    unfolding d using apart sec len by (rule read_secondaries_ok)
  let ?t = "de_chars d" let ?m = "store q (?t @ [0]) (mem k)" let ?k3 = "k\<lparr>root_heap := Some h2, mem := ?m\<rparr>"
  have t: "length ?t \<le> 255" "read_secondaries buffer (word_of_nat i) ?cnt q ?f0 (mem k) =
      (word_of_nat (length ?t), as_file (raw p) fs d, store q ?t (mem k))" using es by (simp_all add: entry_state_def)
  have "(store q ?t (mem k))(q + word_of_nat (length ?t) := 0) = ?m"
    using t(1) by (intro store_snoc [symmetric]) simp
  then have k3: "upd_mem (\<lambda>_. (store q ?t (mem k))(q + word_of_nat (length ?t) := 0)) (k\<lparr>root_heap := Some h2\<rparr>) = ?k3"
    by (simp add: upd_mem_def)
  have "?m (q + word_of_nat j) = (?t @ [0]) ! j" if "j \<le> length ?t" for j
    using store_in [of j "?t @ [0]" q "mem k"] that t(1) by simp
  then have str: "holds_string (at ?m q) (de_name d)"
    unfolding de_name_def using t(1) by (intro holds_prefix) simp_all
  obtain r where r: "strcmp (at ?m q) (array_of name) = Some r" "r = 0 \<longleftrightarrow> de_name d = name"
    using strcmp_names [OF str array_of_name [OF name]] by blast
  have quiet: "quiet h (mem k) ?m" using q256 t(1) by (intro quiet_store) auto
  have free: "kfree q ?k3 = Inr (k\<lparr>root_heap := Some h1, mem := ?m\<rparr>)"
    "kfree p (k\<lparr>root_heap := Some h1, mem := ?m\<rparr>) = Inr (k\<lparr>mem := ?m\<rparr>)"
    using gq(3) gp(3) k by (simp_all add: kfree_def)
  have run: "try_entry raw fs buffer name (word_of_nat i) k =
      (if r = 0 then Inr (Some (p, (as_file (raw p) fs d)\<lparr>f_path := q\<rparr>), ?k3) else Inr (None, k\<lparr>mem := ?m\<rparr>))"
    using gp(2) free
    by (simp add: try_entry_def p(1) q(1) ef t(2) k3 r(1) Let_def del: of_nat_add One_nat_def)
  have "file_granted raw fs 0 h d p ((as_file (raw p) fs d)\<lparr>f_path := q\<rparr>) h2 ?m"
    using p(2) q(2) str left by (auto simp: file_granted_def)
  then show ?thesis
    using quiet run r(2) by (intro exI [of _ ?m]) auto
qed

section \<open>All entries of a cluster\<close>

definition scan_result ::
  "(u64 \<Rightarrow> exfat_file) \<Rightarrow> exfat_instance \<Rightarrow> heap \<Rightarrow> 'z manager_scheme \<Rightarrow> scan \<Rightarrow> (dir_scan \<times> 'z manager_scheme) result \<Rightarrow> bool" where
  "scan_result raw fs h k r res \<longleftrightarrow>
     (\<exists>m'. quiet h (mem k) m' \<and>
       (case r of
          Scan_end \<Rightarrow> res = Inr (Dir_end, k\<lparr>mem := m'\<rparr>)
        | Scan_more \<Rightarrow> res = Inr (Dir_more, k\<lparr>mem := m'\<rparr>)
        | Scan_found d \<Rightarrow>
            (\<exists>p f h'. res = Inr (Dir_found p f, k\<lparr>root_heap := Some h', mem := m'\<rparr>) \<and> file_granted raw fs 0 h d p f h' m')))"

lemma scan_found:
  assumes "quiet h (mem k) m'" and "file_granted raw fs 0 h d p f h' m'"
  shows "scan_result raw fs h k (Scan_found d) (Inr (Dir_found p f, k\<lparr>root_heap := Some h', mem := m'\<rparr>))"
  using assms by (auto simp: scan_result_def)

lemma scan_result_after:
  assumes "quiet h (mem k) m" and "scan_result raw fs h (k\<lparr>mem := m\<rparr>) r res"
  shows "scan_result raw fs h k r res"
  using assms(2) calm_trans [OF assms(1)] by (cases r; simp add: scan_result_def) blast+

lemma scan_entries_ok:
  fixes k :: "'z manager_scheme"
  assumes "root_heap k = Some h" and "cluster_in h buffer cb (mem k)" and "0 \<notin> set name" "length name < 256"
    and "i \<le> length cb div 32" and "scan_for name (drop i (entries_of cb)) = Some r"
  shows "scan_result raw fs h k r (scan_entries raw fs buffer name (word_of_nat (length cb div 32)) (word_of_nat i) k)"
  using assms(1,2,5,6)
proof (induction "length cb div 32 - i" arbitrary: i k)
  case 0
  then show ?case
    by (subst scan_entries.simps) (auto simp: scan_result_def intro!: exI [of _ "mem k"])
next
  case (Suc x)
  let ?n = "length cb div 32" and ?es = "entries_of cb"
  have i: "i < ?n" using Suc.hyps(2) by simp
  note c = cluster_inD [OF Suc.prems(2)]
  have n64: "?n < 2 ^ 64" using c(3) by linarith
  have lt: "(word_of_nat i :: u64) < word_of_nat ?n" using i n64 by (simp add: word_less_nat_alt unat_of_nat_u64)
  define e where "e = ?es ! i"
  have "bytes (mem k) (buffer + word_of_nat (32 * i)) 32 = e" using c(5) i unfolding e_def by (rule entry_bytes)
  then have "bytes (mem k) (buffer + word_of_nat i * 32) 32 = e" by (simp add: mult.commute)
  note kind = entry_first(1) [OF this]
  have rest: "drop i ?es = e # drop (i + 1) ?es" using i by (simp add: e_def Cons_nth_drop_Suc)
  have next_i: "word_of_nat i + 1 = (word_of_nat (i + 1) :: u64)" by simp
  have self: "k\<lparr>mem := mem k\<rparr> = k" by simp
  have IH: "scan_result raw fs h k' r (scan_entries raw fs buffer name (word_of_nat ?n) (word_of_nat (i + 1)) k')"
    if "root_heap k' = Some h" "cluster_in h buffer cb (mem k')" "scan_for name (drop (i + 1) ?es) = Some r" for k' :: "'z manager_scheme"
    using Suc.hyps(2) i by (intro Suc.hyps(1) [of "i + 1" k'] that) simp_all
  note step = scan_entries.simps [of raw fs buffer name "word_of_nat ?n" "word_of_nat i" k, unfolded kind next_i]
  consider "e ! 0 = 0" | "e ! 0 \<noteq> 0" "e ! 0 \<noteq> 0x85" | "e ! 0 = 0x85" by blast
  then show ?case
  proof cases
    case 1
    then show ?thesis
      using Suc.prems(4) lt unfolding step rest by (auto simp: scan_result_def self intro!: exI [of _ "mem k"])
  next
    case 2
    then show ?thesis using IH [OF Suc.prems(1,2)] Suc.prems(4) lt unfolding step rest by (simp del: of_nat_Suc of_nat_add)
  next
    case 3
    then have inside: "i + unat (e ! 1) < ?n"
      using Suc.prems(4) i unfolding rest by (auto split: if_splits)
    let ?d = "parse_set e (take (unat (e ! 1)) (drop (i + 1) ?es))"
    obtain m' where m': "quiet h (mem k) m'" "if de_name ?d = name
        then \<exists>p f h'. try_entry raw fs buffer name (word_of_nat i) k = Inr (Some (p, f), k\<lparr>root_heap := Some h', mem := m'\<rparr>) \<and>
               file_granted raw fs 0 h ?d p f h' m'
        else try_entry raw fs buffer name (word_of_nat i) k = Inr (None, k\<lparr>mem := m'\<rparr>)"
      using try_entry_ok [OF Suc.prems(1,2) i e_def inside assms(3,4)] by blast
    show ?thesis
    proof (cases "de_name ?d = name")
      case True
      then have "r = Scan_found ?d" using Suc.prems(4) 3 inside unfolding rest by (auto simp: Let_def split: if_splits)
      then show ?thesis using True m' 3 lt unfolding step by (auto intro: scan_found)
    next
      case False
      then have more: "scan_for name (drop (i + 1) ?es) = Some r"
        using Suc.prems(4) 3 inside unfolding rest by (auto simp: Let_def split: if_splits)
      have "cluster_in h buffer cb m'" using Suc.prems(2) m'(1) by (rule cluster_in_quiet)
      then have "scan_result raw fs h (k\<lparr>mem := m'\<rparr>) r
          (scan_entries raw fs buffer name (word_of_nat ?n) (word_of_nat (i + 1)) (k\<lparr>mem := m'\<rparr>))"
        using Suc.prems(1) more by (intro IH) simp_all
      from scan_result_after [OF m'(1) this] show ?thesis
        using False m'(2) 3 lt unfolding step by (simp del: of_nat_Suc of_nat_add)
    qed
  qed
qed

end
