(* ===== verification/Exfat_Find.thy ===== *)
theory Exfat_Find
  imports Exfat_Scan
begin

text \<open>
  The lookup of a path on a device that is ready: the search of a directory's clusters yields what
  \<open>dir_search\<close> says, and \<^verbatim>\<open>EXFAT_open_file\<close> what \<open>resolve\<close> says.
\<close>

section \<open>One directory\<close>

text \<open>The search of a directory: a buffer for one cluster has been granted on the heap \<open>h\<close>, and what is
  left has room for a file and its name, or for a sector. The heap is away from \<open>S\<close>, the memory that the driver of the disk
  owns.\<close>

abbreviation cluster_blocks :: "heap \<Rightarrow> exfat_instance \<Rightarrow> nat" where
  "cluster_blocks h fs \<equiv> needed_blocks h (512 * word_of_nat (cluster_sectors fs))"

definition searching :: "nat set \<Rightarrow> exfat_instance \<Rightarrow> heap \<Rightarrow> u64 \<Rightarrow> heap \<Rightarrow> bool" where
  "searching S fs h buffer h1 \<longleftrightarrow>
     geometry_ok fs \<and> heap_inv h \<and> away h S \<and> grant h (512 * word_of_nat (cluster_sectors fs)) buffer h1 \<and>
     leaves_room h (cluster_blocks h fs) h1 \<and>
     room h1 (needed_blocks h1 sizeof_exfat_file + needed_blocks h1 256) \<and> room h1 (needed_blocks h1 512)"

lemma searching_facts:
  assumes "searching S fs h buffer h1"
  shows "geometry_ok fs" "heap_inv h1" "away h1 S" "buffer \<noteq> 0" "unat buffer + cluster_size fs < 2 ^ 64"
    "{unat buffer..<unat buffer + cluster_size fs} \<inter> S = {}"
    "{unat buffer..<unat buffer + cluster_size fs} \<subseteq> heap_used h1"
    "{unat buffer..<unat buffer + cluster_size fs} \<subseteq> heap_free h"
    "heap_free h1 \<subseteq> heap_free h" "room h1 (needed_blocks h1 512)"
proof -
  have g: "geometry_ok fs" "heap_inv h" "grant h (512 * word_of_nat (cluster_sectors fs)) buffer h1"
    and S: "away h S" and room: "room h1 (needed_blocks h1 512)"
    using assms by (simp_all add: searching_def)
  note size = cluster_size_nat(1) [OF g(1)] and gd = grantD [OF g(3)] and free = grant_in_free [OF g(2,3)]
    and a = away_grant [OF g(2) S g(3)]
  show "geometry_ok fs" "heap_inv h1" "away h1 S" "buffer \<noteq> 0" "room h1 (needed_blocks h1 512)" by (fact g(1) gd(1,2) a(1) room)+
  show "unat buffer + cluster_size fs < 2 ^ 64" using gd(7) by (simp only: size)
  show "{unat buffer..<unat buffer + cluster_size fs} \<inter> S = {}" using a(2) by (simp only: extent_def size)
  show "{unat buffer..<unat buffer + cluster_size fs} \<subseteq> heap_used h1" using gd(6) by (simp only: extent_def size)
  show "{unat buffer..<unat buffer + cluster_size fs} \<subseteq> heap_free h" using free(1) by (simp only: extent_def size)
  show "heap_free h1 \<subseteq> heap_free h" by (rule free(2))
qed

lemma searching_cluster:
  assumes s: "searching S fs h buffer h1" and len: "length cb = cluster_size fs"
  shows "placed S buffer cb m m1 \<Longrightarrow> cluster_in h1 buffer cb m1"
    and "placed S buffer cb m m1 \<Longrightarrow> calm (heap_free h \<union> S) m m1"
    and "512 * word_of_nat (cluster_sectors fs) div 32 = (word_of_nat (length cb div 32) :: u64)"
proof -
  note f = searching_facts [OF s] and size = cluster_size_nat [OF searching_facts(1) [OF s]]
  show "cluster_in h1 buffer cb m1" if "placed S buffer cb m m1"
    using s f len that by (simp add: cluster_in_def searching_def placed_def)
  show "calm (heap_free h \<union> S) m m1" if "placed S buffer cb m m1"
    using f(8) len by (intro placed_calm [OF that]) auto
  have lt: "length cb div 32 < 2 ^ 64" using size(3) len by (simp add: div_less_iff_less_mult)
  show "512 * word_of_nat (cluster_sectors fs) div 32 = (word_of_nat (length cb div 32) :: u64)"
  proof (rule unat_inject)
    have "unat (512 * word_of_nat (cluster_sectors fs) div 32 :: u64) = length cb div 32"
      by (simp only: unat_div_distrib size(1) len) simp
    then show "unat (512 * word_of_nat (cluster_sectors fs) div 32 :: u64) = unat (word_of_nat (length cb div 32) :: u64)"
      by (simp only: unat_of_nat_u64 [OF lt])
  qed
qed

text \<open>What a search leaves, \<open>P\<close> being the condition of the device and \<open>F\<close> the memory that may change: \<open>None\<close> when the name is
  not in the directory.\<close>

definition search_result ::
  "(u64 \<Rightarrow> exfat_file) \<Rightarrow> exfat_instance \<Rightarrow> nat set \<Rightarrow> heap \<Rightarrow> ('z manager_scheme \<Rightarrow> bool) \<Rightarrow> 'z manager_scheme \<Rightarrow> dirent option \<Rightarrow>
     (dir_scan option \<times> 'z manager_scheme) result option \<Rightarrow> bool" where
  "search_result raw fs F h1 P k r res \<longleftrightarrow>
     (\<exists>m tr. calm F (mem k) m \<and> P (k\<lparr>mem := m, trace := tr\<rparr>) \<and>
       (case r of
          None \<Rightarrow> res = Some (Inr (Some Dir_end, k\<lparr>mem := m, trace := tr\<rparr>))
        | Some d \<Rightarrow>
            (\<exists>p f h'. res = Some (Inr (Some (Dir_found p f), k\<lparr>root_heap := Some h', mem := m, trace := tr\<rparr>)) \<and>
               file_granted raw fs 0 h1 d p f h' m)))"

lemma search_found:
  assumes "calm F (mem k) m" and "P (k\<lparr>mem := m, trace := tr\<rparr>)" and "file_granted raw fs 0 h1 d p f h' m"
  shows "search_result raw fs F h1 P k (Some d) (Some (Inr (Some (Dir_found p f), k\<lparr>root_heap := Some h', mem := m, trace := tr\<rparr>)))"
  using assms by (auto simp: search_result_def)

lemma search_missing:
  assumes "calm F (mem k) m" and "P (k\<lparr>mem := m, trace := tr\<rparr>)"
  shows "search_result raw fs F h1 P k None (Some (Inr (Some Dir_end, k\<lparr>mem := m, trace := tr\<rparr>)))"
  using assms by (auto simp: search_result_def)

lemma search_result_after:
  assumes "calm F (mem k) m" and "search_result raw fs F h1 P (k\<lparr>mem := m, trace := tr\<rparr>) r res"
  shows "search_result raw fs F h1 P k r res"
  using assms(2) calm_trans [OF assms(1)] by (cases r; simp add: search_result_def) blast+

context block_reader
begin

lemma search_directory_ok:
  fixes k :: "'z manager_scheme"
  assumes s: "searching own fs h buffer h1" and name: "0 \<notin> set name" "length name < 256"
    and "root_heap k = Some h1" and "ready (x_disk fs) k"
    and "dir_search (sector (x_disk fs)) fs name n c = Some r"
  shows "search_result raw fs (heap_free h \<union> own) h1 (ready (x_disk fs)) k r
     (search_directory rd raw fs buffer name 512 (word_of_nat (cluster_sectors fs)) c k)"
  using assms(4-6)
proof (induction n arbitrary: c k)
  case 0
  then show ?case by simp
next
  case (Suc n)
  let ?d = "x_disk fs" and ?cs = "word_of_nat (cluster_sectors fs) :: u64" and ?F = "heap_free h \<union> own"
  define cb where "cb = cluster_bytes (sector ?d) fs c"
  have len: "length cb = cluster_size fs"
    unfolding cb_def by (rule length_cluster_bytes) (rule sector_512 [OF Suc.prems(2)])
  note f = searching_facts [OF s] and cl = searching_cluster [OF s len]
  obtain m1 tr where tr: "read_sectors rd ?d (cluster_lba fs c) buffer 512 ?cs 0 k = Inr (True, k\<lparr>mem := m1, trace := tr\<rparr>)"
      "ready ?d (k\<lparr>mem := m1, trace := tr\<rparr>)" "placed own buffer cb (mem k) m1"
    using read_cluster_ok [OF Suc.prems(2) f(1,4,5,6)] unfolding cb_def by blast
  define k1 where "k1 = k\<lparr>mem := m1, trace := tr\<rparr>"
  let ?scan = "scan_entries raw fs buffer name (word_of_nat (length cb div 32)) 0 k1"
  have step: "search_directory rd raw fs buffer name 512 ?cs c k =
      (case ?scan of Inl f \<Rightarrow> Some (Inl f) | Inr (r, k2) \<Rightarrow>
        if r \<noteq> Dir_more then Some (Inr (Some r, k2))
        else (case EXFAT_get_fat_entry rd fs c k2 of Inl f \<Rightarrow> Some (Inl f) | Inr (next_cluster, k3) \<Rightarrow>
          if next_cluster \<ge> 0xFFFFFFF8 then Some (Inr (Some Dir_end, k3))
          else search_directory rd raw fs buffer name 512 ?cs next_cluster k3))"
    by (subst search_directory.simps) (simp add: tr(1) cl(3) geometry_shifts(3) [OF f(1)] k1_def)
  obtain sr where sr: "scan_for name (entries_of cb) = Some sr"
    using Suc.prems(3) by (auto simp: cb_def split: option.splits)
  have k1: "root_heap k1 = Some h1" "cluster_in h1 buffer cb (mem k1)" "calm ?F (mem k) (mem k1)"
    using Suc.prems(1) cl(1,2) [OF tr(3)] by (simp_all add: k1_def)
  have "scan_result raw fs h1 k1 sr ?scan"
    using scan_entries_ok [OF k1(1,2) name, of 0 sr] sr by simp
  then obtain m where m: "quiet h1 (mem k1) m" and res: "case sr of
      Scan_end \<Rightarrow> ?scan = Inr (Dir_end, k1\<lparr>mem := m\<rparr>)
    | Scan_more \<Rightarrow> ?scan = Inr (Dir_more, k1\<lparr>mem := m\<rparr>)
    | Scan_found d \<Rightarrow> (\<exists>p f h'. ?scan = Inr (Dir_found p f, k1\<lparr>root_heap := Some h', mem := m\<rparr>) \<and> file_granted raw fs 0 h1 d p f h' m)"
    unfolding scan_result_def by blast
  have same: "k1\<lparr>mem := m\<rparr> = k\<lparr>mem := m, trace := tr\<rparr>"
    "k1\<lparr>root_heap := H, mem := m\<rparr> = k\<lparr>root_heap := H, mem := m, trace := tr\<rparr>" for H
    by (simp_all add: k1_def)
  have qm: "calm ?F (mem k) m" using k1(3) m f(9) by (blast intro: calm_trans calm_mono)
  have "m x = mem k1 x" if "unat x \<in> own" for x
    using away_free [OF f(3)] that by (intro calmD [OF m]) blast
  then have ready: "ready ?d (k\<lparr>mem := m, trace := tr\<rparr>)" using tr(2) by (intro ready_same [OF tr(2)]) (simp_all add: k1_def)
  show ?case
  proof (cases sr)
    case Scan_end
    then have "r = None" using Suc.prems(3) sr by (simp add: cb_def)
    then show ?thesis using Scan_end res qm ready unfolding step by (simp add: same search_missing)
  next
    case (Scan_found e)
    then have "r = Some e" using Suc.prems(3) sr by (simp add: cb_def)
    then show ?thesis using Scan_found res qm ready unfolding step by (auto simp: same intro: search_found)
  next
    case Scan_more
    let ?v = "fat_value (sector ?d) fs c" and ?k2 = "k1\<lparr>mem := m\<rparr>"
    have k2: "ready ?d ?k2" "root_heap ?k2 = Some h1" using ready Suc.prems(1) by (simp_all add: same(1))
    obtain m2 tr' where e: "EXFAT_get_fat_entry rd fs c ?k2 = Inr (?v, ?k2\<lparr>mem := m2, trace := tr'\<rparr>)"
      "ready ?d (?k2\<lparr>mem := m2, trace := tr'\<rparr>)" "calm (heap_free h1 \<union> own) (mem ?k2) m2"
      using get_fat_entry_ok [OF k2(1) f(1) k2(2) f(2,3,10)] by blast
    have "calm ?F m m2" using e(3) f(9) by (auto intro: calm_mono)
    then have q: "calm ?F (mem k) m2" using qm calm_trans by blast
    have e2: "ready ?d (k\<lparr>mem := m2, trace := tr'\<rparr>)" using e(2) by (simp add: k1_def)
    have run: "search_directory rd raw fs buffer name 512 ?cs c k =
        (if 0xFFFFFFF8 \<le> ?v then Some (Inr (Some Dir_end, k\<lparr>mem := m2, trace := tr'\<rparr>))
         else search_directory rd raw fs buffer name 512 ?cs ?v (k\<lparr>mem := m2, trace := tr'\<rparr>))"
      using Scan_more res e(1) unfolding step by (simp add: k1_def)
    show ?thesis
    proof (cases "0xFFFFFFF8 \<le> ?v")
      case True
      then have "r = None" using Suc.prems(3) sr Scan_more by (simp add: cb_def)
      then show ?thesis using True q e2 run by (simp add: search_missing)
    next
      case False
      then have "dir_search (sector ?d) fs name n ?v = Some r" using Suc.prems(3) sr Scan_more by (simp add: cb_def)
      then have "search_result raw fs ?F h1 (ready ?d) (k\<lparr>mem := m2, trace := tr'\<rparr>) r
          (search_directory rd raw fs buffer name 512 ?cs ?v (k\<lparr>mem := m2, trace := tr'\<rparr>))"
        using Suc.prems(1) e2 by (intro Suc.IH) simp_all
      from search_result_after [OF q this] show ?thesis using False run by simp
    qed
  qed
qed

end

end
