(* ===== verification/Exfat_Open.thy ===== *)
theory Exfat_Open
  imports Exfat_Find
begin

text \<open>
  The walk along a path: \<^verbatim>\<open>EXFAT_open_file\<close> yields what \<open>resolve\<close> says of the path's components.
\<close>

section \<open>The path in memory\<close>

lemma holds_drop:
  assumes "holds_string (at m p) s" and "n \<le> length s"
  shows "holds_string (at m (p + word_of_nat n)) (drop n s)"
proof -
  note h = holds_stringD [OF assms(1)]
  have e: "p + (word_of_nat n + word_of_nat j) = p + word_of_nat (n + j)" for j by simp
  have "m (p + (word_of_nat n + word_of_nat (length (drop n s)))) = 0" using h(2) assms(2) unfolding e by simp
  moreover have "m (p + (word_of_nat n + word_of_nat j)) = drop n s ! j" if "j < length (drop n s)" for j
    using h(3) [of "n + j"] that unfolding e by simp
  ultimately show ?thesis
    using assms by (auto simp: holds_string_def list_all_iff add.assoc dest: in_set_dropD)
qed

lemma holds_first: "holds_string (at m p) s \<Longrightarrow> m p = (s @ [0]) ! 0"
  using holds_stringD(2) [of "at m p" s] holds_stringD(3) [of "at m p" s 0] by (cases s) simp_all

lemma holds_nonzero: "holds_string a s \<Longrightarrow> b \<in> set s \<Longrightarrow> b \<noteq> 0"
  by (auto simp: holds_string_def list_all_iff)

text \<open>A string outside the memory \<open>F\<close> that may change.\<close>

definition held :: "nat set \<Rightarrow> memory \<Rightarrow> u64 \<Rightarrow> u8 list \<Rightarrow> bool" where
  "held F m p s \<longleftrightarrow>
     holds_string (at m p) s \<and> list_all (\<lambda>j. unat (p + word_of_nat j) \<notin> F) [0..<Suc (length s)]"

abbreviation kept :: "heap \<Rightarrow> memory \<Rightarrow> u64 \<Rightarrow> u8 list \<Rightarrow> bool" where
  "kept h \<equiv> held (heap_free h)"

lemma heldD:
  assumes "held F m p s"
  shows "holds_string (at m p) s" and "j \<le> length s \<Longrightarrow> unat (p + word_of_nat j) \<notin> F"
  using assms by (auto simp: held_def list_all_iff simp del: upt_Suc)

lemma held_calm:
  assumes "held F m p s" and "calm F m m'"
  shows "held F m' p s"
proof -
  note h = heldD [OF assms(1)]
  have "m' (p + word_of_nat j) = m (p + word_of_nat j)" if "j \<le> length s" for j
    using h(2) [OF that] by (rule calmD [OF assms(2)])
  then show ?thesis using assms(1) by (auto simp: held_def holds_string_def list_all_iff simp del: upt_Suc)
qed

lemma held_drop:
  assumes "held F m p s" and "n \<le> length s"
  shows "held F m (p + word_of_nat n) (drop n s)"
proof -
  have "unat (p + word_of_nat n + word_of_nat j) \<notin> F" if "j \<le> length (drop n s)" for j
    using heldD(2) [OF assms(1), of "n + j"] that assms(2) by (simp add: add.assoc)
  then show ?thesis using holds_drop [OF heldD(1) [OF assms(1)] assms(2)]
    by (auto simp: held_def list_all_iff simp del: upt_Suc)
qed

lemma skip_slashes_ok:
  assumes "held F m p s"
  shows "\<exists>q. skip_slashes m p = Some q \<and> held F m q (dropWhile (\<lambda>b. b = 0x2F) s)"
  using assms
proof (induction s arbitrary: p)
  case Nil
  then have "m p = 0" using holds_first [OF heldD(1) [OF Nil]] by simp
  then show ?case using Nil by (subst skip_slashes.simps) simp
next
  case (Cons b s)
  have first: "m p = b" using holds_first [OF heldD(1) [OF Cons.prems]] by simp
  show ?case
  proof (cases "b = 0x2F")
    case True
    then show ?thesis using Cons.IH [of "p + 1"] held_drop [OF Cons.prems, of 1] first by (subst skip_slashes.simps) simp
  next
    case False
    then show ?thesis using Cons.prems first by (subst skip_slashes.simps) simp
  qed
qed

lemma copy_component_from:
  assumes "holds_string (at m p) s" and "length (takeWhile (\<lambda>b. b \<noteq> 0x2F) s) < 256"
    and "j \<le> length (takeWhile (\<lambda>b. b \<noteq> 0x2F) s)"
  shows "copy_component m p (take j (takeWhile (\<lambda>b. b \<noteq> 0x2F) s)) = Inr (takeWhile (\<lambda>b. b \<noteq> 0x2F) s)"
  using assms(3)
proof (induction "length (takeWhile (\<lambda>b. b \<noteq> 0x2F) s) - j" arbitrary: j)
  case 0
  let ?t = "takeWhile (\<lambda>b. b \<noteq> 0x2F) s"
  have "m (p + word_of_nat (length ?t)) = 0 \<or> m (p + word_of_nat (length ?t)) = 0x2F"
  proof (cases "length ?t < length s")
    case True
    then show ?thesis using holds_stringD(3) [OF assms(1) True] nth_length_takeWhile [OF True] by simp
  next
    case False
    then have "length ?t = length s" using length_takeWhile_le [of "\<lambda>b. b \<noteq> 0x2F" s] by linarith
    then show ?thesis using holds_stringD(2) [OF assms(1)] by simp
  qed
  then show ?case using 0 assms(2) by (subst copy_component.simps) (auto simp: Let_def)
next
  case (Suc x)
  let ?t = "takeWhile (\<lambda>b. b \<noteq> 0x2F) s"
  have j: "j < length ?t" using Suc.hyps(2) by simp
  then have js: "j < length s" using length_takeWhile_le [of "\<lambda>b. b \<noteq> 0x2F" s] by linarith
  have c: "m (p + word_of_nat j) = ?t ! j" "?t ! j \<noteq> 0" "?t ! j \<noteq> 0x2F"
    using holds_stringD(3,4) [OF assms(1) js] takeWhile_nth [OF j] nth_mem [OF j] by (auto dest: set_takeWhileD)
  have "copy_component m p (take (Suc j) ?t) = Inr ?t" using Suc.hyps(1) [of "Suc j"] Suc.hyps(2) j by simp
  then show ?case using c j assms(2) by (subst copy_component.simps) (simp add: Let_def take_Suc_conv_app_nth)
qed

lemma copy_component_ok:
  "holds_string (at m p) s \<Longrightarrow> length (takeWhile (\<lambda>b. b \<noteq> 0x2F) s) < 256 \<Longrightarrow>
   copy_component m p [] = Inr (takeWhile (\<lambda>b. b \<noteq> 0x2F) s)"
  using copy_component_from [of m p s 0] by simp

section \<open>One component\<close>

definition open_blocks :: "exfat_instance \<Rightarrow> heap \<Rightarrow> nat" where
  "open_blocks fs h =
     cluster_blocks h fs +
     max (needed_blocks h sizeof_exfat_file + needed_blocks h 256) (needed_blocks h 512)"

lemma open_setup:
  assumes "root_heap k = Some h" and "heap_inv h" and "geometry_ok fs" and "room h (open_blocks fs h)" and "away h S"
  obtains buffer h1 where "kalloc (512 * word_of_nat (cluster_sectors fs)) k = Inr (buffer, k\<lparr>root_heap := Some h1\<rparr>)"
    and "searching S fs h buffer h1"
proof -
  let ?c = "512 * word_of_nat (cluster_sectors fs) :: u64"
  let ?n = "max (needed_blocks h sizeof_exfat_file + needed_blocks h 256) (needed_blocks h 512)"
  note c = cluster_size_nat [OF assms(3)]
  have "?c \<noteq> 0" using c(1,2) by (metis less_irrefl unat_0)
  moreover have "unat ?c < 2 ^ 63" using c(1,3) by simp
  ultimately obtain buffer h1 where b: "kalloc ?c k = Inr (buffer, k\<lparr>root_heap := Some h1\<rparr>)" "grant h ?c buffer h1" "room h1 ?n"
    using assms(1,2,4) unfolding open_blocks_def by (metis kalloc_first)
  have "room h1 (needed_blocks h1 sizeof_exfat_file + needed_blocks h1 256)" "room h1 (needed_blocks h1 512)"
    unfolding grant_blocks [OF b(2)] by (rule room_mono [OF b(3)], simp)+
  moreover have "leaves_room h (cluster_blocks h fs) h1"
    by (rule kalloc_leaves [OF assms(1,2) \<open>?c \<noteq> 0\<close> \<open>unat ?c < 2 ^ 63\<close> b(1)])
  ultimately show thesis using b(1,2) assms(2,3,5) by (intro that) (simp_all add: searching_def)
qed

text \<open>The cluster's buffer is freed while the file stays.\<close>

lemma close_found:
  assumes s: "searching S fs h buffer h1" and k: "root_heap k = Some h3" and f: "file_granted raw fs 0 h1 d p f h3 m"
  obtains h5 where "kfree buffer k = Inr (k\<lparr>root_heap := Some h5\<rparr>)" and "file_granted raw fs (cluster_blocks h fs) h d p f h5 m"
proof -
  obtain h2 where g: "grant h1 sizeof_exfat_file p h2" "grant h2 256 (f_path f) h3"
    using f by (auto simp: file_granted_def)
  have "heap_inv h" "grant h (512 * word_of_nat (cluster_sectors fs)) buffer h1" using s by (simp_all add: searching_def)
  then obtain h4 h5 where e: "free h3 buffer = Inr h5" "grant h sizeof_exfat_file p h4" "grant h4 256 (f_path f) h5"
    "\<forall>n. room h3 n \<longrightarrow> room h5 n" by (rule free_first_of_three [OF _ _ g])
  have left: "leaves_room h (cluster_blocks h fs) h1" and n: "needed_blocks h1 = needed_blocks h"
    using s grant_blocks by (auto simp: searching_def)
  have "leaves_room h1 (needed_blocks h sizeof_exfat_file + needed_blocks h 256) h3" using f by (simp add: file_granted_def n)
  from leaves_room_trans [OF left this]
  have "leaves_room h (cluster_blocks h fs + (needed_blocks h sizeof_exfat_file + needed_blocks h 256)) h5"
    using e(4) by (simp add: leaves_room_def)
  then have "file_granted raw fs (cluster_blocks h fs) h d p f h5 m" using f e(2,3) by (auto simp: file_granted_def)
  then show thesis using kfree_root [OF k e(1)] that by blast
qed

text \<open>A directory on the way is freed again.\<close>

lemma drop_file:
  assumes "file_granted raw fs (cluster_blocks h fs) h d p f h' m" and "root_heap k = Some h'"
  shows "andthen (kfree (f_path f) k) (\<lambda>k4. andthen (kfree p k4) g) = g (k\<lparr>root_heap := Some h\<rparr>)"
proof -
  obtain h1 where h1: "grant h sizeof_exfat_file p h1" "grant h1 256 (f_path f) h'"
    using assms(1) by (auto simp: file_granted_def)
  have "kfree (f_path f) k = Inr (k\<lparr>root_heap := Some h1\<rparr>)" using assms(2) grantD(3) [OF h1(2)] by (rule kfree_root)
  moreover have "kfree p (k\<lparr>root_heap := Some h1\<rparr>) = Inr (k\<lparr>root_heap := Some h1, root_heap := Some h\<rparr>)"
    by (rule kfree_root, simp, simp add: grantD(3) [OF h1(1)])
  ultimately show ?thesis by simp
qed

lemma granted_fields:
  "file_granted raw fs (cluster_blocks h fs) h d p f h' m \<Longrightarrow> attributes f = de_attributes d \<and> first_cluster f = de_first d"
  by (metis (no_types, lifting) as_file_fields(2,3) file_granted_def exfat_file.select_convs exfat_file.surjective exfat_file.update_convs(1))

text \<open>What a component leaves, \<open>P\<close> being the condition of the device, \<open>F\<close> the memory that may change, \<open>goes_on\<close> telling that the
  path goes on at \<open>next_path\<close>.\<close>

definition component_result ::
  "(u64 \<Rightarrow> exfat_file) \<Rightarrow> exfat_instance \<Rightarrow> nat set \<Rightarrow> heap \<Rightarrow> ('z manager_scheme \<Rightarrow> bool) \<Rightarrow> 'z manager_scheme \<Rightarrow> bool \<Rightarrow> u64 \<Rightarrow>
     dirent option \<Rightarrow> (path_step \<times> 'z manager_scheme) result \<Rightarrow> bool" where
  "component_result raw fs F h P k goes_on next_path r res \<longleftrightarrow>
     (\<exists>m tr. calm F (mem k) m \<and> P (k\<lparr>mem := m, trace := tr\<rparr>) \<and>
       (case r of
          None \<Rightarrow> res = Inr (Return None, k\<lparr>mem := m, trace := tr\<rparr>)
        | Some d \<Rightarrow>
            if goes_on then
              res = Inr (if de_attributes d AND 0x0010 = 0 then Return None else Descend next_path (de_first d),
                         k\<lparr>mem := m, trace := tr\<rparr>)
            else (\<exists>p f h'. res = Inr (Return (Some (p, f)), k\<lparr>root_heap := Some h', mem := m, trace := tr\<rparr>) \<and>
                    file_granted raw fs (cluster_blocks h fs) h d p f h' m)))"

context block_reader
begin

lemma open_component_ok:
  fixes k :: "'z manager_scheme"
  defines "F \<equiv> \<lambda>h. heap_free h \<union> own"
  assumes k: "root_heap k = Some h" "heap_inv h" "away h own" "room h (open_blocks fs h)" and fs: "geometry_ok fs"
    and dev: "ready (x_disk fs) k" and path: "held (F h) (mem k) p s"
    and t: "t = takeWhile (\<lambda>b. b \<noteq> 0x2F) s" "length t < 256"
    and u: "u = dropWhile (\<lambda>b. b = 0x2F) (dropWhile (\<lambda>b. b \<noteq> 0x2F) s)"
    and r: "dir_search (sector (x_disk fs)) fs t n c = Some r"
  shows "\<exists>q. held (F h) (mem k) q u \<and>
    component_result raw fs (F h) h (ready (x_disk fs)) k (u \<noteq> []) q r (open_component rd raw fs p c k)"
proof -
  let ?cs = "word_of_nat (cluster_sectors fs) :: u64"
  have copy: "copy_component (mem k) p [] = Inr t" unfolding t(1)
    using heldD(1) [OF path] t by (intro copy_component_ok) simp_all
  have "drop (length t) s = dropWhile (\<lambda>b. b \<noteq> 0x2F) s" unfolding t(1) by (rule dropWhile_eq_drop [symmetric])
  moreover have "length t \<le> length s" unfolding t(1) by (rule length_takeWhile_le)
  ultimately have "held (F h) (mem k) (p + word_of_nat (length t)) (dropWhile (\<lambda>b. b \<noteq> 0x2F) s)"
    using held_drop [OF path] by metis
  then obtain q where q: "skip_slashes (mem k) (p + word_of_nat (length t)) = Some q" "held (F h) (mem k) q u"
    unfolding u using skip_slashes_ok by blast
  obtain buffer h1 where b: "kalloc (512 * ?cs) k = Inr (buffer, k\<lparr>root_heap := Some h1\<rparr>)" "searching own fs h buffer h1"
    using k(1,2) fs k(4,3) by (rule open_setup)
  let ?k1 = "k\<lparr>root_heap := Some h1\<rparr>"
  have t0: "0 \<notin> set t" using holds_nonzero [OF heldD(1) [OF path]] unfolding t(1) by (auto dest: set_takeWhileD)
  have "search_result raw fs (F h) h1 (ready (x_disk fs)) ?k1 r (search_directory rd raw fs buffer t 512 ?cs c ?k1)"
    unfolding F_def using ready_more(1) [OF dev] by (intro search_directory_ok [OF b(2) t0 t(2) _ _ r]) simp_all
  then obtain m tr where m: "calm (F h) (mem k) m" "ready (x_disk fs) (?k1\<lparr>mem := m, trace := tr\<rparr>)"
    and res: "case r of
        None \<Rightarrow> search_directory rd raw fs buffer t 512 ?cs c ?k1 = Some (Inr (Some Dir_end, ?k1\<lparr>mem := m, trace := tr\<rparr>))
      | Some d \<Rightarrow> \<exists>p f h'. search_directory rd raw fs buffer t 512 ?cs c ?k1 =
            Some (Inr (Some (Dir_found p f), ?k1\<lparr>root_heap := Some h', mem := m, trace := tr\<rparr>)) \<and> file_granted raw fs 0 h1 d p f h' m"
    unfolding search_result_def by auto
  have dev2: "ready (x_disk fs) (k\<lparr>mem := m, trace := tr\<rparr>)" using m(2) by (rule ready_same) simp_all
  note run = open_component_def [of rd raw fs p c k, unfolded copy, simplified, unfolded q(1) geometry_shifts(1,2) [OF fs], simplified,
      unfolded b(1), simplified]
  have same: "k\<lparr>mem := m, trace := tr, root_heap := Some h\<rparr> = k\<lparr>mem := m, trace := tr\<rparr>" using k(1) by (cases k) simp
  have more: "m q = 0 \<longleftrightarrow> u = []"
    using held_calm [OF q(2) m(1), THEN heldD(1)] holds_first [of m q u] holds_nonzero [of "at m q" u] by (cases u) auto
  show ?thesis
  proof (cases r)
    case None
    have "free h1 buffer = Inr h" using b(2) by (auto simp: searching_def grant_def)
    then have "kfree buffer (k\<lparr>root_heap := Some h1, mem := m, trace := tr\<rparr>) = Inr (k\<lparr>mem := m, trace := tr\<rparr>)"
      by (simp add: kfree_def same)
    then show ?thesis using None res q(2) m(1) dev2 by (auto simp: run component_result_def)
  next
    case (Some d)
    then obtain p' f h3 where f: "search_directory rd raw fs buffer t 512 ?cs c ?k1 =
        Some (Inr (Some (Dir_found p' f), k\<lparr>root_heap := Some h3, mem := m, trace := tr\<rparr>))" "file_granted raw fs 0 h1 d p' f h3 m"
      using res by auto
    obtain h5 where c: "kfree buffer (k\<lparr>root_heap := Some h3, mem := m, trace := tr\<rparr>) = Inr (k\<lparr>root_heap := Some h5, mem := m, trace := tr\<rparr>)"
      "file_granted raw fs (cluster_blocks h fs) h d p' f h5 m"
    proof (rule close_found [OF b(2) _ f(2), of "k\<lparr>root_heap := Some h3, mem := m, trace := tr\<rparr>"])
      fix h5 assume "kfree buffer (k\<lparr>root_heap := Some h3, mem := m, trace := tr\<rparr>) =
          Inr (k\<lparr>root_heap := Some h3, mem := m, trace := tr, root_heap := Some h5\<rparr>)" "file_granted raw fs (cluster_blocks h fs) h d p' f h5 m"
      then show thesis by (intro that [of h5]) simp_all
    qed simp
    show ?thesis
    proof (cases "u = []")
      case True
      then show ?thesis using Some f(1) c q(2) m(1) dev2 more by (auto simp: run component_result_def)
    next
      case False
      then show ?thesis
        using Some f(1) c(1) q(2) m(1) dev2 more granted_fields [OF c(2)]
        by (intro exI [of _ q]) (auto simp: run component_result_def drop_file [OF c(2)] same)
    qed
  qed
qed

end

section \<open>The whole path\<close>

lemma components_skip: "components (dropWhile (\<lambda>b. b = 0x2F) s) = components s"
  by (subst (1 2) components.simps) (simp add: dropWhile_idem)

lemma components_first:
  assumes "dropWhile (\<lambda>b. b = 0x2F) s = s" and "s \<noteq> []"
    and "u = dropWhile (\<lambda>b. b = 0x2F) (dropWhile (\<lambda>b. b \<noteq> 0x2F) s)"
  shows "components s = takeWhile (\<lambda>b. b \<noteq> 0x2F) s # components u" and "length u < length s"
    and "dropWhile (\<lambda>b. b = 0x2F) u = u"
proof -
  show "components s = takeWhile (\<lambda>b. b \<noteq> 0x2F) s # components u"
    using assms by (subst components.simps) (simp add: Let_def components_skip)
  have "hd s \<noteq> 0x2F" using hd_dropWhile [of "\<lambda>b. b = 0x2F" s] assms(1,2) by simp
  with assms(2) obtain b v where b: "s = b # v" "b \<noteq> 0x2F" by (cases s) auto
  have "length u \<le> length (dropWhile (\<lambda>b. b \<noteq> 0x2F) v)" using b by (simp add: assms(3) length_dropWhile_le)
  also have "\<dots> \<le> length v" by (rule length_dropWhile_le)
  finally show "length u < length s" using b by simp
  show "dropWhile (\<lambda>b. b = 0x2F) u = u" by (simp add: assms(3) dropWhile_idem)
qed

lemma components_none: "dropWhile (\<lambda>b. b = 0x2F) u = u \<Longrightarrow> components u = [] \<longleftrightarrow> u = []"
  by (subst components.simps) (simp add: Let_def)

definition open_result ::
  "(u64 \<Rightarrow> exfat_file) \<Rightarrow> exfat_instance \<Rightarrow> nat set \<Rightarrow> heap \<Rightarrow> ('z manager_scheme \<Rightarrow> bool) \<Rightarrow> 'z manager_scheme \<Rightarrow> dirent option \<Rightarrow>
     ((u64 \<times> exfat_file) option \<times> 'z manager_scheme) result \<Rightarrow> bool" where
  "open_result raw fs F h P k r res \<longleftrightarrow>
     (\<exists>m tr. calm F (mem k) m \<and> P (k\<lparr>mem := m, trace := tr\<rparr>) \<and>
       (case r of
          None \<Rightarrow> res = Inr (None, k\<lparr>mem := m, trace := tr\<rparr>)
        | Some d \<Rightarrow> (\<exists>p f h'. res = Inr (Some (p, f), k\<lparr>root_heap := Some h', mem := m, trace := tr\<rparr>) \<and>
                       file_granted raw fs (cluster_blocks h fs) h d p f h' m)))"

lemma open_missing:
  "calm F (mem k) m \<Longrightarrow> P (k\<lparr>mem := m, trace := tr\<rparr>) \<Longrightarrow> open_result raw fs F h P k None (Inr (None, k\<lparr>mem := m, trace := tr\<rparr>))"
  by (auto simp: open_result_def)

lemma open_missing_here: "P k \<Longrightarrow> open_result raw fs F h P k None (Inr (None, k))"
  using open_missing [of F k "mem k" P "trace k"] by simp

lemma open_found:
  "calm F (mem k) m \<Longrightarrow> P (k\<lparr>mem := m, trace := tr\<rparr>) \<Longrightarrow> file_granted raw fs (cluster_blocks h fs) h d p f h' m \<Longrightarrow>
   open_result raw fs F h P k (Some d) (Inr (Some (p, f), k\<lparr>root_heap := Some h', mem := m, trace := tr\<rparr>))"
  by (auto simp: open_result_def)

lemma open_result_after:
  assumes "calm F (mem k) m" and "open_result raw fs F h P (k\<lparr>mem := m, trace := tr\<rparr>) r res"
  shows "open_result raw fs F h P k r res"
  using assms(2) calm_trans [OF assms(1)] by (cases r; simp add: open_result_def) blast+

context block_reader
begin

lemma open_path_ok:
  fixes k :: "'z manager_scheme"
  defines "F \<equiv> \<lambda>h. heap_free h \<union> own"
  assumes h: "heap_inv h" "away h own" "room h (open_blocks fs h)" and fs: "geometry_ok fs"
    and "root_heap k = Some h" and "ready (x_disk fs) k" and "held (F h) (mem k) p s"
    and "dropWhile (\<lambda>b. b = 0x2F) s = s" and "list_all (\<lambda>t. length t < 256) (components s)"
    and "resolve (sector (x_disk fs)) fs n c (components s) = Some r"
  shows "\<exists>res. open_path rd raw fs p c k = Some res \<and> open_result raw fs (F h) h (ready (x_disk fs)) k r res"
  using assms(6-11)
proof (induction "length s" arbitrary: s p c k rule: less_induct)
  case less
  have first: "mem k p = (s @ [0]) ! 0" by (rule holds_first [OF heldD(1) [OF less.prems(3)]])
  show ?case
  proof (cases "s = []")
    case True
    then have "r = None" using less.prems(6) by (simp add: components.simps)
    then show ?thesis
      using True first less.prems(2) by (subst open_path.simps) (simp add: open_missing_here)
  next
    case False
    define t where "t = takeWhile (\<lambda>b. b \<noteq> 0x2F) s"
    define u where "u = dropWhile (\<lambda>b. b = 0x2F) (dropWhile (\<lambda>b. b \<noteq> 0x2F) s)"
    note comp = components_first [OF less.prems(4) False u_def, folded t_def]
    have t256: "length t < 256" using less.prems(5) comp(1) by simp
    have "mem k p \<noteq> 0" using False first holds_nonzero [OF heldD(1) [OF less.prems(3)]] by (cases s) auto
    obtain sr where sr: "dir_search (sector (x_disk fs)) fs t n c = Some sr"
      using less.prems(6) comp(1) by (auto split: option.splits)
    obtain q where q: "held (F h) (mem k) q u"
      and cr: "component_result raw fs (F h) h (ready (x_disk fs)) k (u \<noteq> []) q sr (open_component rd raw fs p c k)"
      unfolding F_def
      using open_component_ok [OF less.prems(1) h fs less.prems(2,3) [unfolded F_def] t_def t256 u_def sr] by blast
    obtain m tr where m: "calm (F h) (mem k) m" "ready (x_disk fs) (k\<lparr>mem := m, trace := tr\<rparr>)" and res: "case sr of
          None \<Rightarrow> open_component rd raw fs p c k = Inr (Return None, k\<lparr>mem := m, trace := tr\<rparr>)
        | Some d \<Rightarrow>
            if u \<noteq> [] then open_component rd raw fs p c k =
              Inr (if de_attributes d AND 0x0010 = 0 then Return None else Descend q (de_first d), k\<lparr>mem := m, trace := tr\<rparr>)
            else (\<exists>p' f h'. open_component rd raw fs p c k =
                    Inr (Return (Some (p', f)), k\<lparr>root_heap := Some h', mem := m, trace := tr\<rparr>) \<and> file_granted raw fs (cluster_blocks h fs) h d p' f h' m)"
      using cr unfolding component_result_def by blast
    note step = open_path.simps [of rd raw fs p c k] \<open>mem k p \<noteq> 0\<close>
    show ?thesis
    proof (cases sr)
      case None
      then have "r = None" using less.prems(6) comp(1) sr by simp
      then show ?thesis using None res m by (simp add: step open_missing)
    next
      case (Some d)
      consider "u = []" | "u \<noteq> []" "de_attributes d AND 0x0010 = 0" | "u \<noteq> []" "de_attributes d AND 0x0010 \<noteq> 0" by blast
      then show ?thesis
      proof cases
        case 1
        then have "r = Some d" using less.prems(6) comp(1) sr Some by (simp add: components.simps)
        then show ?thesis using 1 Some res m by (auto simp: step intro: open_found)
      next
        case 2
        then have "r = None" using less.prems(6) comp(1,3) sr Some by (simp add: components_none)
        then show ?thesis using 2 Some res m by (simp add: step open_missing)
      next
        case 3
        then have "resolve (sector (x_disk fs)) fs n (de_first d) (components u) = Some r"
          using less.prems(6) comp(1,3) sr Some by (simp add: components_none)
        moreover have "held (F h) m q u" using q m(1) by (rule held_calm)
        ultimately obtain res' where "open_path rd raw fs q (de_first d) (k\<lparr>mem := m, trace := tr\<rparr>) = Some res'"
          "open_result raw fs (F h) h (ready (x_disk fs)) (k\<lparr>mem := m, trace := tr\<rparr>) r res'"
          using less.hyps [OF comp(2), of "k\<lparr>mem := m, trace := tr\<rparr>" q "de_first d"] less.prems(1,5) m(2) comp(1,3) by auto
        then show ?thesis using 3 Some res open_result_after [OF m(1)] by (simp add: step)
      qed
    qed
  qed
qed

lemma open_file_ok:
  fixes k :: "'z manager_scheme"
  assumes "ready (x_disk fs) k" and "geometry_ok fs" and "root_heap k = Some h" and "heap_inv h" and "away h own"
    and "room h (open_blocks fs h)" and "held (heap_free h \<union> own) (mem k) path s"
    and "list_all (\<lambda>t. length t < 256) (components s)"
    and "resolve (sector (x_disk fs)) fs n (root_cluster fs) (components s) = Some r"
  shows "open_result raw fs (heap_free h \<union> own) h (ready (x_disk fs)) k r (EXFAT_open_file rd raw fs path k)"
proof -
  let ?s = "dropWhile (\<lambda>b. b = 0x2F) s"
  obtain q where q: "skip_slashes (mem k) path = Some q" "held (heap_free h \<union> own) (mem k) q ?s"
    using skip_slashes_ok [OF assms(7)] by blast
  obtain res where "open_path rd raw fs q (root_cluster fs) k = Some res"
    "open_result raw fs (heap_free h \<union> own) h (ready (x_disk fs)) k r res"
    using open_path_ok [OF assms(4,5,6,2,3,1) q(2), of n "root_cluster fs" r] assms(8,9) by (auto simp: components_skip dropWhile_idem)
  then show ?thesis using q(1) by (simp add: EXFAT_open_file_def)
qed

end

end
