(* ===== verification/Exfat_Mount.thy ===== *)
theory Exfat_Mount
  imports Exfat_Open
begin

text \<open>
  Mounting: \<^verbatim>\<open>EXFAT_init\<close> yields the volume that the boot sector describes.
\<close>

definition volume_of :: "disk_device \<Rightarrow> mbr_partition \<Rightarrow> u8 list \<Rightarrow> exfat_instance" where
  "volume_of d part s =
     \<lparr>x_disk = d, sector_on_disk_LBA = ucast (lba_start part),
      partition_offset = word_of_nat (le_field s 0x40 8), volume_length = word_of_nat (le_field s 0x48 8),
      fat_offset = word_of_nat (le_field s 0x50 4), fat_length = word_of_nat (le_field s 0x54 4),
      cluster_heap_offset = word_of_nat (le_field s 0x58 4), cluster_count = word_of_nat (le_field s 0x5C 4),
      root_cluster = word_of_nat (le_field s 0x60 4), bytes_per_sector_shift = s ! 0x6C,
      sectors_per_cluster_shift = s ! 0x6D, number_of_fats = s ! 0x6E\<rparr>"

text \<open>What mounting prints: the file system's name in the boot sector, the disk and the root directory's cluster.\<close>

definition mount_text :: "disk_device \<Rightarrow> exfat_instance \<Rightarrow> u8 list \<Rightarrow> u8 list" where
  "mount_text d fs s =
     takeWhile (\<lambda>b. b \<noteq> 0) (take 8 (drop 3 s)) @ char_bytes newline @
     char_bytes ''EXFAT init for: '' @ takeWhile (\<lambda>b. b \<noteq> 0) (d_name d) @ char_bytes newline @
     char_bytes ''EXFAT root cluster at: '' @ char_bytes ''0x'' @ hex_text 8 (unat (root_cluster fs)) @ char_bytes newline"

lemma field_in:
  assumes "bytes m p 512 = s"
  shows "off + 4 \<le> 512 \<Longrightarrow> read_u32_le m p (word_of_nat off) = word_of_nat (le_field s off 4)"
    and "off + 8 \<le> 512 \<Longrightarrow> read_u64_le m p (word_of_nat off) = word_of_nat (le_field s off 8)"
    and "off < 512 \<Longrightarrow> m (p + word_of_nat off) = s ! off"
  using bytes_window [of off 4 512 m p] bytes_window [of off 8 512 m p] assms
  by (auto simp: read_u32_le_value read_u64_le_value le_field_def)

lemma boot_sector:
  assumes "bytes m p 512 = s"
  shows "\<lparr>x_disk = d, sector_on_disk_LBA = ucast (lba_start part),
      partition_offset = read_u64_le m p 0x40, volume_length = read_u64_le m p 0x48,
      fat_offset = read_u32_le m p 0x50, fat_length = read_u32_le m p 0x54,
      cluster_heap_offset = read_u32_le m p 0x58, cluster_count = read_u32_le m p 0x5C,
      root_cluster = read_u32_le m p 0x60, bytes_per_sector_shift = m (p + 0x6C),
      sectors_per_cluster_shift = m (p + 0x6D), number_of_fats = m (p + 0x6E)\<rparr> = volume_of d part s"
  using field_in(2) [OF assms, of 64] field_in(2) [OF assms, of 72] field_in(1) [OF assms, of 80] field_in(1) [OF assms, of 84]
    field_in(1) [OF assms, of 88] field_in(1) [OF assms, of 92] field_in(1) [OF assms, of 96] field_in(3) [OF assms, of 108]
    field_in(3) [OF assms, of 109] field_in(3) [OF assms, of 110]
  by (simp add: volume_of_def)

context block_reader
begin

lemma init_ok:
  fixes k :: "'z manager_scheme"
  assumes ready: "ready d k" and heap: "root_heap k = Some h" "heap_inv h" "away h own" and room: "room h (needed_blocks h 512)"
    and name: "0 \<in> set (d_name d)"
    and fs: "fs = volume_of d part (sector d (lba_start part))"
  shows "\<exists>m tr. EXFAT_init rd d part k =
       Inr (fs, k\<lparr>mem := m, trace := tr, console := console k @ mount_text d fs (sector d (lba_start part))\<rparr>) \<and>
     ready d (k\<lparr>mem := m, trace := tr, console := console k @ mount_text d fs (sector d (lba_start part))\<rparr>) \<and>
     calm (heap_free h \<union> own) (mem k) m"
proof -
  let ?s = "sector d (lba_start part)"
  have "room h (needed_blocks h 512 + 0)" using room by simp
  then obtain p h1 where p: "kalloc 512 k = Inr (p, k\<lparr>root_heap := Some h1\<rparr>)" "grant h 512 p h1"
    by (rule kalloc_first [OF heap(1,2)]) simp_all
  from read_grant [OF ready_more(1) [OF ready] heap(2,3) p(2), of "lba_start part" "Some h1"] obtain m tr where
    tr: "rd d (lba_start part) p (k\<lparr>root_heap := Some h1\<rparr>) = Inr (True, k\<lparr>root_heap := Some h1, mem := m, trace := tr\<rparr>)"
      "ready d (k\<lparr>root_heap := Some h1, mem := m, trace := tr\<rparr>)" "placed own p ?s (mem k) m" "calm (heap_free h \<union> own) (mem k) m"
    by auto
  have len: "length ?s = 512" by (rule sector_512 [OF ready])
  have b: "bytes m p 512 = ?s" using tr(3) len by (simp add: placed_def)
  note vol = boot_sector [OF b, of d part, folded fs]
  have root: "read_u32_le m p 0x60 = root_cluster fs" using arg_cong [OF vol, of root_cluster] by simp
  have sig: "takeWhile (\<lambda>b. b \<noteq> 0) (bytes m (p + 3) 8 @ [0]) = takeWhile (\<lambda>b. b \<noteq> 0) (take 8 (drop 3 ?s))"
    using bytes_window [of 3 8 512 m p] b by (simp add: takeWhile_tail)
  have same: "k\<lparr>mem := a, trace := b, console := c, root_heap := Some h\<rparr> = k\<lparr>mem := a, trace := b, console := c\<rparr>" for a b c
    using heap(1) by (cases k) simp
  have "EXFAT_init rd d part k =
       Inr (fs, k\<lparr>mem := m, trace := tr, console := console k @ mount_text d fs ?s\<rparr>)"
    using p(1) tr(1) name grantD(3) [OF p(2)]
    by (simp add: EXFAT_init_def c_string_def Let_def vol root [symmetric] sig say_defs kfree_def same mount_text_def)
  moreover have "ready d (k\<lparr>mem := m, trace := tr, console := console k @ mount_text d fs ?s\<rparr>)"
    using tr(2) by (rule ready_same) simp_all
  ultimately show ?thesis using tr(4) by blast
qed

end

end
