(* ===== verification/Exfat_Props.thy ===== *)
theory Exfat_Props
  imports Exfat_Read
begin

text \<open>
  The properties of the exFAT driver's file reads on an ATA disk, and of its fields, clusters and path
  components, with witnesses on the demonstration disk.
\<close>

text \<open>The demonstration disk as a volume with clusters of one sector, and a file on it.\<close>

definition sim_fs :: exfat_instance where
  "sim_fs = \<lparr>x_disk = sim_disk, sector_on_disk_LBA = 1, partition_offset = 1, volume_length = 256, fat_offset = 1,
             fat_length = 1, cluster_heap_offset = 2, cluster_count = 8, root_cluster = 2,
             bytes_per_sector_shift = 9, sectors_per_cluster_shift = 0, number_of_fats = 1\<rparr>"

definition sim_file :: exfat_file where
  "sim_file = \<lparr>f_path = 0, f_fs = sim_fs, attributes = 0, first_cluster = 2, valid_data_length = 600,
               data_length = 600, name_length = 0, name_hash = 0, f_flags = 1\<rparr>"

section \<open>Fields and clusters\<close>

text \<open>
  The three readers of multi-byte fields return the little-endian value of the two, four or eight
  bytes at the offset.
\<close>

theorem read_le_value:
  "read_u16_le m buff off = word_of_nat (le_value (bytes m (buff + off) 2)) \<and>
   read_u32_le m buff off = word_of_nat (le_value (bytes m (buff + off) 4)) \<and>
   read_u64_le m buff off = word_of_nat (le_value (bytes m (buff + off) 8))"
  using read_u16_le_value read_u32_le_value read_u64_le_value by blast

text \<open>
  C24. Where a cluster begins. Cluster numbers from 2 on count clusters from the start of the heap of
  clusters. The numbers 0 and 1, which a file without data and a free entry of the allocation table hold,
  are not refused: the subtraction wraps in 32 bits and the result lies nearly 2^32 clusters further on.
\<close>

theorem EXFAT_cluster_to_lba_exact:
  assumes "sectors_per_cluster_shift fs < 31" and "unat (sector_on_disk_LBA fs) < 2 ^ 32"
  shows "\<exists>lba. EXFAT_cluster_to_lba fs c = Inr lba \<and>
     unat lba = unat (sector_on_disk_LBA fs) + unat (cluster_heap_offset fs) +
       (if 2 \<le> c then unat c - 2 else 2 ^ 32 - 2 + unat c) * 2 ^ unat (sectors_per_cluster_shift fs)"
proof -
  let ?s = "unat (sectors_per_cluster_shift fs)" and ?n = "if 2 \<le> c then unat c - 2 else 2 ^ 32 - 2 + unat c"
  have s: "?s < 31" using assms(1) by (simp add: word_less_nat_alt)
  have lt: "(2 :: nat) ^ ?s \<le> 2 ^ 30" using s by (intro power_increasing) simp_all
  have c32: "unat (c - 2) < 2 ^ 32" "unat (cluster_heap_offset fs) < 2 ^ 32"
    using unsigned_less [of "c - 2", where ?'a = nat] unsigned_less [of "cluster_heap_offset fs", where ?'a = nat] by simp_all
  have sub: "unat (c - 2) = ?n"
  proof (cases "2 \<le> c")
    case True
    then show ?thesis by (simp add: unat_sub)
  next
    case False
    then show ?thesis using unat_sub_if' [of c 2] by (simp add: word_le_nat_alt)
  qed
  define w where "w = (ucast (push_bit ?s 1 :: u32) :: u64)"
  have w: "unat w = 2 ^ ?s"
  proof -
    have "push_bit ?s 1 = (word_of_nat (2 ^ ?s) :: u32)" by (simp add: push_bit_eq_mult)
    moreover have "unat (word_of_nat (2 ^ ?s) :: u32) = 2 ^ ?s" using lt by (simp add: unat_of_nat del: of_nat_power)
    ultimately have "unat (push_bit ?s 1 :: u32) = 2 ^ ?s" by (simp only:)
    then show ?thesis by (simp only: w_def end_block_nat)
  qed
  have prod: "unat (c - 2) * 2 ^ ?s < 2 ^ 62"
  proof -
    have "unat (c - 2) * 2 ^ ?s \<le> unat (c - 2) * 2 ^ 30" using lt by (rule mult_le_mono2)
    also have "\<dots> < 2 ^ 32 * 2 ^ 30" using c32(1) by simp
    finally show ?thesis by simp
  qed
  have off: "unat (ucast (c - 2) * w) = unat (c - 2) * 2 ^ ?s"
    using prod unat_mult_u64 [of "ucast (c - 2)" w] by (simp add: w end_block_nat)
  have start: "unat (sector_on_disk_LBA fs + ucast (cluster_heap_offset fs)) =
      unat (sector_on_disk_LBA fs) + unat (cluster_heap_offset fs)"
    using assms(2) c32(2) unat_add_u64 [of "sector_on_disk_LBA fs" "ucast (cluster_heap_offset fs)"]
    by (simp add: end_block_nat)
  have "unat (sector_on_disk_LBA fs + ucast (cluster_heap_offset fs) + ucast (c - 2) * w) =
      unat (sector_on_disk_LBA fs) + unat (cluster_heap_offset fs) + unat (c - 2) * 2 ^ ?s"
    using prod assms(2) c32(2) off start
      unat_add_u64 [of "sector_on_disk_LBA fs + ucast (cluster_heap_offset fs)" "ucast (c - 2) * w"] by simp
  moreover have "EXFAT_cluster_to_lba fs c =
      Inr (sector_on_disk_LBA fs + ucast (cluster_heap_offset fs) + ucast (c - 2) * w)"
    using assms(1) by (simp only: EXFAT_cluster_to_lba_def shl_int_def if_True andthen_simps w_def)
  ultimately show ?thesis by (intro exI conjI) (assumption, simp only: sub)
qed

theorem EXFAT_cluster_to_lba_exact_witness:
  "(\<exists>lba. EXFAT_cluster_to_lba sim_fs 4 = Inr lba \<and> unat lba = 5) \<and>
   (\<exists>lba. EXFAT_cluster_to_lba sim_fs 0 = Inr lba \<and> unat lba = 2 ^ 32 + 1)"
proof -
  have g: "sectors_per_cluster_shift sim_fs < 31" "unat (sector_on_disk_LBA sim_fs) < 2 ^ 32" by (simp_all add: sim_fs_def)
  from EXFAT_cluster_to_lba_exact [OF g, of 4] EXFAT_cluster_to_lba_exact [OF g, of 0]
  show ?thesis by (auto simp: sim_fs_def)
qed

text \<open>
  C23. A path component of 256 characters or more is copied beyond the 256 bytes of
  \<^verbatim>\<open>component\<close>: \<^verbatim>\<open>EXFAT_open_file\<close> writes outside its array for every such
  path, before it reads the disk.
\<close>

theorem EXFAT_open_file_long_component:
  assumes "\<And>j. j < 256 \<Longrightarrow> mem k (path + word_of_nat j) \<noteq> 0 \<and> mem k (path + word_of_nat j) \<noteq> 0x2F"
  shows "EXFAT_open_file rd raw fs path k = Inl OutOfBounds"
proof -
  have copy: "copy_component (mem k) path (bytes (mem k) path j) = Inl OutOfBounds" if "j \<le> 256" for j
    using that
  proof (induction "256 - j" arbitrary: j)
    case 0
    then show ?case by (simp add: copy_component.simps)
  next
    case (Suc d)
    then have "copy_component (mem k) path (bytes (mem k) path (Suc j)) = Inl OutOfBounds" by simp
    then show ?case
      using assms [of j] Suc by (subst copy_component.simps) (simp add: Let_def bytes_Suc)
  qed
  have first: "mem k path \<noteq> 0" "mem k path \<noteq> 0x2F" using assms [of 0] by simp_all
  have "skip_slashes (mem k) path = Some path" using first by (subst skip_slashes.simps) simp
  moreover have "open_path rd raw fs path (root_cluster fs) k = Some (Inl OutOfBounds)"
    using first copy [of 0] by (subst open_path.simps) (simp add: open_component_def)
  ultimately show ?thesis by (simp add: EXFAT_open_file_def)
qed

theorem EXFAT_open_file_long_component_witness:
  "EXFAT_open_file (read_disk (sim_hw sim_sectors) 0) (\<lambda>_. sim_file) sim_fs 0x5000 (sim_machine (\<lambda>_. 97)) = Inl OutOfBounds"
  by (rule EXFAT_open_file_long_component) simp

section \<open>Reading\<close>

text \<open>
  \<^verbatim>\<open>EXFAT_get_fat_entry\<close> returns the little-endian 32-bit entry of the cluster in
  the allocation table, for every cluster number. The heap is exactly what it was, and the only memory
  written is the buffer for the sector, which overlapped nothing in use.
\<close>

theorem EXFAT_get_fat_entry_value:
  assumes "ata_ready hw dm c (x_disk fs) (trace k)" and "geometry_ok fs" and "root_heap k = Some h"
    and "heap_inv h" and "room h (needed_blocks h 512)"
  shows "\<exists>p tr. EXFAT_get_fat_entry (read_disk hw sp) fs cl k =
       Inr (fat_value (disk_sector c (x_disk fs)) fs cl,
            k\<lparr>mem := store p (disk_sector c (x_disk fs) (ucast (fat_lba fs cl))) (mem k), trace := tr\<rparr>) \<and>
     extent p 512 \<inter> heap_used h = {}"
proof -
  let ?s = "disk_sector c (x_disk fs) (ucast (fat_lba fs cl))"
  have len: "length ?s = 512" by (rule ata_disk.sector_512) (rule assms(1))
  obtain p h' m tr where e: "EXFAT_get_fat_entry (read_disk hw sp) fs cl k =
      Inr (fat_value (disk_sector c (x_disk fs)) fs cl, k\<lparr>mem := m, trace := tr\<rparr>)" "grant h 512 p h'" "placed {} p ?s (mem k) m"
    using ata_disk.get_fat_entry_ok [OF assms(1-4) away_empty assms(5), of sp cl] by blast
  have "m = store p ?s (mem k)" using e(3) grantD(7) [OF e(2)] by (intro placed_only) (simp_all add: len)
  then show ?thesis using e(1) grantD(4) [OF e(2)] by blast
qed

text \<open>
  C16. \<^verbatim>\<open>EXFAT_read_file_ALL\<close> returns the file. For a file whose clusters, consecutive
  or chained through the allocation table, reach the length of its data, the routine returns a buffer
  that holds exactly the first \<^verbatim>\<open>data_length\<close> bytes of the clusters in their order, and
  that length. Afterwards the buffer is the only new allocation, and every byte of memory that was in use
  is unchanged. The heap needs room for the file, one cluster and one sector at a time.
\<close>

theorem EXFAT_read_file_ALL_contents:
  assumes "ata_ready hw dm c (x_disk (f_fs file)) (trace k)" and "root_heap k = Some h" and "heap_inv h"
    and "geometry_ok (f_fs file)" and "data_length file \<noteq> 0" and "unat (data_length file) < 2 ^ 63"
    and "room h (read_blocks h file)"
    and "\<And>j. Suc j * cluster_size (f_fs file) < unat (data_length file) \<Longrightarrow>
      f_flags file AND 0x02 \<noteq> 0 \<or> file_cluster (disk_sector c (x_disk (f_fs file))) file (Suc j) < 0xFFFFFFF8"
  shows "\<exists>data h1 m tr. EXFAT_read_file_ALL (read_disk hw sp) file k =
       Inr (Some (data, data_length file), k\<lparr>mem := m, trace := tr, root_heap := Some h1\<rparr>) \<and>
     bytes m data (unat (data_length file)) =
       take (unat (data_length file)) (file_bytes (disk_sector c (x_disk (f_fs file))) file (cluster_total file)) \<and>
     grant h (data_length file) data h1 \<and> (\<forall>x. unat x \<in> heap_used h \<longrightarrow> m x = mem k x)"
proof -
  obtain data h1 m tr where r: "EXFAT_read_file_ALL (read_disk hw sp) file k =
       Inr (Some (data, data_length file), k\<lparr>mem := m, trace := tr, root_heap := Some h1\<rparr>)"
    "bytes m data (unat (data_length file)) =
       take (unat (data_length file)) (file_bytes (disk_sector c (x_disk (f_fs file))) file (cluster_total file))"
    "grant h (data_length file) data h1" "calm (heap_free h \<union> {}) (mem k) m"
    using ata_disk.read_file_ALL_ok [OF assms(1-3) away_empty assms(4-8), of sp] by blast
  then show ?thesis using calm_used [OF assms(3) away_empty r(4)] by blast
qed

text \<open>
  C17. A chain that ends before the data does: \<^verbatim>\<open>EXFAT_read_file_ALL\<close> returns NULL and
  leaks nothing. Both buffers are free again, so the heap is exactly what it was, and every byte of memory
  that was in use is unchanged.
\<close>

theorem EXFAT_read_file_ALL_chain_end:
  assumes "ata_ready hw dm c (x_disk (f_fs file)) (trace k)" and "root_heap k = Some h" and "heap_inv h"
    and "geometry_ok (f_fs file)" and "unat (data_length file) < 2 ^ 63" and "room h (read_blocks h file)"
    and "Suc i * cluster_size (f_fs file) < unat (data_length file)"
    and "\<And>j. j < i \<Longrightarrow> file_cluster (disk_sector c (x_disk (f_fs file))) file (Suc j) < 0xFFFFFFF8"
    and "f_flags file AND 0x02 = 0" and "file_cluster (disk_sector c (x_disk (f_fs file))) file (Suc i) \<ge> 0xFFFFFFF8"
  shows "\<exists>m tr. EXFAT_read_file_ALL (read_disk hw sp) file k = Inr (None, k\<lparr>mem := m, trace := tr\<rparr>) \<and>
     (\<forall>x. unat x \<in> heap_used h \<longrightarrow> m x = mem k x)"
proof -
  obtain m tr where "EXFAT_read_file_ALL (read_disk hw sp) file k = Inr (None, k\<lparr>mem := m, trace := tr\<rparr>)"
    and m: "calm (heap_free h \<union> {}) (mem k) m"
    using ata_disk.read_file_ALL_cut [OF assms(1-3) away_empty assms(4-10), of sp] by blast
  then show ?thesis using calm_used [OF assms(3) away_empty m] by blast
qed

section \<open>Witnesses\<close>

text \<open>The chain of the demonstration disk: clusters 2 and 4, in the sectors 3 and 5.\<close>

lemma sim_chain:
  "fat_value (disk_sector sim_sectors sim_disk) sim_fs 2 = 4" "fat_value (disk_sector sim_sectors sim_disk) sim_fs 4 = 0xFFFFFFFF"
proof -
  have f: "fat_value (disk_sector sim_sectors sim_disk) sim_fs c = word_of_nat (le_value (bytes (sim_bytes 2) (4 * ucast c) 4))"
    if "unat c < 128" for c
  proof -
    have "4 * unat c div 512 = 0" "4 * unat c mod 512 = 4 * unat c" using that by simp_all
    moreover have "fat_lba sim_fs c = 2" using \<open>4 * unat c div 512 = 0\<close> by (simp add: fat_lba_def sim_fs_def)
    moreover have "take 4 (drop (4 * unat c) (bytes (sim_bytes 2) 0 512)) = bytes (sim_bytes 2) (4 * ucast c) 4"
      using that by (intro nth_equalityI) (simp_all add: add.commute)
    ultimately show ?thesis by (simp add: fat_value_def sim_sector)
  qed
  show "fat_value (disk_sector sim_sectors sim_disk) sim_fs 2 = 4" "fat_value (disk_sector sim_sectors sim_disk) sim_fs 4 = 0xFFFFFFFF"
    by (subst f; simp add: bytes_4 sim_bytes_def)+
qed

lemma sim_geometry: "geometry_ok sim_fs" "cluster_size sim_fs = 512"
  by (simp_all add: geometry_ok_def sim_fs_def cluster_size_def cluster_sectors_def)

lemma sim_room_file: "unat (data_length file) \<le> 1024 \<Longrightarrow> f_fs file = sim_fs \<Longrightarrow> room sim_heap (read_blocks sim_heap file)"
  by (rule sim_room) (simp add: read_blocks_def sim_blocks sim_fs_def cluster_sectors_def)

lemma u32_of_nat: "x < 2 ^ 32 \<Longrightarrow> unat (ucast (word_of_nat x :: u64) :: u32) = x"
  by (simp add: unsigned_ucast_eq unat_of_nat_u64 take_bit_nat_eq_self)

lemma sim_cluster_bytes:
  "unat c < 128 \<Longrightarrow> 2 \<le> c \<Longrightarrow> cluster_bytes (disk_sector (image_sectors g) sim_disk) sim_fs c = bytes (g (unat c + 1)) 0 512"
proof -
  assume c: "unat c < 128" "2 \<le> c"
  have "unat (c - 2) = unat c - 2" using c(2) by (simp add: unat_sub)
  then have "(ucast (c - 2) :: u64) = word_of_nat (unat c - 2)"
    by (intro unat_inject) (use c(1) in \<open>simp add: end_block_nat unat_of_nat\<close>)
  moreover have "2 \<le> unat c" using c(2) by (simp add: word_le_nat_alt)
  ultimately have "cluster_lba sim_fs c = word_of_nat (unat c + 1)"
    by (simp add: cluster_lba_def sim_fs_def cluster_sectors_def of_nat_diff)
  moreover have "unat (ucast (word_of_nat (unat c + 1) :: u64) :: u32) = unat c + 1"
    using c(1) by (intro u32_of_nat) simp
  ultimately show ?thesis by (simp add: cluster_bytes_def run_bytes_def cluster_sectors_def sim_fs_def sim_sector)
qed

lemma sim_ready_file:
  "x_disk fs = sim_disk \<Longrightarrow> ata_ready (sim_hw sim_sectors) (sim_drive sim_sectors) sim_sectors (x_disk fs) (trace (sim_machine m))"
  by (simp add: sim_ready)

theorem EXFAT_get_fat_entry_value_witness:
  "\<exists>k'. EXFAT_get_fat_entry (read_disk (sim_hw sim_sectors) 0) sim_fs 2 (sim_machine (\<lambda>_. 0)) = Inr (4, k') \<and>
     root_heap k' = Some sim_heap"
proof -
  let ?k = "sim_machine (\<lambda>_. 0)"
  have d: "x_disk sim_fs = sim_disk" by (simp add: sim_fs_def)
  have heap: "root_heap ?k = Some sim_heap" by simp
  have room: "room sim_heap (needed_blocks sim_heap 512)" by (rule sim_room) (simp add: sim_blocks)
  obtain p tr where "EXFAT_get_fat_entry (read_disk (sim_hw sim_sectors) 0) sim_fs 2 ?k =
      Inr (fat_value (disk_sector sim_sectors (x_disk sim_fs)) sim_fs 2,
           ?k\<lparr>mem := store p (disk_sector sim_sectors (x_disk sim_fs) (ucast (fat_lba sim_fs 2))) (mem ?k), trace := tr\<rparr>)"
    using EXFAT_get_fat_entry_value [OF sim_ready_file [OF d] sim_geometry(1) heap sim_heap_inv room] by blast
  then show ?thesis
    unfolding d sim_chain
    by (intro exI [of _ "?k\<lparr>mem := store p (disk_sector sim_sectors sim_disk (ucast (fat_lba sim_fs 2))) (mem ?k), trace := tr\<rparr>"]) simp
qed

theorem EXFAT_read_file_ALL_contents_witness:
  "\<exists>data k'. EXFAT_read_file_ALL (read_disk (sim_hw sim_sectors) 0) sim_file (sim_machine (\<lambda>_. 0)) = Inr (Some (data, 600), k') \<and>
     bytes (mem k') data 600 = replicate 512 3 @ replicate 88 5"
proof -
  let ?k = "sim_machine (\<lambda>_. 0)" and ?sec = "disk_sector sim_sectors sim_disk"
  have f: "f_fs sim_file = sim_fs" "data_length sim_file = 600" "f_flags sim_file = 1" by (simp_all add: sim_file_def)
  have d: "x_disk (f_fs sim_file) = sim_disk" by (simp add: f sim_fs_def)
  have cl: "file_cluster ?sec sim_file 0 = 2" "file_cluster ?sec sim_file (Suc 0) = 4"
    by (simp_all add: f sim_chain) (simp_all add: sim_file_def sim_chain)
  have total: "cluster_total sim_file = 2" by (simp add: cluster_total_def f sim_geometry)
  have "file_bytes ?sec sim_file 2 = bytes (sim_bytes 3) 0 512 @ bytes (sim_bytes 5) 0 512"
    by (simp add: file_bytes_def upt_rec cl f sim_cluster_bytes del: file_cluster.simps)
  moreover have "bytes (sim_bytes 3) 0 512 = replicate 512 3" "bytes (sim_bytes 5) 0 512 = replicate 512 5"
    by (rule nth_equalityI; simp add: sim_bytes_def)+
  ultimately have content: "take 600 (file_bytes ?sec sim_file 2) = replicate 512 3 @ replicate 88 5" by simp
  have heap: "root_heap ?k = Some sim_heap" by simp
  have geo: "geometry_ok (f_fs sim_file)" by (simp add: f sim_geometry)
  have room: "room sim_heap (read_blocks sim_heap sim_file)" by (rule sim_room_file) (simp_all add: f)
  have len: "data_length sim_file \<noteq> 0" "unat (data_length sim_file) < 2 ^ 63" by (simp_all add: f)
  have chain: "f_flags sim_file AND 0x02 \<noteq> 0 \<or>
      file_cluster (disk_sector sim_sectors (x_disk (f_fs sim_file))) sim_file (Suc j) < 0xFFFFFFF8"
    if "Suc j * cluster_size (f_fs sim_file) < unat (data_length sim_file)" for j
  proof -
    have "j = 0" using that by (simp add: f sim_geometry)
    then show ?thesis by (simp only: d cl) simp
  qed
  obtain data h1 m tr where r: "EXFAT_read_file_ALL (read_disk (sim_hw sim_sectors) 0) sim_file ?k =
       Inr (Some (data, data_length sim_file), ?k\<lparr>mem := m, trace := tr, root_heap := Some h1\<rparr>)"
    "bytes m data (unat (data_length sim_file)) = take (unat (data_length sim_file))
       (file_bytes (disk_sector sim_sectors (x_disk (f_fs sim_file))) sim_file (cluster_total sim_file))"
    using EXFAT_read_file_ALL_contents [OF sim_ready_file [OF d] heap sim_heap_inv geo len room chain] by blast
  have "bytes m data 600 = replicate 512 3 @ replicate 88 5" using r(2) content by (simp add: f(2) d total)
  then show ?thesis using r(1) by (intro exI conjI) (simp only: f(2), simp)
qed

text \<open>The same file with a length of 1500 bytes: the chain has two clusters, the data three.\<close>

theorem EXFAT_read_file_ALL_chain_end_witness:
  "\<exists>k'. EXFAT_read_file_ALL (read_disk (sim_hw sim_sectors) 0) (sim_file\<lparr>data_length := 1500\<rparr>) (sim_machine (\<lambda>_. 0)) = Inr (None, k') \<and>
     root_heap k' = Some sim_heap"
proof -
  let ?k = "sim_machine (\<lambda>_. 0)" and ?sec = "disk_sector sim_sectors sim_disk" and ?file = "sim_file\<lparr>data_length := 1500\<rparr>"
  have f: "f_fs ?file = sim_fs" "data_length ?file = 1500" "f_flags ?file = 1" "first_cluster ?file = 2" by (simp_all add: sim_file_def)
  have d: "x_disk (f_fs ?file) = sim_disk" by (simp add: f(1) sim_fs_def)
  have cl: "file_cluster ?sec ?file (Suc 0) = 4" "file_cluster ?sec ?file (Suc 1) = 0xFFFFFFFF"
    by (simp_all add: f sim_chain)
  have heap: "root_heap ?k = Some sim_heap" by simp
  have geo: "geometry_ok (f_fs ?file)" by (simp only: f sim_geometry)
  have room: "room sim_heap (read_blocks sim_heap ?file)"
    by (rule sim_room) (simp add: read_blocks_def sim_blocks f(1) sim_fs_def cluster_sectors_def)
  have len: "unat (data_length ?file) < 2 ^ 63" by (simp add: f(2))
  have i: "Suc 1 * cluster_size (f_fs ?file) < unat (data_length ?file)" by (simp add: f(1,2) sim_geometry)
  have chain: "file_cluster (disk_sector sim_sectors (x_disk (f_fs ?file))) ?file (Suc j) < 0xFFFFFFF8" if "j < 1" for j
    using that by (simp only: d less_one) (simp only: cl, simp)
  have contig: "f_flags ?file AND 0x02 = 0" by (simp add: f(3))
  have cut: "file_cluster (disk_sector sim_sectors (x_disk (f_fs ?file))) ?file (Suc 1) \<ge> 0xFFFFFFF8"
    by (simp only: d cl) simp
  obtain m tr where "EXFAT_read_file_ALL (read_disk (sim_hw sim_sectors) 0) ?file ?k = Inr (None, ?k\<lparr>mem := m, trace := tr\<rparr>)"
    using EXFAT_read_file_ALL_chain_end [OF sim_ready_file [OF d] heap sim_heap_inv geo len room i chain contig cut] by blast
  then show ?thesis by (intro exI [of _ "?k\<lparr>mem := m, trace := tr\<rparr>"]) simp
qed

end
