(* ===== verification/Demo_Volume.thy ===== *)
theory Demo_Volume
  imports Exfat_Mount Exfat_Props
begin

text \<open>
  A volume with directories on the demonstration disk, for the witnesses of the lookup of a path: the file
  \<^verbatim>\<open>/ketone/hello\<close> with 100 bytes, and a machine with that path in memory.
\<close>

section \<open>The disk\<close>

text \<open>Sector 1 is the boot sector. The root directory, in cluster 2, has the directory \<^verbatim>\<open>ketone\<close> with
  cluster 4; there is the file \<^verbatim>\<open>hello\<close> with cluster 5.\<close>

definition dir_bytes :: "nat \<Rightarrow> memory" where
  "dir_bytes n =
     (if n = 1 then (\<lambda>_. 0)(3 := 69, 4 := 88, 0x40 := 1, 0x49 := 1, 0x50 := 1, 0x54 := 1, 0x58 := 2, 0x5C := 8, 0x60 := 2,
                            0x6C := 9, 0x6E := 1)
      else if n = 3 then (\<lambda>_. 0)(0 := 0x85, 1 := 2, 4 := 0x10, 32 := 0xC0, 35 := 6, 52 := 4, 64 := 0xC1,
                            66 := 107, 68 := 101, 70 := 116, 72 := 111, 74 := 110, 76 := 101)
      else if n = 5 then (\<lambda>_. 0)(0 := 0x85, 1 := 2, 4 := 0x20, 32 := 0xC0, 33 := 1, 35 := 5, 52 := 5, 56 := 100, 64 := 0xC1,
                            66 := 104, 68 := 101, 70 := 108, 72 := 108, 74 := 111)
      else sim_bytes n)"

abbreviation dir_sectors :: sectors where "dir_sectors \<equiv> image_sectors dir_bytes"

definition ketone :: "u8 list" where "ketone = [107, 101, 116, 111, 110, 101]"

definition hello :: "u8 list" where "hello = [104, 101, 108, 108, 111]"

definition hello_path :: "u8 list" where "hello_path = char_bytes ''/ketone/hello''"

lemma hello_path_bytes: "hello_path = [47, 107, 101, 116, 111, 110, 101, 47, 104, 101, 108, 108, 111]"
  by code_simp

lemma path_components: "components hello_path = [ketone, hello]"
  by code_simp

section \<open>The lookup\<close>

definition ketone_entry :: dirent where
  "ketone_entry = \<lparr>de_attributes = 0x10,
     de_stream = Some \<lparr>st_flags = 0, st_name_length = 6, st_hash = 0, st_valid = 0, st_first = 4, st_length = 0\<rparr>,
     de_chars = ketone\<rparr>"

definition hello_stream :: stream where
  "hello_stream = \<lparr>st_flags = 1, st_name_length = 5, st_hash = 0, st_valid = 0, st_first = 5, st_length = 100\<rparr>"

definition hello_entry :: dirent where
  "hello_entry = \<lparr>de_attributes = 0x20, de_stream = Some hello_stream, de_chars = hello\<rparr>"

lemma entries_of_bytes: "entries_of (bytes m 0 512) = map (\<lambda>i. bytes m (word_of_nat (32 * i)) 32) [0..<16]"
proof (rule nth_equalityI)
  fix i assume "i < length (entries_of (bytes m 0 512))"
  then have i: "i < 16" by simp
  then show "entries_of (bytes m 0 512) ! i = map (\<lambda>i. bytes m (word_of_nat (32 * i)) 32) [0..<16] ! i"
    using bytes_window [of "32 * i" 32 512 m 0] by (simp add: entries_of_def del: map_map upt_rec_numeral)
qed simp

lemma scan_first_set:
  assumes "m 0 = 0x85" and "m 1 = 2" and "d = parse_set (bytes m 0 32) [bytes m 32 32, bytes m 64 32]"
  shows "scan_for (de_name d) (entries_of (bytes m 0 512)) = Some (Scan_found d)"
  using assms by (simp add: entries_of_bytes upt_rec)

lemmas parse_defs = parse_set_def add_secondary_def parse_stream_def le_field_def name_part_def name_limit_def bytes_def upt_rec

lemma parse_ketone:
  "parse_set (bytes (dir_bytes 3) 0 32) [bytes (dir_bytes 3) 32 32, bytes (dir_bytes 3) 64 32] = ketone_entry"
  by (simp add: dir_bytes_def ketone_entry_def ketone_def parse_defs)

lemma parse_hello:
  "parse_set (bytes (dir_bytes 5) 0 32) [bytes (dir_bytes 5) 32 32, bytes (dir_bytes 5) 64 32] = hello_entry"
  by (simp add: dir_bytes_def hello_entry_def hello_stream_def hello_def parse_defs)

lemma entry_names: "de_name ketone_entry = ketone" "de_name hello_entry = hello"
  by (simp_all add: ketone_entry_def hello_entry_def ketone_def hello_def de_name_def)

lemma resolve_hello: "resolve (disk_sector dir_sectors sim_disk) sim_fs 1 2 [ketone, hello] = Some (Some hello_entry)"
proof -
  have d: "scan_for ketone (entries_of (bytes (dir_bytes 3) 0 512)) = Some (Scan_found ketone_entry)"
    using scan_first_set [of "dir_bytes 3" ketone_entry] by (simp add: parse_ketone entry_names) (simp add: dir_bytes_def)
  have a: "scan_for hello (entries_of (bytes (dir_bytes 5) 0 512)) = Some (Scan_found hello_entry)"
    using scan_first_set [of "dir_bytes 5" hello_entry] by (simp add: parse_hello entry_names) (simp add: dir_bytes_def)
  show ?thesis using d a by (simp add: sim_cluster_bytes) (simp add: ketone_entry_def de_first_def sim_cluster_bytes)
qed

text \<open>The boot sector describes the volume of the other witnesses.\<close>

definition sim_partition :: mbr_partition where
  "sim_partition = \<lparr>boot = 0, p_type = 7, lba_start = 1, p_sectors = 256\<rparr>"

lemma sim_volume: "volume_of sim_disk sim_partition (disk_sector dir_sectors sim_disk 1) = sim_fs"
proof -
  have f: "le_field (bytes m 0 512) off n = le_value (bytes m (word_of_nat off) n)" if "off + n \<le> 512" for m off n
    using bytes_window [OF that, of m 0] by (simp add: le_field_def)
  show ?thesis
    unfolding volume_of_def sim_sector
    by (simp add: f sim_partition_def sim_fs_def) (simp add: dir_bytes_def bytes_def upt_rec)
qed

section \<open>The machine\<close>

definition dir_machine :: manager where
  "dir_machine = sim_machine (store 0x5000 (hello_path @ [0]) (\<lambda>_. 0))"

lemma sim_outside: "unat (x :: u64) < 0x100000 \<Longrightarrow> unat x \<notin> heap_free sim_heap"
  by (auto simp: heap_free_def sim_heap_def)

lemma stored_string:
  assumes "0 \<notin> set s" and "length s < 2 ^ 64 - 1"
  shows "holds_string (at (store p (s @ [0]) m) p) s"
proof -
  have "store p (s @ [0]) m (p + word_of_nat j) = (s @ [0]) ! j" if "j \<le> length s" for j
    using that assms(2) by (intro store_in) simp_all
  then show ?thesis using assms by (auto simp: holds_string_def list_all_iff nth_append)
qed

lemma path_kept: "kept sim_heap (mem dir_machine) 0x5000 hello_path"
proof -
  have "unat (0x5000 + word_of_nat j :: u64) \<notin> heap_free sim_heap" if "j \<le> 13" for j
  proof (rule sim_outside)
    have "unat (0x5000 + word_of_nat j :: u64) = 0x5000 + j" using that by (subst extent_bytes [of _ 14]) simp_all
    then show "unat (0x5000 + word_of_nat j :: u64) < 0x100000" using that by simp
  qed
  moreover have "holds_string (at (mem dir_machine) 0x5000) hello_path"
    unfolding dir_machine_def sim_machine_simps by (rule stored_string) (simp_all add: hello_path_bytes)
  moreover have "length hello_path = 13" by (simp add: hello_path_bytes)
  ultimately show ?thesis by (auto simp: held_def list_all_iff simp del: upt_Suc)
qed

end
