(* ===== verification/Exfat_Lookup.thy ===== *)
theory Exfat_Lookup
  imports Demo_Volume
begin

text \<open>
  The correctness of \<^verbatim>\<open>EXFAT_open_file\<close> on an ATA disk, with its witness on the
  demonstration volume.
\<close>

text \<open>
  C15. \<^verbatim>\<open>EXFAT_open_file\<close> finds the file. On a disk that is ready, for every path whose
  components have fewer than 256 bytes and for every outcome \<open>r\<close> of the abstract lookup: when a component is
  missing, or one that is not the last is no directory, the routine returns NULL and the heap is exactly what it was. When the
  path leads to a set of directory entries, the routine returns a file structure with the attributes, cluster,
  lengths and flags of the set and with its name, and these two blocks are all that is new in the heap: the
  buffers for clusters and for sectors of the allocation table, and the files opened for the directories on the way, are free again.
  Either way only memory that was free is written.
\<close>

theorem EXFAT_open_file_finds:
  assumes "ata_ready hw dm c (x_disk fs) (trace k)" and "geometry_ok fs" and "root_heap k = Some h" and "heap_inv h"
    and "room h (open_blocks fs h)" and "kept h (mem k) path s"
    and "list_all (\<lambda>t. length t < 256) (components s)"
    and "resolve (disk_sector c (x_disk fs)) fs n (root_cluster fs) (components s) = Some r"
  shows "\<exists>m tr. ata_ready hw dm c (x_disk fs) tr \<and> (\<forall>x. unat x \<notin> heap_free h \<longrightarrow> m x = mem k x) \<and>
     (case r of
        None \<Rightarrow> EXFAT_open_file (read_disk hw sp) raw fs path k = Inr (None, k\<lparr>mem := m, trace := tr\<rparr>)
      | Some d \<Rightarrow> (\<exists>p name h1 h2. EXFAT_open_file (read_disk hw sp) raw fs path k =
            Inr (Some (p, (as_file (raw p) fs d)\<lparr>f_path := name\<rparr>), k\<lparr>root_heap := Some h2, mem := m, trace := tr\<rparr>) \<and>
          holds_string (at m name) (de_name d) \<and> grant h sizeof_exfat_file p h1 \<and> grant h1 256 name h2))"
proof -
  have path: "held (heap_free h \<union> {}) (mem k) path s" using assms(6) by simp
  obtain m tr where m: "quiet h (mem k) m" "ata_ready hw dm c (x_disk fs) tr" and res: "case r of
          None \<Rightarrow> EXFAT_open_file (read_disk hw sp) raw fs path k = Inr (None, k\<lparr>mem := m, trace := tr\<rparr>)
        | Some d \<Rightarrow> (\<exists>p f h'. EXFAT_open_file (read_disk hw sp) raw fs path k =
            Inr (Some (p, f), k\<lparr>root_heap := Some h', mem := m, trace := tr\<rparr>) \<and> file_granted raw fs (cluster_blocks h fs) h d p f h' m)"
    using ata_disk.open_file_ok [OF assms(1-4) away_empty assms(5) path assms(7,8), of raw sp] unfolding open_result_def by auto
  show ?thesis
  proof (intro exI [of _ m] exI [of _ tr] conjI)
    show "case r of
          None \<Rightarrow> EXFAT_open_file (read_disk hw sp) raw fs path k = Inr (None, k\<lparr>mem := m, trace := tr\<rparr>)
        | Some d \<Rightarrow> (\<exists>p name h1 h2. EXFAT_open_file (read_disk hw sp) raw fs path k =
            Inr (Some (p, (as_file (raw p) fs d)\<lparr>f_path := name\<rparr>), k\<lparr>root_heap := Some h2, mem := m, trace := tr\<rparr>) \<and>
          holds_string (at m name) (de_name d) \<and> grant h sizeof_exfat_file p h1 \<and> grant h1 256 name h2)"
      using res by (cases r; simp add: file_granted_def) metis
  qed (use m in \<open>auto simp: calm_def\<close>)
qed

theorem EXFAT_open_file_finds_witness:
  "\<exists>p name k'. EXFAT_open_file (read_disk (sim_hw dir_sectors) 0) (\<lambda>_. sim_file) sim_fs 0x5000 dir_machine =
     Inr (Some (p, (as_file sim_file sim_fs hello_entry)\<lparr>f_path := name\<rparr>), k') \<and> holds_string (at (mem k') name) hello"
proof -
  let ?k = dir_machine
  have d: "x_disk sim_fs = sim_disk" and root: "root_cluster sim_fs = 2" by (simp_all add: sim_fs_def)
  have k: "root_heap ?k = Some sim_heap" "trace ?k = []" by (simp_all add: dir_machine_def)
  have ready: "ata_ready (sim_hw dir_sectors) (sim_drive dir_sectors) dir_sectors (x_disk sim_fs) (trace ?k)"
    unfolding d k(2) by (rule sim_ready)
  have room: "room sim_heap (open_blocks sim_fs sim_heap)"
    by (rule sim_room) (simp add: open_blocks_def sim_blocks sim_fs_def cluster_sectors_def sizeof_exfat_file_def)
  have short: "list_all (\<lambda>t. length t < 256) (components hello_path)" by (simp add: path_components ketone_def hello_def)
  have r: "resolve (disk_sector dir_sectors (x_disk sim_fs)) sim_fs 1 (root_cluster sim_fs) (components hello_path) = Some (Some hello_entry)"
    by (simp only: d root path_components resolve_hello)
  show ?thesis
    using EXFAT_open_file_finds [OF ready sim_geometry(1) k(1) sim_heap_inv room path_kept short r, of 0 "\<lambda>_. sim_file"]
      entry_names(2) by auto
qed

end
