(* ===== verification/Pcie.thy ===== *)
theory Pcie
  imports Disk
begin

text \<open>
  The PCI Express driver (\<^verbatim>\<open>drivers/component_bus/pcie/pcie.c\<close>) and the device
  structure of the component bus (\<^verbatim>\<open>component_bus/common.h\<close>). Configuration space is
  memory-mapped: every access goes to the hardware. The MCFG table is in byte memory; arrays of devices are typed
  objects behind their pointer.
\<close>

section \<open>Data\<close>

record bar =
  is_valid :: bool
  is_64_bits :: bool
  is_IO :: bool
  is_prefetchable :: bool
  bar_base :: u64
  bar_size :: u64

text \<open>An entry of the MCFG table, and \<^verbatim>\<open>PCIE_driver_data\<close>, which holds one.\<close>

record mcfg_entry =
  base_address :: u64
  segment_group :: u16
  start_bus :: u8
  end_bus :: u8
  mcfg_reserved :: u32

record component =
  bus_type :: u8
  c_bus :: u8
  c_device :: u8
  c_function :: u8
  vendor_id :: u16
  device_id :: u16
  class_code :: u8
  c_subclass :: u8
  prog_if :: u8
  revision :: u8
  header_type :: u8
  bars :: "bar list"
  irq_line :: u8
  irq_pin :: u8
  driver_entry :: "mcfg_entry option"

definition COMPONENT_DEVICE_TYPE_PCIE :: u8 where "COMPONENT_DEVICE_TYPE_PCIE = 1"

definition sizeof_component :: u64 where "sizeof_component = 176"
definition sizeof_mcfg_entry :: u64 where "sizeof_mcfg_entry = 16"

text \<open>The static variables of the driver.\<close>

record pcie = manager +
  MCFG :: u64
  MCFG_entries :: u32

definition mcfg_entry_at :: "u64 \<Rightarrow> u64 \<Rightarrow> u64" where
  "mcfg_entry_at table i = table + 44 + sizeof_mcfg_entry * i"

definition read_mcfg_entry :: "memory \<Rightarrow> u64 \<Rightarrow> mcfg_entry" where
  "read_mcfg_entry m e =
     \<lparr>base_address = read_u64 m e, segment_group = read_u16 m (e + 8), start_bus = m (e + 10),
      end_bus = m (e + 11), mcfg_reserved = read_u32 m (e + 12)\<rparr>"

section \<open>Configuration space\<close>

definition pcie_config_addr :: "u64 \<Rightarrow> u8 \<Rightarrow> u8 \<Rightarrow> u8 \<Rightarrow> u16 \<Rightarrow> u64" where
  "pcie_config_addr base bus device function offset =
     base + push_bit 20 (ucast bus) + push_bit 15 (ucast device) + push_bit 12 (ucast function) + ucast offset"

definition PCIE_read32 ::
  "hardware \<Rightarrow> u64 \<Rightarrow> u8 \<Rightarrow> u8 \<Rightarrow> u8 \<Rightarrow> u16 \<Rightarrow> 'z machine_scheme \<Rightarrow> u32 \<times> 'z machine_scheme" where
  "PCIE_read32 hw base bus device function offset k = reg_read hw (pcie_config_addr base bus device function offset) k"

definition PCIE_write32 :: "u64 \<Rightarrow> u8 \<Rightarrow> u8 \<Rightarrow> u8 \<Rightarrow> u16 \<Rightarrow> u32 \<Rightarrow> 'z machine_scheme \<Rightarrow> 'z machine_scheme" where
  "PCIE_write32 base bus device function offset v k = reg_write (pcie_config_addr base bus device function offset) v k"

definition PCIE_read16 ::
  "hardware \<Rightarrow> u64 \<Rightarrow> u8 \<Rightarrow> u8 \<Rightarrow> u8 \<Rightarrow> u16 \<Rightarrow> 'z machine_scheme \<Rightarrow> u16 \<times> 'z machine_scheme" where
  "PCIE_read16 hw base bus device function offset k = reg_read16 hw (pcie_config_addr base bus device function offset) k"

definition PCIE_write16 :: "u64 \<Rightarrow> u8 \<Rightarrow> u8 \<Rightarrow> u8 \<Rightarrow> u16 \<Rightarrow> u16 \<Rightarrow> 'z machine_scheme \<Rightarrow> 'z machine_scheme" where
  "PCIE_write16 base bus device function offset v k = reg_write16 (pcie_config_addr base bus device function offset) v k"

section \<open>Base address registers\<close>

text \<open>\<^verbatim>\<open>offset = 0x10 + BAR * 4\<close>, a byte.\<close>

definition bar_offset :: "nat \<Rightarrow> u16" where
  "bar_offset i = ucast (0x10 + word_of_nat i * 4 :: u8)"

text \<open>What the bits of a register and the mask read back say: \<open>bar_io\<close>, \<open>bar_mem64\<close> and
  \<open>bar_mem32\<close> are the three ways to compute size and base after the probe.\<close>

definition bar_io :: "u32 \<Rightarrow> u32 \<Rightarrow> bool \<times> u64 \<times> u64" where
  "bar_io data mask_v =
     (let mask_c = mask_v AND NOT 3; sz = NOT mask_c + 1 in
      (\<not> (mask_c = 0 \<or> sz = 0), ucast sz, ucast (data AND NOT 3)))"

definition bar_mem64 :: "u32 \<Rightarrow> u32 \<Rightarrow> u32 \<Rightarrow> u32 \<Rightarrow> bool \<times> u64 \<times> u64" where
  "bar_mem64 data high mask_v mask_high =
     (let mask_c = push_bit 32 (ucast mask_high) OR (ucast mask_v AND NOT 0xF) :: u64; sz = NOT mask_c + 1 in
      (\<not> (mask_c = 0 \<or> sz = 0), sz, push_bit 32 (ucast high) OR (ucast data AND NOT 0xF)))"

definition bar_mem32 :: "u32 \<Rightarrow> u32 \<Rightarrow> bool \<times> u64 \<times> u64" where
  "bar_mem32 data mask_v =
     (let mask_c = mask_v AND NOT 0xF; sz = NOT mask_c + 1 in
      (\<not> (mask_c = 0 \<or> sz = 0), ucast sz, ucast (data AND NOT 0xF)))"

text \<open>The sequence of accesses that sizes a register: decoding off, all ones, read back, restore.\<close>

definition probe_masks ::
  "hardware \<Rightarrow> u64 \<Rightarrow> u8 \<Rightarrow> u8 \<Rightarrow> u8 \<Rightarrow> u16 \<Rightarrow> u32 \<Rightarrow> bool \<Rightarrow> 'z machine_scheme \<Rightarrow> (u32 \<times> u32 \<times> u32) \<times> 'z machine_scheme" where
  "probe_masks hw base bus device function offset data is_64 k =
     (let rd = PCIE_read32 hw base bus device function; wr = PCIE_write32 base bus device function;
          (high, k1) = (if is_64 then rd (offset + 4) k else (0, k));
          (command, k2) = PCIE_read16 hw base bus device function 0x04 k1;
          k3 = wr offset 0xFFFFFFFF (PCIE_write16 base bus device function 0x04 (command AND NOT 3) k2);
          k4 = (if is_64 then wr (offset + 4) 0xFFFFFFFF k3 else k3);
          (mask_v, k5) = rd offset k4;
          (mask_high, k6) = (if is_64 then (let (v, k') = rd (offset + 4) k5 in (v, wr (offset + 4) high k')) else (0, k5));
          k7 = PCIE_write16 base bus device function 0x04 command (wr offset data k6) in
      ((high, mask_v, mask_high), k7))"

text \<open>One register; \<open>skip\<close> is \<^verbatim>\<open>last_BAR_was_64\<close>. The second component of the result
  is \<^verbatim>\<open>is_64\<close>.\<close>

definition probe_bar ::
  "hardware \<Rightarrow> u64 \<Rightarrow> u8 \<Rightarrow> u8 \<Rightarrow> u8 \<Rightarrow> nat \<Rightarrow> bool \<Rightarrow> 'z machine_scheme \<Rightarrow> bar \<times> bool \<times> 'z machine_scheme" where
  "probe_bar hw base bus device function i skip k =
     (let offset = bar_offset i;
          (data, k1) = PCIE_read32 hw base bus device function offset k;
          is_io = (data AND 1 \<noteq> 0);
          is_64 = (\<not> is_io \<and> drop_bit 1 data AND 3 = 2);
          b = \<lparr>is_valid = False, is_64_bits = False, is_IO = is_io, is_prefetchable = (data AND 8 \<noteq> 0),
               bar_base = 0, bar_size = 0\<rparr> in
      if skip then (b, False, k1)
      else
        let ((high, mask_v, mask_high), k2) = probe_masks hw base bus device function offset data is_64 k1;
            (valid, sz, addr) =
              (if is_io then bar_io data mask_v
               else if drop_bit 1 data AND 3 = 3 then (False, 0, 0)
               else if is_64 then bar_mem64 data high mask_v mask_high
               else bar_mem32 data mask_v) in
        (b\<lparr>is_valid := valid, is_64_bits := is_64, bar_base := addr, bar_size := sz\<rparr>, is_64, k2))"

text \<open>\<^verbatim>\<open>PCIE_remap_BAR\<close>: the checks on the new base, which give the new low word or a
  message, then the accesses.\<close>

definition remap_check :: "bar \<Rightarrow> u32 \<Rightarrow> u64 \<Rightarrow> string + u32" where
  "remap_check b data new_base =
     (if is_IO b then
        if new_base > 0xFFFFFFFF \<or> new_base AND 3 \<noteq> 0 \<or> new_base + bar_size b > 0xFFFFFFFF then
          Inl ''PCIE BAR REMAP err: base too large''
        else Inr ((data AND 3) OR (ucast new_base AND NOT 3))
      else if bar_size b = 0 then Inl ''PCIE BAR REMAP err: size = 0''
      else if new_base AND (bar_size b - 1) \<noteq> 0 then Inl ''PCIE BAR REMAP err: unaligned base''
      else if \<not> is_64_bits b \<and> new_base > 0xFFFFFFFF \<or> new_base + bar_size b > 0xFFFFFFFF then
        Inl ''PCIE BAR REMAP err: base too large''
      else Inr ((data AND 0xF) OR (ucast new_base AND NOT 0xF)))"

definition PCIE_remap_BAR ::
  "hardware \<Rightarrow> component \<Rightarrow> nat \<Rightarrow> u64 \<Rightarrow> 'z machine_scheme \<Rightarrow> (bool \<times> component \<times> 'z machine_scheme) result" where
  "PCIE_remap_BAR hw d i new_base k =
     (if i \<ge> 6 then Inr (False, d, k)
      else if length (bars d) \<le> i then Inl OutOfBounds
      else if \<not> is_valid (bars d ! i) then Inr (False, d, k)
      else
        (case driver_entry d of
           None \<Rightarrow> Inl NullDeref
         | Some e \<Rightarrow>
             let b = bars d ! i; offset = bar_offset i;
                 rd = PCIE_read32 hw (base_address e) (c_bus d) (c_device d) (c_function d);
                 wr = PCIE_write32 (base_address e) (c_bus d) (c_device d) (c_function d);
                 rd16 = PCIE_read16 hw (base_address e) (c_bus d) (c_device d) (c_function d);
                 wr16 = PCIE_write16 (base_address e) (c_bus d) (c_device d) (c_function d);
                 (command, k1) = rd16 0x04 k;
                 (data, k2) = rd offset k1 in
             (case remap_check b data new_base of
                Inl msg \<Rightarrow> Inr (False, d, say_LN msg k2)
              | Inr new_low \<Rightarrow>
                  let k3 = wr16 0x04 (command AND NOT 3) k2;
                      (high, k4) = (if is_64_bits b then
                                      (let (v, k') = rd (offset + 4) k3 in (v, wr (offset + 4) (ucast (drop_bit 32 new_base)) k'))
                                    else (0, k3));
                      k5 = wr offset new_low k4;
                      (check_low, k6) = rd offset k5;
                      (check_high, k7) = (if is_64_bits b then rd (offset + 4) k6 else (0, k6));
                      actual = (if is_IO b then ucast (check_low AND NOT 3)
                                else if is_64_bits b then push_bit 32 (ucast check_high) OR ucast (check_low AND NOT 0xF)
                                else ucast (check_low AND NOT 0xF)) in
                  if actual = new_base then
                    Inr (True, d\<lparr>bars := (bars d)[i := b\<lparr>bar_base := new_base\<rparr>]\<rparr>, wr16 0x04 command k7)
                  else
                    let k8 = (if is_64_bits b then wr (offset + 4) high k7 else k7) in
                    Inr (False, d, say_LN ''PCIE BAR REMAP err: base not set'' (wr16 0x04 command (wr offset data k8))))))"

section \<open>Arrays of devices\<close>

text \<open>\<open>raw p\<close> is what memory at the address \<open>p\<close> holds before it is written, read as an array.\<close>

record dev_array =
  da_ptr :: u64
  da :: "component list"

definition new_devices ::
  "(u64 \<Rightarrow> nat \<Rightarrow> component) \<Rightarrow> u64 \<Rightarrow> 'z manager_scheme \<Rightarrow> (dev_array \<times> 'z manager_scheme) result" where
  "new_devices raw n k =
     andthen (kalloc (sizeof_component * n) k) (\<lambda>(p, k1). Inr (\<lparr>da_ptr = p, da = map (raw p) [0..<unat n]\<rparr>, k1))"

definition copy_devices :: "dev_array \<Rightarrow> dev_array \<Rightarrow> nat \<Rightarrow> dev_array result" where
  "copy_devices src dest n =
     (if n = 0 then Inr dest
      else if da_ptr src = 0 \<or> da_ptr dest = 0 then Inl NullDeref
      else Inr (dest\<lparr>da := take n (da src) @ drop n (da dest)\<rparr>))"

text \<open>A new array of \<open>size\<close> elements, the first \<open>n\<close> copied, the old one freed.\<close>

definition move_devices ::
  "(u64 \<Rightarrow> nat \<Rightarrow> component) \<Rightarrow> dev_array \<Rightarrow> u64 \<Rightarrow> nat \<Rightarrow> 'z manager_scheme \<Rightarrow> (dev_array \<times> 'z manager_scheme) result" where
  "move_devices raw arr sz n k =
     andthen (new_devices raw sz k) (\<lambda>(buff, k1).
     andthen (copy_devices arr buff n) (\<lambda>buff'.
     andthen (kfree (da_ptr arr) k1) (\<lambda>k2. Inr (buff', k2))))"

definition set_device :: "nat \<Rightarrow> (component \<Rightarrow> component) \<Rightarrow> dev_array \<Rightarrow> dev_array result" where
  "set_device i f arr =
     (if da_ptr arr = 0 then Inl NullDeref
      else if i < length (da arr) then Inr (arr\<lparr>da := (da arr)[i := f (da arr ! i)]\<rparr>)
      else Inl OutOfBounds)"

end
