(* ===== verification/Pcie_Props.thy ===== *)
theory Pcie_Props
  imports Pcie
begin

text \<open>
  Sizing a base address register: on a device whose registers behave as the PCI specification says
  (address bits below the size read as zero, the flag bits are fixed), the probe finds kind, size and base,
  and leaves the registers as they were.
\<close>

section \<open>The registers of a device\<close>

datatype bar_kind = IO_space | Memory_32 | Memory_64

definition bar_flags :: "bar_kind \<Rightarrow> bool \<Rightarrow> u32" where
  "bar_flags kind prefetch =
     (case kind of IO_space \<Rightarrow> 1 | Memory_32 \<Rightarrow> if prefetch then 8 else 0 | Memory_64 \<Rightarrow> if prefetch then 12 else 4)"

text \<open>The value a register was last set to, if the history says so.\<close>

fun last_write :: "u64 \<Rightarrow> u32 \<Rightarrow> history \<Rightarrow> u32" where
  "last_write a v [] = v"
| "last_write a v (e # tr) = (case e of RegW b w \<Rightarrow> if b = a then w else last_write a v tr | _ \<Rightarrow> last_write a v tr)"

fun last_write16 :: "u64 \<Rightarrow> u16 \<Rightarrow> history \<Rightarrow> u16" where
  "last_write16 a v [] = v"
| "last_write16 a v (e # tr) = (case e of RegW16 b w \<Rightarrow> if b = a then w else last_write16 a v tr | _ \<Rightarrow> last_write16 a v tr)"

text \<open>A device with registers at \<open>lo\<close>, \<open>hi\<close> and the command register at \<open>cmd\<close>: it decodes \<open>2 ^ n\<close>
  bytes; \<open>lo0\<close>, \<open>hi0\<close> and \<open>cmd0\<close> are the values of the registers at reset.\<close>

definition bar_device ::
  "hardware \<Rightarrow> u64 \<Rightarrow> u64 \<Rightarrow> u64 \<Rightarrow> bar_kind \<Rightarrow> bool \<Rightarrow> nat \<Rightarrow> u32 \<Rightarrow> u32 \<Rightarrow> u16 \<Rightarrow> bool" where
  "bar_device hw lo hi cmd kind prefetch n lo0 hi0 cmd0 \<longleftrightarrow>
     (\<forall>tr m. reg_in hw tr m lo = (last_write lo lo0 tr AND NOT (mask n)) OR bar_flags kind prefetch) \<and>
     (kind = Memory_64 \<longrightarrow> (\<forall>tr m. reg_in hw tr m hi = last_write hi hi0 tr AND NOT (mask (n - 32)))) \<and>
     (\<forall>tr m. ucast (reg_in hw tr m cmd) = last_write16 cmd cmd0 tr)"

text \<open>Registers of 32 bits have between 16 bytes (4 bytes of I/O space) and 2 GiB, registers of 64 bits up to
  \<open>2 ^ 63\<close>.\<close>

definition bar_bits_ok :: "bar_kind \<Rightarrow> nat \<Rightarrow> bool" where
  "bar_bits_ok kind n \<longleftrightarrow>
     (case kind of IO_space \<Rightarrow> 2 \<le> n \<and> n < 32 | Memory_32 \<Rightarrow> 4 \<le> n \<and> n < 32 | Memory_64 \<Rightarrow> 4 \<le> n \<and> n < 64)"

section \<open>Masks\<close>

lemma not_mask_size: "NOT (NOT (mask n :: 'a::len word)) + 1 = 2 ^ n"
  by (simp add: mask_eq_exp_minus_1)

lemma flag_bits:
  fixes w :: "'a::len word"
  assumes "F AND NOT (mask f) = 0" and "f \<le> n"
  shows "((w AND NOT (mask n)) OR F) AND NOT (mask f) = w AND NOT (mask n)"
    and "((w AND NOT (mask n)) OR F) AND mask f = F"
proof -
  have F: "bit F j \<Longrightarrow> j < f" for j
    using assms(1) by (metis bit_and_iff bit_not_iff_eq bit_mask_iff bit_imp_possible_bit possible_bit_def bit_0_eq bot_apply bot_bool_def)
  show "((w AND NOT (mask n)) OR F) AND NOT (mask f) = w AND NOT (mask n)"
    by (rule bit_word_eqI) (use F assms(2) in \<open>auto simp: bit_simps\<close>)
  show "((w AND NOT (mask n)) OR F) AND mask f = F"
    by (rule bit_word_eqI) (use F assms(2) in \<open>auto simp: bit_simps\<close>)
qed

lemma small_masks: "(0xF :: u32) = mask 4" "(3 :: u32) = mask 2" "(0xF :: u64) = mask 4" "(0xFFFFFFFF :: u32) = - 1"
  by (simp_all add: mask_eq_exp_minus_1)

lemma size_32: "n < 32 \<Longrightarrow> (ucast (2 ^ n :: u32) :: u64) = 2 ^ n"
  by (rule bit_word_eqI) (auto simp: bit_simps)

lemma not_mask_nonzero:
  assumes "n < LENGTH('a)"
  shows "(NOT (mask n) :: 'a::len word) \<noteq> 0"
proof
  assume "(NOT (mask n) :: 'a word) = 0"
  moreover have "bit (NOT (mask n) :: 'a word) n" using assms by (simp add: bit_simps)
  ultimately have "bit (0 :: 'a word) n" by (simp only:)
  then show False by simp
qed

lemma size_nonzero:
  "n < 32 \<Longrightarrow> (NOT (mask n) :: u32) \<noteq> 0" "n < 32 \<Longrightarrow> (2 ^ n :: u32) \<noteq> 0"
  "n < 64 \<Longrightarrow> (NOT (mask n) :: u64) \<noteq> 0" "n < 64 \<Longrightarrow> (2 ^ n :: u64) \<noteq> 0"
  using not_mask_nonzero [where 'a = 32, of n] not_mask_nonzero [where 'a = 64, of n] by simp_all

text \<open>What the three computations yield on values read from such a device.\<close>

lemma bar_io_ok:
  assumes "2 \<le> n" and "n < 32"
  shows "bar_io ((w AND NOT (mask n)) OR 1) ((0xFFFFFFFF AND NOT (mask n)) OR 1) =
    (True, 2 ^ n, ucast (w AND NOT (mask n)))"
proof -
  have one: "(1 :: u32) AND NOT (mask 2) = 0" by (simp add: mask_eq_exp_minus_1)
  show ?thesis
    unfolding bar_io_def Let_def small_masks(2,4) flag_bits(1) [OF one assms(1)]
    using assms(2) size_nonzero(1,2) [OF assms(2)] by (simp only: and.left_neutral not_mask_size size_32 simp_thms)
qed

lemma bar_mem32_ok:
  assumes "4 \<le> n" and "n < 32"
  shows "bar_mem32 ((w AND NOT (mask n)) OR bar_flags Memory_32 p) ((0xFFFFFFFF AND NOT (mask n)) OR bar_flags Memory_32 p) =
    (True, 2 ^ n, ucast (w AND NOT (mask n)))"
proof -
  have f: "bar_flags Memory_32 p AND NOT (mask 4) = 0" by (simp add: bar_flags_def mask_eq_exp_minus_1)
  show ?thesis
    unfolding bar_mem32_def Let_def small_masks(1,4) flag_bits(1) [OF f assms(1)]
    using assms(2) size_nonzero(1,2) [OF assms(2)] by (simp only: and.left_neutral not_mask_size size_32 simp_thms)
qed

lemma flags_64: "bit (bar_flags Memory_64 p) j \<Longrightarrow> j < 4"
proof (rule ccontr)
  assume b: "bit (bar_flags Memory_64 p) j" and "\<not> j < 4"
  then have "bit (bar_flags Memory_64 p AND NOT (mask 4)) j"
    by (auto simp: bit_simps dest: bit_imp_le_length)
  moreover have "bar_flags Memory_64 p AND NOT (mask 4) = 0" by (simp add: bar_flags_def mask_eq_exp_minus_1)
  ultimately show False by (simp only: bit_0_eq bot_apply bot_bool_def)
qed

lemma joined_words:
  fixes wh wl :: u32
  assumes "4 \<le> n"
  shows "push_bit 32 (ucast (wh AND NOT (mask (n - 32)))) OR
      (ucast ((wl AND NOT (mask n)) OR bar_flags Memory_64 p) AND NOT (mask 4)) =
    (push_bit 32 (ucast wh) OR ucast wl :: u64) AND NOT (mask n)"
proof (rule bit_word_eqI)
  fix j assume "j < LENGTH(64)"
  then show "bit (push_bit 32 (ucast (wh AND NOT (mask (n - 32)))) OR
      (ucast ((wl AND NOT (mask n)) OR bar_flags Memory_64 p) AND NOT (mask 4)) :: u64) j =
    bit ((push_bit 32 (ucast wh) OR ucast wl :: u64) AND NOT (mask n)) j"
    using assms flags_64 [of p j] by (auto simp: bit_simps dest: bit_imp_le_length)
qed

lemma all_ones: "push_bit 32 (ucast (0xFFFFFFFF :: u32)) OR ucast (0xFFFFFFFF :: u32) = (- 1 :: u64)"
  by simp

lemma bar_mem64_ok:
  assumes "4 \<le> n" and "n < 64"
  shows "bar_mem64 ((wl AND NOT (mask n)) OR bar_flags Memory_64 p) (wh AND NOT (mask (n - 32)))
      ((0xFFFFFFFF AND NOT (mask n)) OR bar_flags Memory_64 p) (0xFFFFFFFF AND NOT (mask (n - 32))) =
    (True, 2 ^ n, (push_bit 32 (ucast wh) OR ucast wl) AND NOT (mask n))"
  unfolding bar_mem64_def Let_def small_masks(3) joined_words [OF assms(1)] all_ones
  using size_nonzero(3,4) [OF assms(2)] by (simp only: and.left_neutral not_mask_size simp_thms)

section \<open>The probe\<close>

text \<open>The three registers have different addresses.\<close>

lemma config_addr_eq:
  "pcie_config_addr base bus device function x = pcie_config_addr base bus device function y \<longleftrightarrow> x = y"
proof
  assume "pcie_config_addr base bus device function x = pcie_config_addr base bus device function y"
  then have "(ucast x :: u64) = ucast y" by (simp add: pcie_config_addr_def)
  then show "x = y" by - (rule bit_word_eqI, auto simp: bit_eq_iff bit_simps)
qed simp

lemma bar_offsets:
  assumes "i < 6"
  shows "bar_offset i \<noteq> 4" "bar_offset i + 4 \<noteq> 4" "bar_offset i \<noteq> bar_offset i + 4"
proof -
  have "i \<in> {0, 1, 2, 3, 4, 5}" using assms by auto
  then have "bar_offset i \<noteq> 4 \<and> bar_offset i + 4 \<noteq> 4 \<and> bar_offset i \<noteq> bar_offset i + 4"
    by (auto simp: bar_offset_def)
  then show "bar_offset i \<noteq> 4" "bar_offset i + 4 \<noteq> 4" "bar_offset i \<noteq> bar_offset i + 4" by simp_all
qed

lemma mask_again: "(((x AND M) OR F) AND M) OR F = (x AND M) OR (F :: 'a::len word)"
  by (rule bit_word_eqI) (auto simp: bit_simps)

text \<open>Whenever one of the new events of a history sets a register, the command register has decoding off.\<close>

definition quiet_writes :: "u64 \<Rightarrow> u16 \<Rightarrow> nat \<Rightarrow> history \<Rightarrow> bool" where
  "quiet_writes cmd cmd0 old tr \<longleftrightarrow>
     list_all (\<lambda>j. case drop j tr of RegW a v # pre \<Rightarrow> last_write16 cmd cmd0 pre AND 3 = 0 | _ \<Rightarrow> True)
       [0..<length tr - old]"

lemma probe_masks_run:
  fixes k :: "'z machine_scheme"
  assumes lo: "\<And>tr m. reg_in hw tr m (pcie_config_addr base bus device function off) = rlo tr"
    and hi: "\<And>tr m. wide \<Longrightarrow> reg_in hw tr m (pcie_config_addr base bus device function (off + 4)) = rhi tr"
    and cmd: "\<And>tr m. ucast (reg_in hw tr m (pcie_config_addr base bus device function 4)) = rcmd tr"
  defines "L \<equiv> pcie_config_addr base bus device function off"
    and "H \<equiv> pcie_config_addr base bus device function (off + 4)"
    and "C \<equiv> pcie_config_addr base bus device function 4"
  defines "tr1 \<equiv> (if wide then [RegR H (rhi (trace k))] else []) @ trace k"
  defines "tr2 \<equiv> [RegW L 0xFFFFFFFF, RegW16 C (rcmd tr1 AND NOT 3), RegR16 C (rcmd tr1)] @ tr1"
  defines "tr3 \<equiv> RegR L (rlo (if wide then RegW H 0xFFFFFFFF # tr2 else tr2)) # (if wide then RegW H 0xFFFFFFFF # tr2 else tr2)"
  shows "\<exists>m'. probe_masks hw base bus device function off data wide k =
     ((if wide then rhi (trace k) else 0, rlo (if wide then RegW H 0xFFFFFFFF # tr2 else tr2), if wide then rhi tr3 else 0),
      k\<lparr>mem := m', trace := RegW16 C (rcmd tr1) # RegW L data #
         (if wide then [RegW H (rhi (trace k)), RegR H (rhi tr3)] else []) @ tr3\<rparr>)"
proof (cases wide)
  case True
  show ?thesis
    by (simp add: probe_masks_def PCIE_read32_def PCIE_write32_def PCIE_read16_def PCIE_write16_def reg_read_def reg_write_def
        reg_read16_def reg_write16_def Let_def lo hi [OF True] cmd True tr1_def tr2_def tr3_def L_def H_def C_def) (rule exI, rule refl)
next
  case False
  then show ?thesis
    by (simp add: probe_masks_def PCIE_read32_def PCIE_write32_def PCIE_read16_def PCIE_write16_def reg_read_def reg_write_def
        reg_read16_def reg_write16_def Let_def lo cmd tr1_def tr2_def tr3_def L_def H_def C_def) (rule exI, rule refl)
qed

lemma low_bits:
  fixes data :: u32
  assumes "data AND mask 4 = F"
  shows "data AND 1 = F AND 1" "drop_bit 1 data AND 3 = drop_bit 1 F AND 3" "data AND 8 = F AND 8"
proof -
  have "data AND 1 = (data AND mask 4) AND 1" "data AND 8 = (data AND mask 4) AND 8"
    by (simp_all add: and.assoc mask_eq_exp_minus_1)
  then show "data AND 1 = F AND 1" "data AND 8 = F AND 8" by (simp_all only: assms)
  have "drop_bit 1 data AND 3 = drop_bit 1 ((data AND mask 4) AND 6)"
    by (simp add: and.assoc mask_eq_exp_minus_1 drop_bit_and)
  then show "drop_bit 1 data AND 3 = drop_bit 1 F AND 3" by (simp add: assms drop_bit_and)
qed

lemma kind_bits:
  assumes "bar_bits_ok kind n" and "data = (w AND NOT (mask n)) OR bar_flags kind p"
  shows "data AND 1 \<noteq> 0 \<longleftrightarrow> kind = IO_space"
    and "kind \<noteq> IO_space \<Longrightarrow> drop_bit 1 data AND 3 = (if kind = Memory_64 then 2 else 0)"
    and "kind \<noteq> IO_space \<Longrightarrow> data AND 8 \<noteq> 0 \<longleftrightarrow> p"
proof -
  have mem: "data AND mask 4 = bar_flags kind p" if "kind \<noteq> IO_space"
  proof -
    have "bar_flags kind p AND NOT (mask 4) = 0" "4 \<le> n"
      using that assms(1) by (cases kind; simp add: bar_flags_def mask_eq_exp_minus_1 bar_bits_ok_def)+
    then show ?thesis unfolding assms(2) by (rule flag_bits(2))
  qed
  have io: "data AND 1 = 1" if "kind = IO_space"
  proof -
    have "(1 :: u32) AND NOT (mask 2) = 0" "2 \<le> n"
      using that assms(1) by (simp_all add: mask_eq_exp_minus_1 bar_bits_ok_def)
    then have "data AND mask 2 = 1" unfolding assms(2) using that by (simp add: bar_flags_def flag_bits(2))
    moreover have "data AND 1 = (data AND mask 2) AND 1" by (simp add: and.assoc mask_eq_exp_minus_1)
    ultimately show ?thesis by simp
  qed
  show "data AND 1 \<noteq> 0 \<longleftrightarrow> kind = IO_space"
  proof (cases "kind = IO_space")
    case False
    then have "data AND 1 = bar_flags kind p AND 1" by (rule low_bits(1) [OF mem])
    with False show ?thesis by (cases kind) (simp_all add: bar_flags_def)
  qed (use io in simp)
  show "drop_bit 1 data AND 3 = (if kind = Memory_64 then 2 else 0)" if "kind \<noteq> IO_space"
    using low_bits(2) [OF mem [OF that]] that by (cases kind) (auto simp: bar_flags_def)
  show "data AND 8 \<noteq> 0 \<longleftrightarrow> p" if "kind \<noteq> IO_space"
    using low_bits(3) [OF mem [OF that]] that by (cases kind) (auto simp: bar_flags_def)
qed

section \<open>Sizing\<close>

definition programmed :: "bar_kind \<Rightarrow> u32 \<Rightarrow> u32 \<Rightarrow> u64" where
  "programmed kind wl wh = (if kind = Memory_64 then push_bit 32 (ucast wh) OR ucast wl else ucast wl)"

definition bar_found :: "bar_kind \<Rightarrow> bool \<Rightarrow> nat \<Rightarrow> u64 \<Rightarrow> bar \<Rightarrow> bool" where
  "bar_found kind prefetch n addr b \<longleftrightarrow>
     is_valid b \<and> is_64_bits b = (kind = Memory_64) \<and> is_IO b = (kind = IO_space) \<and>
     (kind = IO_space \<or> is_prefetchable b = prefetch) \<and> bar_size b = 2 ^ n \<and> bar_base b = addr AND NOT (mask n)"

lemma probe_bar_data:
  fixes data w wh :: u32
  assumes "bar_bits_ok kind n" and data: "data = (w AND NOT (mask n)) OR bar_flags kind p"
  shows "(if data AND 1 \<noteq> 0 then bar_io data ((0xFFFFFFFF AND NOT (mask n)) OR bar_flags kind p)
      else if drop_bit 1 data AND 3 = 3 then (False, 0, 0)
      else if kind = Memory_64
        then bar_mem64 data (wh AND NOT (mask (n - 32))) ((0xFFFFFFFF AND NOT (mask n)) OR bar_flags kind p)
               (0xFFFFFFFF AND NOT (mask (n - 32)))
      else bar_mem32 data ((0xFFFFFFFF AND NOT (mask n)) OR bar_flags kind p)) =
    (True, 2 ^ n, programmed kind w wh AND NOT (mask n))"
proof -
  have low: "ucast (w AND NOT (mask n)) = (ucast w AND NOT (mask n) :: u64)" if "n < 32"
    using that by (intro bit_word_eqI) (auto simp: bit_simps dest: bit_imp_le_length)
  note kb = kind_bits [OF assms]
  show ?thesis
  proof (cases kind)
    case IO_space
    then have n: "2 \<le> n" "n < 32" using assms(1) by (simp_all add: bar_bits_ok_def)
    have "bar_flags kind p = 1" using IO_space by (simp add: bar_flags_def)
    then show ?thesis
      using bar_io_ok [OF n, of w] kb(1) IO_space low [OF n(2)] data by (simp only: if_True programmed_def bar_kind.distinct if_False simp_thms)
  next
    case Memory_32
    then have n: "4 \<le> n" "n < 32" using assms(1) by (simp_all add: bar_bits_ok_def)
    have "data AND 1 = 0" "drop_bit 1 data AND 3 = 0" using kb(1,2) Memory_32 by simp_all
    moreover have "(0 :: u32) \<noteq> 3" by simp
    ultimately show ?thesis
      using bar_mem32_ok [OF n, of w p] Memory_32 low [OF n(2)] data
      by (simp only: if_False programmed_def bar_kind.distinct zero_neq_numeral simp_thms)
  next
    case Memory_64
    then have n: "4 \<le> n" "n < 64" using assms(1) by (simp_all add: bar_bits_ok_def)
    have "data AND 1 = 0" "drop_bit 1 data AND 3 = 2" using kb(1,2) Memory_64 by simp_all
    moreover have "(2 :: u32) \<noteq> 3" by simp
    ultimately show ?thesis
      using bar_mem64_ok [OF n, of w p wh] Memory_64 data
      by (simp only: if_True if_False programmed_def simp_thms)
  qed
qed

text \<open>The accesses of a probe of a register whose value is \<open>data\<close>, \<open>high\<close> its high word, \<open>c\<close> the command,
  \<open>m\<close> and \<open>mh\<close> what is read back.\<close>

definition probe_history :: "u64 \<Rightarrow> u64 \<Rightarrow> u64 \<Rightarrow> bool \<Rightarrow> u32 \<Rightarrow> u32 \<Rightarrow> u16 \<Rightarrow> u32 \<Rightarrow> u32 \<Rightarrow> history \<Rightarrow> history" where
  "probe_history lo hi cmd wide data high c m mh tr =
     RegW16 cmd c # RegW lo data #
     (if wide then [RegW hi high, RegR hi mh, RegR lo m, RegW hi 0xFFFFFFFF] else [RegR lo m]) @
     [RegW lo 0xFFFFFFFF, RegW16 cmd (c AND NOT 3), RegR16 cmd c] @
     (if wide then [RegR hi high] else []) @ RegR lo data # tr"

lemma probe_history_facts:
  fixes lo hi cmd wide data high c m mh tr
  defines "tr' \<equiv> probe_history lo hi cmd wide data high c m mh tr"
  assumes "lo \<noteq> hi" "lo \<noteq> cmd" "hi \<noteq> cmd"
  shows "last_write lo v tr' = data" "last_write16 cmd d tr' = c" "wide \<Longrightarrow> last_write hi v tr' = high"
    and "quiet_writes cmd d (length tr) tr'"
  using assms by (cases wide; simp add: probe_history_def quiet_writes_def upt_rec and.assoc)+

lemma probe_bar_run:
  fixes k :: "'z machine_scheme" and base bus device fn i
  defines "lo \<equiv> pcie_config_addr base bus device fn (bar_offset i)"
    and "hi \<equiv> pcie_config_addr base bus device fn (bar_offset i + 4)"
    and "cmd \<equiv> pcie_config_addr base bus device fn 4"
  assumes dev: "bar_device hw lo hi cmd kind p n lo0 hi0 cmd0" and n: "bar_bits_ok kind n"
    and ne: "lo \<noteq> hi" "lo \<noteq> cmd" "hi \<noteq> cmd"
  defines "data \<equiv> (last_write lo lo0 (trace k) AND NOT (mask n)) OR bar_flags kind p"
    and "high \<equiv> last_write hi hi0 (trace k) AND NOT (mask (n - 32))"
  shows "\<exists>m'. probe_bar hw base bus device fn i False k =
    (\<lparr>is_valid = True, is_64_bits = (kind = Memory_64), is_IO = (kind = IO_space), is_prefetchable = (data AND 8 \<noteq> 0),
      bar_base = programmed kind (last_write lo lo0 (trace k)) (last_write hi hi0 (trace k)) AND NOT (mask n),
      bar_size = 2 ^ n\<rparr>, kind = Memory_64,
     k\<lparr>mem := m', trace := probe_history lo hi cmd (kind = Memory_64) data high (last_write16 cmd cmd0 (trace k))
        ((0xFFFFFFFF AND NOT (mask n)) OR bar_flags kind p) (0xFFFFFFFF AND NOT (mask (n - 32))) (trace k)\<rparr>)"
proof -
  let ?F = "bar_flags kind p" let ?M = "NOT (mask n) :: u32" let ?H = "NOT (mask (n - 32)) :: u32"
  let ?six = "kind = Memory_64" let ?w = "last_write lo lo0 (trace k)" let ?wh = "last_write hi hi0 (trace k)"
  let ?tr = "probe_history lo hi cmd ?six data high (last_write16 cmd cmd0 (trace k)) ((0xFFFFFFFF AND ?M) OR ?F)
    (0xFFFFFFFF AND ?H) (trace k)"
  have l: "\<And>tr m. reg_in hw tr m lo = (last_write lo lo0 tr AND ?M) OR ?F"
    and h: "\<And>tr m. ?six \<Longrightarrow> reg_in hw tr m hi = last_write hi hi0 tr AND ?H"
    and c: "\<And>tr m. ucast (reg_in hw tr m cmd) = last_write16 cmd cmd0 tr"
    using dev by (simp_all add: bar_device_def)
  define k1 where "k1 = snd (reg_read hw lo k)"
  have k1: "reg_read hw lo k = (data, k1)" "trace k1 = RegR lo data # trace k" "k1\<lparr>mem := x, trace := y\<rparr> = k\<lparr>mem := x, trace := y\<rparr>"
    for x y by (simp_all add: k1_def reg_read_def Let_def l data_def)
  obtain m' where "probe_masks hw base bus device fn (bar_offset i) data ?six k1 =
      ((if ?six then high else 0, (0xFFFFFFFF AND ?M) OR ?F, if ?six then 0xFFFFFFFF AND ?H else 0),
       k1\<lparr>mem := m', trace := ?tr\<rparr>)"
    using probe_masks_run [where off = "bar_offset i" and wide = "?six" and data = data and k = k1,
        OF l [unfolded lo_def] h [unfolded hi_def] c [unfolded cmd_def]] ne ne [symmetric]
    by (cases "?six") (auto simp: k1(2) high_def probe_history_def simp flip: lo_def hi_def cmd_def)
  note pm = this [unfolded k1(3)]
  note kb = kind_bits [OF n data_def [THEN meta_eq_to_obj_eq]]
  have six: "(\<not> data AND 1 \<noteq> 0 \<and> drop_bit 1 data AND 3 = 2) = ?six"
    using kb(1,2) by (cases kind) simp_all
  have "(if data AND 1 \<noteq> 0 then bar_io data ((0xFFFFFFFF AND ?M) OR ?F)
      else if drop_bit 1 data AND 3 = 3 then (False, 0, 0)
      else if ?six then bar_mem64 data (if ?six then high else 0) ((0xFFFFFFFF AND ?M) OR ?F)
               (if ?six then 0xFFFFFFFF AND ?H else 0)
      else bar_mem32 data ((0xFFFFFFFF AND ?M) OR ?F)) = (True, 2 ^ n, programmed kind ?w ?wh AND NOT (mask n))"
    using probe_bar_data [OF n data_def [THEN meta_eq_to_obj_eq], of ?wh] unfolding high_def
    by (cases "?six") (simp_all only: if_True if_False simp_thms)
  then show ?thesis
    unfolding probe_bar_def PCIE_read32_def lo_def [symmetric] k1(1) Let_def prod.case six pm if_False
    using kb(1) by (intro exI [of _ m']) simp
qed

text \<open>C19. On a device that decodes \<open>2 ^ n\<close> bytes, the probe of a base address register finds the kind, the size and
  the base that is programmed, leaves every register with the value it had, and changes base address
  registers only while decoding is off.\<close>

theorem probe_bar_sizes:
  fixes k :: "'z machine_scheme"
  assumes "bar_device hw (pcie_config_addr base bus device function (bar_offset i))
      (pcie_config_addr base bus device function (bar_offset i + 4)) (pcie_config_addr base bus device function 4)
      kind prefetch n lo0 hi0 cmd0"
    and "bar_bits_ok kind n" and "i < 6"
  shows "\<exists>b k'. probe_bar hw base bus device function i False k = (b, kind = Memory_64, k') \<and>
    (let lo = pcie_config_addr base bus device function (bar_offset i);
         hi = pcie_config_addr base bus device function (bar_offset i + 4);
         cmd = pcie_config_addr base bus device function 4 in
     bar_found kind prefetch n (programmed kind (last_write lo lo0 (trace k)) (last_write hi hi0 (trace k))) b \<and>
     (\<forall>m. reg_in hw (trace k') m lo = reg_in hw (trace k) m lo) \<and>
     (kind = Memory_64 \<longrightarrow> (\<forall>m. reg_in hw (trace k') m hi = reg_in hw (trace k) m hi)) \<and>
     last_write16 cmd cmd0 (trace k') = last_write16 cmd cmd0 (trace k) \<and>
     quiet_writes cmd cmd0 (length (trace k)) (trace k'))"
proof -
  let ?lo = "pcie_config_addr base bus device function (bar_offset i)"
  let ?hi = "pcie_config_addr base bus device function (bar_offset i + 4)"
  let ?cmd = "pcie_config_addr base bus device function 4"
  have ne: "?lo \<noteq> ?hi" "?lo \<noteq> ?cmd" "?hi \<noteq> ?cmd"
    using bar_offsets [OF assms(3)] by (simp_all add: config_addr_eq)
  note facts = probe_history_facts [OF ne]
  note kb = kind_bits(3) [OF assms(2) refl]
  show ?thesis
    unfolding Let_def
    apply (rule exE [OF probe_bar_run [OF assms(1,2) ne, of k]])
    apply (intro exI, rule conjI, assumption)
    using kb assms(1)
    by (auto simp: bar_found_def facts bar_device_def and.assoc mask_again)
qed

text \<open>A device 3 on bus 0 with a prefetchable 64-bit register of 64 KiB, programmed to 0xC0000000.\<close>

definition demo_bar :: "u16 \<Rightarrow> u64" where
  "demo_bar offset = pcie_config_addr 0xB0000000 0 3 0 offset"

definition demo_bar_hw :: hardware where
  "demo_bar_hw = \<lparr>port_in = (\<lambda>_ _. 0),
     reg_in = (\<lambda>tr m a.
       if a = demo_bar 0x10 then (last_write (demo_bar 0x10) 0 tr AND NOT (mask 16)) OR bar_flags Memory_64 True
       else if a = demo_bar 0x14 then last_write (demo_bar 0x14) 0 tr AND NOT (mask 0)
       else ucast (last_write16 (demo_bar 4) 6 tr)),
     dma = (\<lambda>_ m. m)\<rparr>"

definition demo_bar_machine :: machine where
  "demo_bar_machine = \<lparr>mem = (\<lambda>_. 0), console = [], trace = [RegW (demo_bar 0x10) 0xC0000000]\<rparr>"

lemma ucast_16_32: "(ucast (ucast (x :: u16) :: u32) :: u16) = x"
  by (rule bit_word_eqI) (simp add: bit_simps)

theorem probe_bar_sizes_witness:
  "\<exists>b k'. probe_bar demo_bar_hw 0xB0000000 0 3 0 0 False demo_bar_machine = (b, True, k') \<and>
     is_valid b \<and> is_64_bits b \<and> is_prefetchable b \<and> bar_size b = 0x10000 \<and> bar_base b = 0xC0000000 \<and>
     last_write16 (demo_bar 4) 6 (trace k') = 6 \<and> quiet_writes (demo_bar 4) 6 1 (trace k')"
proof -
  have off: "bar_offset 0 = 0x10" by (simp add: bar_offset_def)
  have dev: "bar_device demo_bar_hw (pcie_config_addr 0xB0000000 0 3 0 (bar_offset 0))
      (pcie_config_addr 0xB0000000 0 3 0 (bar_offset 0 + 4)) (pcie_config_addr 0xB0000000 0 3 0 4) Memory_64 True 16 0 0 6"
    by (simp add: bar_device_def demo_bar_hw_def demo_bar_def off config_addr_eq ucast_16_32)
  have ok: "bar_bits_ok Memory_64 16" by (simp add: bar_bits_ok_def)
  have tr: "trace demo_bar_machine = [RegW (demo_bar 0x10) 0xC0000000]" by (simp add: demo_bar_machine_def)
  show ?thesis
    using probe_bar_sizes [OF dev ok, of demo_bar_machine]
    by (simp add: Let_def tr off bar_found_def programmed_def demo_bar_def config_addr_eq mask_eq_exp_minus_1) (elim exE conjE, intro exI conjI, assumption+)
qed

text \<open>A register of I/O space that decodes 16 address bits only, as the specification allows, reads back
  zeros in the upper half of the mask; its size is then computed wrongly.\<close>

lemma bar_io_16_bits: "bar_io 0xC001 0x0000FFE1 = (True, 0xFFFF0020, 0xC000)"
  by (simp add: bar_io_def)

end
