(* ===== verification/Component_Bus.thy ===== *)
theory Component_Bus
  imports Pcie
begin

text \<open>
  Finding the devices: \<^verbatim>\<open>PCIE_init\<close>, \<^verbatim>\<open>PCIE_get_devices\<close> and
  \<^verbatim>\<open>PCIE_print_devices\<close> of \<^verbatim>\<open>pcie.c\<close>, and the component bus on top of
  them (\<^verbatim>\<open>component_bus/common.c\<close>).
\<close>

section \<open>Initialisation\<close>

definition mcfg_table_count :: "memory \<Rightarrow> u64 \<Rightarrow> u32" where
  "mcfg_table_count m table = (table_length m table - 44) div 16"

definition say_mcfg_entry :: "u64 \<Rightarrow> u64 \<Rightarrow> 'z machine_scheme \<Rightarrow> 'z machine_scheme" where
  "say_mcfg_entry table i k =
     (let e = read_mcfg_entry (mem k) (mcfg_entry_at table i) in
      say_hexLN (ucast (end_bus e)) (say ''End bus:''
        (say_hexLN (ucast (start_bus e)) (say ''Start bus:''
          (say_hexLN (ucast (base_address e)) (say ''ECAM base:'' k))))))"

definition PCIE_init :: "'z pcie_scheme \<Rightarrow> (bool \<times> 'z pcie_scheme) result" where
  "PCIE_init k =
     andthen (ACPI_get_table (literal ''MCFG'') k) (\<lambda>(table, k1).
     if table = 0 then Inr (False, say_LN ''PCIE Unable to get MCFG table'' k1)
     else
       let n = mcfg_table_count (mem k1) table;
           k2 = for_u64 0 (ucast n) (say_mcfg_entry table) k1 in
       Inr (True, k2\<lparr>MCFG := table, MCFG_entries := n\<rparr>))"

section \<open>Enumeration\<close>

text \<open>One base address register of the device with index \<open>idx\<close>; the array grows by eight when the
  device does not fit. The state is \<^verbatim>\<open>last_BAR_was_64\<close>, the array and the kernel.\<close>

definition bar_step ::
  "(u64 \<Rightarrow> nat \<Rightarrow> component) \<Rightarrow> hardware \<Rightarrow> u64 \<Rightarrow> u8 \<Rightarrow> u8 \<Rightarrow> u8 \<Rightarrow> nat \<Rightarrow> nat \<Rightarrow>
     bool \<times> dev_array \<times> 'z manager_scheme \<Rightarrow> (bool \<times> dev_array \<times> 'z manager_scheme) result" where
  "bar_step raw hw base bus device function idx i = (\<lambda>(skip, arr, k).
     let (b, is_64, k1) = probe_bar hw base bus device function i skip k in
     andthen (if idx \<ge> length (da arr) then move_devices raw arr (word_of_nat (length (da arr) + 8)) (length (da arr)) k1
              else Inr (arr, k1)) (\<lambda>(arr1, k2).
     andthen (set_device idx (\<lambda>d. d\<lparr>bars := (bars d)[i := b]\<rparr>) arr1) (\<lambda>arr2. Inr (is_64, arr2, k2))))"

definition fill_device :: "u8 \<Rightarrow> u8 \<Rightarrow> u8 \<Rightarrow> u32 \<Rightarrow> u32 \<Rightarrow> component \<Rightarrow> component" where
  "fill_device bus device function ident class_info d =
     d\<lparr>c_bus := bus, c_device := device, c_function := function, bus_type := COMPONENT_DEVICE_TYPE_PCIE,
       class_code := ucast (drop_bit 24 class_info), prog_if := ucast (drop_bit 8 class_info),
       revision := ucast class_info, c_subclass := ucast (drop_bit 16 class_info),
       device_id := ucast (drop_bit 16 ident), vendor_id := ucast ident\<rparr>"

text \<open>One function of a device. The state is the array, \<^verbatim>\<open>devices_IDX\<close> and the
  kernel; \<open>entry\<close> is the address of the MCFG entry.\<close>

definition probe_function ::
  "(u64 \<Rightarrow> nat \<Rightarrow> component) \<Rightarrow> hardware \<Rightarrow> u64 \<Rightarrow> u8 \<Rightarrow> u8 \<Rightarrow> u8 \<Rightarrow>
     dev_array \<times> nat \<times> 'z manager_scheme \<Rightarrow> (dev_array \<times> nat \<times> 'z manager_scheme) result" where
  "probe_function raw hw entry bus device function = (\<lambda>(arr, idx, k).
     let base = base_address (read_mcfg_entry (mem k) entry);
         (ident, k1) = PCIE_read32 hw base bus device function 0 k in
     if (ucast ident :: u16) = 0xFFFF then Inr (arr, idx, k1)
     else
       andthen (for_u64_r 0 6 (\<lambda>i. bar_step raw hw base bus device function idx (unat i)) (False, arr, k1)) (\<lambda>(_, arr1, k2).
       let (class_info, k3) = PCIE_read32 hw base bus device function 0x08 k2 in
       andthen (set_device idx (fill_device bus device function ident class_info) arr1) (\<lambda>arr2.
       andthen (kalloc sizeof_mcfg_entry k3) (\<lambda>(p, k4).
       if p = 0 then Inl NullDeref
       else
         andthen (set_device idx (\<lambda>d. d\<lparr>driver_entry := Some (read_mcfg_entry (mem k4) entry)\<rparr>) arr2) (\<lambda>arr3.
         Inr (arr3, idx + 1, k4))))))"

text \<open>The loop over the buses of an entry, whose last bus is read from the table on every pass.\<close>

function probe_buses ::
  "(u64 \<Rightarrow> nat \<Rightarrow> component) \<Rightarrow> hardware \<Rightarrow> u64 \<Rightarrow> u64 \<Rightarrow>
     dev_array \<times> nat \<times> 'z manager_scheme \<Rightarrow> (dev_array \<times> nat \<times> 'z manager_scheme) result" where
  "probe_buses raw hw entry bus (arr, idx, k) =
     (if bus \<le> ucast (end_bus (read_mcfg_entry (mem k) entry)) then
        (case for_u64_r 0 32 (\<lambda>device. for_u64_r 0 8 (\<lambda>function.
                probe_function raw hw entry (ucast bus) (ucast device) (ucast function))) (arr, idx, k) of
           Inl f \<Rightarrow> Inl f
         | Inr st \<Rightarrow> probe_buses raw hw entry (bus + 1) st)
      else Inr (arr, idx, k))"
  by pat_completeness auto
termination
proof (relation "measure (\<lambda>(_, _, _, bus, _). 256 - unat bus)")
  fix raw hw entry and bus :: u64 and arr idx and k :: "'z manager_scheme" and st
  assume le: "bus \<le> ucast (end_bus (read_mcfg_entry (mem k) entry))"
  have "unat (end_bus (read_mcfg_entry (mem k) entry)) < 256"
    using unsigned_less [of "end_bus (read_mcfg_entry (mem k) entry)", where ?'a = nat] by simp
  then have "unat bus < 256"
    using le by (simp add: word_le_nat_alt unsigned_ucast_eq take_bit_nat_eq_self)
  then have "unat (bus + 1) = unat bus + 1" using unat_add_u64 [of bus 1] by simp
  then show "((raw, hw, entry, bus + 1, st), raw, hw, entry, bus, arr, idx, k) \<in> measure (\<lambda>(_, _, _, bus, _). 256 - unat bus)"
    using \<open>unat bus < 256\<close> by simp
qed simp

declare probe_buses.simps [simp del]

definition probe_all ::
  "(u64 \<Rightarrow> nat \<Rightarrow> component) \<Rightarrow> hardware \<Rightarrow> dev_array \<times> nat \<times> 'z pcie_scheme \<Rightarrow> (dev_array \<times> nat \<times> 'z pcie_scheme) result" where
  "probe_all raw hw = (\<lambda>(arr, idx, k).
     for_u64_r 0 (ucast (MCFG_entries k))
       (\<lambda>i (arr, idx, k).
          let entry = mcfg_entry_at (MCFG k) i in
          probe_buses raw hw entry (ucast (start_bus (read_mcfg_entry (mem k) entry))) (arr, idx, k))
       (arr, idx, k))"

section \<open>Assigning addresses\<close>

text \<open>One register of one device; \<open>rax\<close> is what the return register holds when
  \<^verbatim>\<open>k_bump_alloc_aligned\<close> returns, from the size and the state before the call.\<close>

definition assign_bar ::
  "(u64 \<Rightarrow> 'z manager_scheme \<Rightarrow> u64) \<Rightarrow> hardware \<Rightarrow> nat \<Rightarrow> nat \<Rightarrow>
     dev_array \<times> 'z manager_scheme \<Rightarrow> (dev_array \<times> 'z manager_scheme) result" where
  "assign_bar rax hw i f = (\<lambda>(arr, k).
     let d = da arr ! i; b = bars d ! f in
     if length (da arr) \<le> i \<or> length (bars d) \<le> f then Inl OutOfBounds
     else if \<not> is_valid b \<or> bar_size b = 0 then Inr (arr, k)
     else
       andthen (k_bump_alloc_aligned (rax (bar_size b) k) (bar_size b) (bar_size b) k) (\<lambda>(new_base, k1).
       if new_base = 0 then
         Inr (arr, say_LN ''cant find memory'' (say_hex64LN (bar_size b) (say ''BAR size: '' k1)))
       else
         andthen (PCIE_remap_BAR hw d f new_base k1) (\<lambda>(remapped, d', k2).
         if remapped then
           Inr (arr\<lparr>da := (da arr)[i := d']\<rparr>,
                say_LN ''----'' (say_hex64LN (bar_base (bars d' ! f)) (say '' TO '' (say_hex64 (bar_base b)
                  (say_LN ''BAR remapped'' k2)))))
         else Inl Halted)))"

text \<open>The whole routine: the array and \<^verbatim>\<open>*devices_size\<close>, which is its length.\<close>

definition PCIE_get_devices ::
  "(u64 \<Rightarrow> nat \<Rightarrow> component) \<Rightarrow> (u64 \<Rightarrow> 'z pcie_scheme \<Rightarrow> u64) \<Rightarrow> hardware \<Rightarrow> 'z pcie_scheme \<Rightarrow>
     (dev_array \<times> 'z pcie_scheme) result" where
  "PCIE_get_devices raw rax hw k =
     andthen (new_devices raw 16 k) (\<lambda>(arr, k1).
     andthen (probe_all raw hw (arr, 0, k1)) (\<lambda>(arr1, idx, k2).
     andthen (if idx < length (da arr1) then move_devices raw arr1 (word_of_nat idx) idx k2 else Inr (arr1, k2)) (\<lambda>(arr2, k3).
     for_u64_r 0 (word_of_nat (length (da arr2)))
       (\<lambda>i. for_u64_r 0 6 (\<lambda>f. assign_bar rax hw (unat i) (unat f))) (arr2, k3))))"

section \<open>Vendors\<close>

definition vendors :: "(u16 \<times> string) list" where
  "vendors =
     [(0x8086, ''Intel''), (0x1022, ''AMD''), (0x10DE, ''NVIDIA''), (0x1002, ''ATI''), (0x10EC, ''Realtek''),
      (0x14E4, ''Broadcom''), (0x1AF4, ''Red Hat''), (0x1234, ''QEMU''), (0x80EE, ''VirtualBox''), (0x15AD, ''VMware''),
      (0x1013, ''Cirrus Logic''), (0x1106, ''VIA''), (0x11AB, ''Marvell''), (0x1B21, ''ASMedia''),
      (0x1B4B, ''Marvell Technology''), (0x19E5, ''Huawei''), (0x17CB, ''Qualcomm''), (0x14C3, ''MediaTek''),
      (0x1D6B, ''Linux Foundation''), (0x144D, ''Samsung''), (0x1344, ''Micron''), (0x1C5C, ''SK hynix''),
      (0x1B96, ''Western Digital''), (0x1C58, ''Western Digital''), (0x1179, ''Toshiba''), (0x104C, ''Texas Instruments''),
      (0x10B5, ''PLX Technology''), (0x1033, ''NEC''), (0x1043, ''ASUSTeK''), (0x1028, ''Dell''), (0x103C, ''HP''),
      (0x107B, ''Gateway''), (0x1025, ''Acer''), (0x17AA, ''Lenovo''), (0x10CF, ''Fujitsu''), (0x13B5, ''ARM''),
      (0x1AE0, ''Google''), (0x1A03, ''ASPEED''), (0x1B36, ''Red Hat/QEMU''), (0x1D0F, ''Amazon''),
      (0x1DA8, ''Ampere Computing''), (0x1969, ''Atheros''), (0x168C, ''Qualcomm Atheros''), (0x14F1, ''Conexant''),
      (0x14F2, ''RDC Semiconductor''), (0x10B7, ''3Com''), (0x10DF, ''Emulex''), (0x1077, ''QLogic''), (0x8087, ''Intel'')]"

fun vendor_from :: "(u16 \<times> string) list \<Rightarrow> u16 \<Rightarrow> string" where
  "vendor_from [] v = ''Unknown''"
| "vendor_from ((i, name) # vs) v = (if i = v then name else vendor_from vs v)"

definition COMPONENT_vendor_name :: "u16 \<Rightarrow> string" where
  "COMPONENT_vendor_name v = vendor_from vendors v"

section \<open>Printing\<close>

definition print_function :: "hardware \<Rightarrow> u64 \<Rightarrow> u64 \<Rightarrow> u64 \<Rightarrow> u64 \<Rightarrow> 'z machine_scheme \<Rightarrow> 'z machine_scheme" where
  "print_function hw entry bus device function k =
     (let base = base_address (read_mcfg_entry (mem k) entry);
          (ident, k1) = PCIE_read32 hw base (ucast bus) (ucast device) (ucast function) 0 k;
          vendor = (ucast ident :: u16) in
      if vendor = 0xFFFF then k1
      else
        let k2 = say_hexLN (ucast (ucast (drop_bit 16 ident) :: u16))
                  (say_LN (COMPONENT_vendor_name vendor) (say '' as '' (say_hex (ucast vendor)
                    (say_LN ''----'' (say_hex (ucast function) (say ''.'' (say_hex (ucast device) (say '':''
                      (say_hex (ucast bus) (say ''----'' k1))))))))));
            (class_info, k3) = PCIE_read32 hw base (ucast bus) (ucast device) (ucast function) 0x08 k2 in
        say_hexLN (ucast (ucast (drop_bit 8 class_info) :: u8)) (say ''prog if: ''
          (say_hexLN (ucast (ucast (drop_bit 16 class_info) :: u8)) (say ''Sub class: ''
            (say_hexLN (ucast (ucast (drop_bit 24 class_info) :: u8)) (say ''Class: '' k3))))))"

text \<open>The last bus of an entry is left out here, unlike in the enumeration.\<close>

function print_buses :: "hardware \<Rightarrow> u64 \<Rightarrow> u64 \<Rightarrow> 'z machine_scheme \<Rightarrow> 'z machine_scheme" where
  "print_buses hw entry bus k =
     (if bus < ucast (end_bus (read_mcfg_entry (mem k) entry)) then
        print_buses hw entry (bus + 1)
          (for_u64 0 32 (\<lambda>device. for_u64 0 8 (\<lambda>function. print_function hw entry bus device function)) k)
      else k)"
  by pat_completeness auto
termination
proof (relation "measure (\<lambda>(_, _, bus, _). 256 - unat bus)")
  fix hw entry and bus :: u64 and k :: "'z machine_scheme"
  assume "bus < ucast (end_bus (read_mcfg_entry (mem k) entry))"
  moreover have "unat (end_bus (read_mcfg_entry (mem k) entry)) < 256"
    using unsigned_less [of "end_bus (read_mcfg_entry (mem k) entry)", where ?'a = nat] by simp
  ultimately have "unat bus < 256"
    by (simp add: word_less_nat_alt unsigned_ucast_eq take_bit_nat_eq_self)
  then have "unat (bus + 1) = unat bus + 1" using unat_add_u64 [of bus 1] by simp
  then show "((hw, entry, bus + 1, for_u64 0 32 (\<lambda>device. for_u64 0 8 (\<lambda>function. print_function hw entry bus device function)) k),
      hw, entry, bus, k) \<in> measure (\<lambda>(_, _, bus, _). 256 - unat bus)"
    using \<open>unat bus < 256\<close> by simp
qed simp

declare print_buses.simps [simp del]

definition PCIE_print_devices :: "hardware \<Rightarrow> 'z pcie_scheme \<Rightarrow> 'z pcie_scheme" where
  "PCIE_print_devices hw k =
     for_u64 0 (ucast (MCFG_entries k))
       (\<lambda>i k. let entry = mcfg_entry_at (MCFG k) i in
              print_buses hw entry (ucast (start_bus (read_mcfg_entry (mem k) entry))) k) k"

section \<open>The component bus\<close>

text \<open>The static variables of \<^verbatim>\<open>common.c\<close>: the array and its length
  \<^verbatim>\<open>devices_got\<close>.\<close>

record component_bus = pcie +
  devices :: dev_array

definition component_bus_init ::
  "(u64 \<Rightarrow> nat \<Rightarrow> component) \<Rightarrow> (u64 \<Rightarrow> 'z component_bus_scheme \<Rightarrow> u64) \<Rightarrow> hardware \<Rightarrow> 'z component_bus_scheme \<Rightarrow>
     (bool \<times> 'z component_bus_scheme) result" where
  "component_bus_init raw rax hw k =
     andthen (PCIE_init k) (\<lambda>(ok, k1).
     if \<not> ok then Inr (False, k1)
     else andthen (PCIE_get_devices raw rax hw k1) (\<lambda>(arr, k2). Inr (True, k2\<lparr>devices := arr\<rparr>)))"

text \<open>The loop over the devices that collects the ones that match; the state is the array, the number
  of elements in it and the kernel. The array grows by sixteen.\<close>

definition collect_step ::
  "(u64 \<Rightarrow> nat \<Rightarrow> component) \<Rightarrow> (component \<Rightarrow> bool) \<Rightarrow> component \<Rightarrow>
     dev_array \<times> nat \<times> 'z manager_scheme \<Rightarrow> (dev_array \<times> nat \<times> 'z manager_scheme) result" where
  "collect_step raw match d = (\<lambda>(arr, idx, k).
     if \<not> match d then Inr (arr, idx, k)
     else
       andthen (if idx \<ge> length (da arr) then move_devices raw arr (word_of_nat (length (da arr) + 16)) (length (da arr)) k
                else Inr (arr, k)) (\<lambda>(arr1, k1).
       andthen (set_device idx (\<lambda>_. d) arr1) (\<lambda>arr2. Inr (arr2, idx + 1, k1))))"

fun collect ::
  "(u64 \<Rightarrow> nat \<Rightarrow> component) \<Rightarrow> (component \<Rightarrow> bool) \<Rightarrow> component list \<Rightarrow>
     dev_array \<times> nat \<times> 'z manager_scheme \<Rightarrow> (dev_array \<times> nat \<times> 'z manager_scheme) result" where
  "collect raw match [] st = Inr st"
| "collect raw match (d # ds) st = andthen (collect_step raw match d st) (collect raw match ds)"

definition get_matching ::
  "(u64 \<Rightarrow> nat \<Rightarrow> component) \<Rightarrow> (component \<Rightarrow> bool) \<Rightarrow> 'z component_bus_scheme \<Rightarrow> (dev_array \<times> 'z component_bus_scheme) result" where
  "get_matching raw match k =
     andthen (new_devices raw 16 k) (\<lambda>(arr, k1).
     andthen (collect raw match (da (devices k)) (arr, 0, k1)) (\<lambda>(arr1, idx, k2).
     if idx < length (da arr1) then move_devices raw arr1 (word_of_nat idx) idx k2 else Inr (arr1, k2)))"

definition component_bus_get_devices ::
  "(u64 \<Rightarrow> nat \<Rightarrow> component) \<Rightarrow> u8 \<Rightarrow> u8 \<Rightarrow> 'z component_bus_scheme \<Rightarrow> (dev_array \<times> 'z component_bus_scheme) result" where
  "component_bus_get_devices raw cls sub k =
     get_matching raw (\<lambda>d. class_code d = cls \<and> c_subclass d = sub) k"

definition component_bus_get_devicesEX ::
  "(u64 \<Rightarrow> nat \<Rightarrow> component) \<Rightarrow> u8 \<Rightarrow> u8 \<Rightarrow> u8 \<Rightarrow> 'z component_bus_scheme \<Rightarrow> (dev_array \<times> 'z component_bus_scheme) result" where
  "component_bus_get_devicesEX raw cls sub pi k =
     get_matching raw (\<lambda>d. class_code d = cls \<and> c_subclass d = sub \<and> prog_if d = pi) k"

end
