(* ===== verification/Heap_Arrays.thy ===== *)
theory Heap_Arrays
  imports Kernel_Heap
begin

text \<open>
  Arrays that grow: a routine that holds one block of the root heap and replaces it by a larger or a
  smaller one (allocate, copy, free the old block). The heap is described exactly, by the heap it
  started from and the one run that is held.
\<close>

definition array_held :: "heap \<Rightarrow> u64 \<Rightarrow> u64 \<Rightarrow> heap \<Rightarrow> bool" where
  "array_held h sz p h' \<longleftrightarrow>
     (if sz = 0 then p = 0 \<and> h' = h
      else list_ex (\<lambda>s. run_free h s (needed_blocks h sz) \<and> p = block_addr h s \<and>
                        h' = take_run h s (needed_blocks h sz)) [0..<Suc (length (blocks h))])"

lemma array_held_0 [simp]: "array_held h 0 p h' \<longleftrightarrow> p = 0 \<and> h' = h"
  by (simp add: array_held_def)

lemma array_held_iff:
  assumes "sz \<noteq> 0"
  shows "array_held h sz p h' \<longleftrightarrow>
    (\<exists>s. run_free h s (needed_blocks h sz) \<and> p = block_addr h s \<and> h' = take_run h s (needed_blocks h sz))"
  using assms by (auto simp: array_held_def list_ex_iff run_free_def simp del: upt_Suc)

lemma array_heldE:
  assumes "array_held h sz p h'" and "sz \<noteq> 0"
  obtains s where "run_free h s (needed_blocks h sz)" "p = block_addr h s" "h' = take_run h s (needed_blocks h sz)"
  using assms array_held_iff by blast

lemma needed_pos: "heap_inv h \<Longrightarrow> size_ok h sz \<Longrightarrow> 0 < needed_blocks h sz"
  using needed_nat(2) [of h sz] by simp

lemma array_held_inv:
  assumes "heap_inv h" and "array_held h sz p h'"
  shows "heap_inv h'" and "sz \<noteq> 0 \<Longrightarrow> p \<noteq> 0"
proof -
  show "heap_inv h'"
    using assms heap_inv_take by (cases "sz = 0") (auto simp: array_held_iff)
  show "p \<noteq> 0" if "sz \<noteq> 0"
    using assms that block_addr_nonzero [OF assms(1)] by (auto simp: array_held_iff run_free_def)
qed

lemma array_held_live:
  assumes "heap_inv h" and "array_held h sz p h'" and "size_ok h sz"
  shows "\<exists>s. p = block_addr h s \<and> (s, s + needed_blocks h sz) \<notin> live h \<and>
             live h' = insert (s, s + needed_blocks h sz) (live h)"
proof -
  obtain s where s: "run_free h s (needed_blocks h sz)" "p = block_addr h s"
    "h' = take_run h s (needed_blocks h sz)" using assms by (auto simp: array_held_iff)
  have "(s, s + needed_blocks h sz) \<notin> live h"
  proof
    assume l: "(s, s + needed_blocks h sz) \<in> live h"
    then have "taken (blocks h) s"
      using live_blocks [OF assms(1) l, of s] needed_pos [OF assms(1,3)] by simp
    then show False using s(1) needed_pos [OF assms(1,3)] by (auto simp: run_free_def blocked_iff)
  qed
  then show ?thesis using s live_take [OF assms(1) s(1) needed_pos [OF assms(1,3)]] by blast
qed

lemma array_held_grant:
  assumes "heap_inv h" and "array_held h sz p h'" and "size_ok h sz"
  shows "grant h sz p h'"
  using assms run_grant by (auto simp: array_held_iff)

section \<open>Replacing the run that is held\<close>

text \<open>One run is held; of a free run three times as long, a third is still free beside it.\<close>

lemma room_beside:
  assumes "run_free h s a" and "room h (3 * b)" and "a \<le> b"
  shows "room (take_run h s a) b"
proof -
  obtain u where u: "run_free h u (3 * b)" using assms(2) by (auto simp: room_iff)
  let ?v = "if s + a \<le> u + 2 * b then u + 2 * b else u"
  have "s + a \<le> length (blocks h)" using assms(1) by (simp add: run_free_def)
  then have "run_free (take_run h s a) ?v b"
    using u assms(3) by (auto simp: run_free_def blocked_iff taken_take [simplified])
  then show ?thesis by (auto simp: room_iff)
qed

lemma swap_run:
  assumes "heap_inv h" and s: "run_free h s a" "0 < a" and t: "run_free (take_run h s a) t b"
  shows "run_free h t b" and "free (take_run (take_run h s a) t b) (block_addr h s) = Inr (take_run h t b)"
proof -
  let ?h1 = "take_run h s a" and ?h2 = "take_run (take_run h s a) t b"
  have sl: "s + a \<le> length (blocks h)" and tl: "t + b \<le> length (blocks h)"
    using s t by (auto simp: run_free_def)
  have apart: "\<not> (s \<le> j \<and> j < s + a)" if "t \<le> j" "j < t + b" for j
    using t that taken_take [OF sl] by (auto simp: run_free_def blocked_iff)
  show "run_free h t b"
    using t taken_take [OF sl] by (auto simp: run_free_def blocked_iff)
  have inv: "heap_inv ?h1" "heap_inv ?h2"
    using assms heap_inv_take by blast+
  have "free ?h2 (block_addr ?h2 s + word_of_nat 0) = Inr (clear_run ?h2 s (unat (end_block (blocks ?h2 ! s))))"
    using sl s(2) heap_invD(1) [OF inv(2)] by (intro free_eq [OF inv(2)]) auto
  moreover have "blocks ?h2 ! s = run_entry s a"
    using apart [of s] sl s(2) by (auto simp: nth_fill)
  moreover have "s + a < 2 ^ 32" using sl heap_invD(2) [OF assms(1)] by simp
  moreover have "clear_run ?h2 s (s + a) = take_run h t b"
  proof -
    have "fill (fill (fill (blocks h) s (s + a) (run_entry s a)) t (t + b) (run_entry t b)) s (s + a) free_entry ! j
        = fill (blocks h) t (t + b) (run_entry t b) ! j" if "j < length (blocks h)" for j
    proof (cases "s \<le> j \<and> j < s + a")
      case True
      then have "\<not> taken (blocks h) j" using s by (auto simp: run_free_def blocked_iff)
      then have "blocks h ! j = free_entry" by (rule entry_free [OF heap_invD(3) [OF assms(1)] that])
      then show ?thesis using True apart [of j] that by (auto simp: nth_fill)
    next
      case False
      then show ?thesis using that by (auto simp: nth_fill)
    qed
    then have "fill (fill (fill (blocks h) s (s + a) (run_entry s a)) t (t + b) (run_entry t b)) s (s + a) free_entry
        = fill (blocks h) t (t + b) (run_entry t b)"
      by (intro nth_equalityI) simp_all
    then show ?thesis by (simp add: clear_run_def take_run_def)
  qed
  ultimately show "free ?h2 (block_addr h s) = Inr (take_run h t b)"
    by (simp add: run_entry_simps) (simp add: block_addr_def)
qed

lemma array_new:
  assumes "heap_inv h" and "room h b" and "needed_blocks h sz \<le> b" and "sz = 0 \<or> size_ok h sz"
  obtains p h' where "alloc h sz = Inr (p, h')" and "array_held h sz p h'"
proof (cases "sz = 0")
  case True
  then show thesis by (intro that [of 0 h]) (simp_all add: alloc_def)
next
  case False
  then have ok: "size_ok h sz" using assms(4) by simp
  obtain s where "run_free h s b" using assms(2) by (auto simp: room_iff)
  then have "run_free h s (needed_blocks h sz)" using assms(3) by (auto simp: run_free_def blocked_iff)
  from alloc_lowest [OF assms(1) ok this] obtain t where "run_free h t (needed_blocks h sz)"
    "alloc h sz = Inr (block_addr h t, take_run h t (needed_blocks h sz))" by blast
  then show thesis using ok by (intro that) (auto simp: array_held_iff)
qed

lemma array_replace:
  assumes inv: "heap_inv h" and room: "room h (3 * b)" and held: "array_held h sz p h1"
    and sz: "needed_blocks h sz \<le> b" "size_ok h sz" and tz: "needed_blocks h tz \<le> b" "tz = 0 \<or> size_ok h tz"
  obtains q h2 h3 where "alloc h1 tz = Inr (q, h2)" and "free h2 p = Inr h3" and "array_held h tz q h3"
proof -
  let ?a = "needed_blocks h sz"
  obtain s where s: "run_free h s ?a" "p = block_addr h s" "h1 = take_run h s ?a"
    using held sz(2) by (auto simp: array_held_iff)
  have inv1: "heap_inv h1" using inv s by (simp add: heap_inv_take)
  have nb: "needed_blocks h1 tz = needed_blocks h tz" by (simp add: s(3))
  show thesis
  proof (cases "tz = 0")
    case True
    have "free h1 p = Inr h" using free_take [OF inv s(1) needed_pos [OF inv sz(2)]] s by simp
    then show thesis using True by (intro that [of 0 h1 h]) (simp_all add: alloc_def)
  next
    case False
    then have tok: "size_ok h tz" using tz(2) by simp
    have "room h1 b" using room_beside [OF s(1) room sz(1)] s(3) by simp
    then obtain q h2 where q: "alloc h1 tz = Inr (q, h2)" "array_held h1 tz q h2"
      using array_new [OF inv1, of b tz] nb tz tok s(3) by auto
    obtain t where t: "run_free h1 t (needed_blocks h tz)" "q = block_addr h1 t"
      "h2 = take_run h1 t (needed_blocks h tz)"
      using array_heldE [OF q(2) False] nb by metis
    note sw = swap_run [OF inv s(1) needed_pos [OF inv sz(2)] t(1) [unfolded s(3)]]
    have "free h2 p = Inr (take_run h t (needed_blocks h tz))" using sw(2) t s by simp
    moreover have "array_held h tz q (take_run h t (needed_blocks h tz))"
      using sw(1) t(2) False s(3) by (auto simp: array_held_iff block_addr_def)
    ultimately show thesis using q(1) by (intro that)
  qed
qed

end
