(* ===== verification/Bus_Props.thy ===== *)
theory Bus_Props
  imports Component_Bus Heap_Arrays Demo_Disk
begin

text \<open>
  What the component bus promises to the drivers: a search returns exactly the devices that match, in the
  order of the enumeration, in a fresh array, and leaves nothing else on the heap.
\<close>

section \<open>Arrays of devices\<close>

abbreviation dev_bytes :: "nat \<Rightarrow> u64" where
  "dev_bytes n \<equiv> sizeof_component * word_of_nat n"

lemma unat_dev_bytes: "n \<le> 2 ^ 33 \<Longrightarrow> unat (dev_bytes n) = 176 * n"
  by (simp add: sizeof_component_def unat_word_ariths unat_of_nat_u64)

lemma dev_bytes_ok:
  assumes "n \<le> 2 ^ 33"
  shows "dev_bytes n = 0 \<or> size_ok h (dev_bytes n)" and "0 < n \<Longrightarrow> size_ok h (dev_bytes n)"
proof -
  have u: "unat (dev_bytes n) = 176 * n" using assms by (rule unat_dev_bytes)
  then have small: "unat (dev_bytes n) < 2 ^ 63" using assms by simp
  show "dev_bytes n = 0 \<or> size_ok h (dev_bytes n)" using size_ok_small [OF _ small] by blast
  assume "0 < n"
  then have "dev_bytes n \<noteq> 0" using u by (metis nat_0_less_mult_iff not_less_iff_gr_or_eq unat_0 zero_less_numeral)
  then show "size_ok h (dev_bytes n)" using size_ok_small [OF _ small] by blast
qed

lemma needed_dev_mono:
  "n \<le> m \<Longrightarrow> m \<le> 2 ^ 33 \<Longrightarrow> needed_blocks h (dev_bytes n) \<le> needed_blocks h (dev_bytes m)"
  by (simp add: needed_blocks_def unat_dev_bytes div_le_mono)

lemma dev_words: "n \<le> 2 ^ 33 \<Longrightarrow> unat (word_of_nat n :: u64) = n"
  by (simp add: unat_of_nat_u64)

text \<open>The array \<open>arr\<close> is what the routine holds, beside the heap \<open>h\<close> it started from.\<close>

definition holds_devices :: "heap \<Rightarrow> dev_array \<Rightarrow> heap \<Rightarrow> bool" where
  "holds_devices h arr h1 \<longleftrightarrow> array_held h (dev_bytes (length (da arr))) (da_ptr arr) h1"

lemma new_devices_ok:
  assumes "root_heap k = Some h" and "heap_inv h" and "room h b" and "needed_blocks h (dev_bytes n) \<le> b"
    and "n \<le> 2 ^ 33"
  obtains arr h' where "new_devices raw (word_of_nat n) k = Inr (arr, k\<lparr>root_heap := Some h'\<rparr>)"
    and "holds_devices h arr h'" and "length (da arr) = n"
proof -
  obtain p h' where p: "alloc h (dev_bytes n) = Inr (p, h')" "array_held h (dev_bytes n) p h'"
    using array_new [OF assms(2-4) dev_bytes_ok(1) [OF assms(5)]] by blast
  have "new_devices raw (word_of_nat n) k =
      Inr (\<lparr>da_ptr = p, da = map (raw p) [0..<unat (word_of_nat n :: u64)]\<rparr>, k\<lparr>root_heap := Some h'\<rparr>)"
    using p(1) assms(1) by (simp add: new_devices_def kalloc_def)
  then show thesis
    using p(2) dev_words [OF assms(5)]
    by (intro that [of "\<lparr>da_ptr = p, da = map (raw p) [0..<unat (word_of_nat n :: u64)]\<rparr>" h'])
      (simp_all add: holds_devices_def)
qed

lemma move_devices_ok:
  assumes k: "root_heap k = Some h1" and inv: "heap_inv h" and room: "room h (3 * b)"
    and held: "holds_devices h arr h1" "0 < length (da arr)"
    and lens: "length (da arr) \<le> m" "sz \<le> m" "m \<le> 2 ^ 33" "n \<le> length (da arr)" "n \<le> sz"
    and b: "needed_blocks h (dev_bytes m) \<le> b"
  obtains arr' h3 where "move_devices raw arr (word_of_nat sz) n k = Inr (arr', k\<lparr>root_heap := Some h3\<rparr>)"
    and "holds_devices h arr' h3" and "length (da arr') = sz" and "take n (da arr') = take n (da arr)"
proof -
  let ?l = "length (da arr)"
  have l33: "?l \<le> 2 ^ 33" "sz \<le> 2 ^ 33" using lens by simp_all
  have nb: "needed_blocks h (dev_bytes ?l) \<le> b" "needed_blocks h (dev_bytes sz) \<le> b"
    using needed_dev_mono [OF lens(1,3), of h] needed_dev_mono [OF lens(2,3), of h] b by simp_all
  obtain q h2 h3 where q: "alloc h1 (dev_bytes sz) = Inr (q, h2)" "free h2 (da_ptr arr) = Inr h3"
    "array_held h (dev_bytes sz) q h3"
    using array_replace [OF inv room held(1) [unfolded holds_devices_def] nb(1)
        dev_bytes_ok(2) [OF l33(1) held(2)] nb(2) dev_bytes_ok(1) [OF l33(2)]] by blast
  have ptr: "da_ptr arr \<noteq> 0"
    using array_held_inv(2) [OF inv held(1) [unfolded holds_devices_def]] dev_bytes_ok(2) [OF l33(1) held(2)] by blast
  have q0: "q \<noteq> 0" if "n \<noteq> 0"
    using array_held_inv(2) [OF inv q(3)] dev_bytes_ok(2) [OF l33(2), of h] that lens(5) by linarith
  let ?new = "map (raw q) [0..<sz]"
  have nd: "new_devices raw (word_of_nat sz) k = Inr (\<lparr>da_ptr = q, da = ?new\<rparr>, k\<lparr>root_heap := Some h2\<rparr>)"
    using q(1) k dev_words [OF l33(2)] by (simp add: new_devices_def kalloc_def)
  have cd: "copy_devices arr \<lparr>da_ptr = q, da = ?new\<rparr> n = Inr \<lparr>da_ptr = q, da = take n (da arr) @ drop n ?new\<rparr>"
    using ptr q0 by (simp add: copy_devices_def)
  have kf: "kfree (da_ptr arr) (k\<lparr>root_heap := Some h2\<rparr>) = Inr (k\<lparr>root_heap := Some h3\<rparr>)"
    using q(2) by (simp add: kfree_def)
  show thesis
  proof (rule that)
    show "move_devices raw arr (word_of_nat sz) n k =
        Inr (\<lparr>da_ptr = q, da = take n (da arr) @ drop n ?new\<rparr>, k\<lparr>root_heap := Some h3\<rparr>)"
      by (simp only: move_devices_def nd cd kf andthen_simps prod.case)
  qed (use q(3) lens in \<open>simp_all add: holds_devices_def\<close>)
qed

section \<open>The search\<close>

text \<open>The state of the loop: the devices found so far are the first elements of the array that is held.\<close>

definition collecting :: "heap \<Rightarrow> nat \<Rightarrow> component list \<Rightarrow> dev_array \<times> nat \<times> heap \<Rightarrow> bool" where
  "collecting h m found = (\<lambda>(arr, idx, h1).
     holds_devices h arr h1 \<and> 0 < length (da arr) \<and> length (da arr) \<le> m \<and> idx \<le> length (da arr) \<and>
     idx = length found \<and> take idx (da arr) = found)"

lemma collectingD:
  assumes "collecting h m found (arr, idx, h1)"
  shows "holds_devices h arr h1" "0 < length (da arr)" "length (da arr) \<le> m" "idx \<le> length (da arr)"
    "idx = length found" "take idx (da arr) = found"
  using assms unfolding collecting_def prod.case by blast+

lemma collect_step_ok:
  assumes k: "root_heap k = Some h1" and inv: "heap_inv h" and room: "room h (3 * b)"
    and b: "needed_blocks h (dev_bytes m) \<le> b" and m: "m \<le> 2 ^ 33" "length found + 16 \<le> m"
    and st: "collecting h m found (arr, idx, h1)"
  obtains arr' idx' h2 where
    "collect_step raw match d (arr, idx, k) = Inr (arr', idx', k\<lparr>root_heap := Some h2\<rparr>)"
    and "collecting h m (found @ filter match [d]) (arr', idx', h2)"
proof (cases "match d")
  case False
  have "k\<lparr>root_heap := Some h1\<rparr> = k" using k by simp
  then show thesis using False st by (intro that [of arr idx h1]) (simp_all add: collect_step_def)
next
  case True
  note s = collectingD [OF st]
  obtain arr1 h2 where grown: "(if idx \<ge> length (da arr)
        then move_devices raw arr (word_of_nat (length (da arr) + 16)) (length (da arr)) k else Inr (arr, k)) =
      Inr (arr1, k\<lparr>root_heap := Some h2\<rparr>)" and
    a1: "holds_devices h arr1 h2" "idx < length (da arr1)" "length (da arr1) \<le> m" "take idx (da arr1) = found"
  proof (cases "idx \<ge> length (da arr)")
    case True
    then have full: "idx = length (da arr)" using s(4) by simp
    then have le: "length (da arr) \<le> m" "length (da arr) + 16 \<le> m" using s(3,5) m(2) by simp_all
    obtain arr' h3 where mv: "move_devices raw arr (word_of_nat (length (da arr) + 16)) (length (da arr)) k =
          Inr (arr', k\<lparr>root_heap := Some h3\<rparr>)" "holds_devices h arr' h3" "length (da arr') = length (da arr) + 16"
        "take (length (da arr)) (da arr') = take (length (da arr)) (da arr)"
      by (rule move_devices_ok [OF k inv room s(1,2) le m(1) order_refl le_add1 b, of raw])
    have "idx < length (da arr')" using mv(3) s(4) by simp
    moreover have "length (da arr') \<le> m" using mv(3) le(2) by simp
    moreover have "take idx (da arr') = found" using mv(4) s(6) full by simp
    ultimately show thesis using mv(1,2) True by (intro that [of arr' h3]) (simp_all only: if_True)
  next
    case False
    have "k\<lparr>root_heap := Some h1\<rparr> = k" using k by simp
    then show thesis using False s(1,3,6) by (intro that [of arr h1]) simp_all
  qed
  have "dev_bytes (length (da arr1)) \<noteq> 0"
    using dev_bytes_ok(2) [of "length (da arr1)" h] a1(2,3) m(1) by (metis gr_implies_not0 le_trans not_gr_zero)
  then have "da_ptr arr1 \<noteq> 0" using array_held_inv(2) [OF inv a1(1) [unfolded holds_devices_def]] by blast
  then have "set_device idx (\<lambda>_. d) arr1 = Inr (arr1\<lparr>da := (da arr1)[idx := d]\<rparr>)"
    using a1(2) by (simp add: set_device_def)
  then have "collect_step raw match d (arr, idx, k) =
      Inr (arr1\<lparr>da := (da arr1)[idx := d]\<rparr>, idx + 1, k\<lparr>root_heap := Some h2\<rparr>)"
    using True grown by (simp add: collect_step_def del: of_nat_add)
  moreover have "take (Suc idx) ((da arr1)[idx := d]) = found @ [d]"
    using a1(2,4) by (simp add: take_Suc_conv_app_nth)
  then have "collecting h m (found @ filter match [d]) (arr1\<lparr>da := (da arr1)[idx := d]\<rparr>, idx + 1, h2)"
    using a1(1-3) s(5) True by (auto simp: collecting_def holds_devices_def)
  ultimately show thesis by (rule that)
qed

lemma collect_ok:
  assumes "root_heap k = Some h1" and "heap_inv h" and "room h (3 * b)"
    and "needed_blocks h (dev_bytes m) \<le> b" and "m \<le> 2 ^ 33" and "length found + length ds + 15 \<le> m"
    and "collecting h m found (arr, idx, h1)"
  shows "\<exists>arr' idx' h2. collect raw match ds (arr, idx, k) = Inr (arr', idx', k\<lparr>root_heap := Some h2\<rparr>) \<and>
           collecting h m (found @ filter match ds) (arr', idx', h2)"
  using assms(1,6,7)
proof (induction ds arbitrary: found arr idx k h1)
  case Nil
  have "k\<lparr>root_heap := Some h1\<rparr> = k" using Nil.prems(1) by simp
  then show ?case using Nil.prems by (intro exI [of _ arr] exI [of _ idx] exI [of _ h1]) simp
next
  case (Cons d ds)
  have le: "length found + 16 \<le> m" using Cons.prems(2) by simp
  obtain arr1 idx1 h2 where step: "collect_step raw match d (arr, idx, k) = Inr (arr1, idx1, k\<lparr>root_heap := Some h2\<rparr>)"
    "collecting h m (found @ filter match [d]) (arr1, idx1, h2)"
    using collect_step_ok [OF Cons.prems(1) assms(2-5) le Cons.prems(3)] by metis
  have "\<exists>arr' idx' h3. collect raw match ds (arr1, idx1, k\<lparr>root_heap := Some h2\<rparr>) =
        Inr (arr', idx', (k\<lparr>root_heap := Some h2\<rparr>)\<lparr>root_heap := Some h3\<rparr>) \<and>
      collecting h m ((found @ filter match [d]) @ filter match ds) (arr', idx', h3)"
    using Cons.prems(2) step(2) by (intro Cons.IH) simp_all
  then show ?case using step(1) by (auto split: if_splits)
qed

lemma get_matching_ok:
  fixes k :: "'z component_bus_scheme"
  defines "n \<equiv> length (da (devices k))"
  assumes k: "root_heap k = Some h" and inv: "heap_inv h" and n: "length (da (devices k)) < 2 ^ 32"
    and room: "room h (3 * needed_blocks h (dev_bytes (length (da (devices k)) + 16)))"
  shows "\<exists>p h'. get_matching raw match k =
            Inr (\<lparr>da_ptr = p, da = filter match (da (devices k))\<rparr>, k\<lparr>root_heap := Some h'\<rparr>) \<and>
          array_held h (dev_bytes (length (filter match (da (devices k))))) p h'"
proof -
  let ?ds = "da (devices k)" let ?m = "n + 16" let ?b = "needed_blocks h (dev_bytes ?m)"
  have m: "?m \<le> 2 ^ 33" using n by (simp add: n_def)
  have room1: "room h ?b" using room by (rule room_mono) (simp add: n_def)
  have nb: "needed_blocks h (dev_bytes 16) \<le> ?b" using m by (intro needed_dev_mono) simp_all
  obtain arr h1 where new: "new_devices raw (word_of_nat 16) k = Inr (arr, k\<lparr>root_heap := Some h1\<rparr>)"
    "holds_devices h arr h1" "length (da arr) = 16"
    by (rule new_devices_ok [OF k inv room1 nb, of raw]) simp_all
  have "collecting h ?m [] (arr, 0, h1)" using new by (auto simp: collecting_def)
  then obtain arr1 idx h2 where c: "collect raw match ?ds (arr, 0, k\<lparr>root_heap := Some h1\<rparr>) =
      Inr (arr1, idx, k\<lparr>root_heap := Some h2\<rparr>)" "collecting h ?m (filter match ?ds) (arr1, idx, h2)"
    using collect_ok [of "k\<lparr>root_heap := Some h1\<rparr>" h1 h ?b ?m "[]" ?ds arr 0 raw match] room m inv
    by (auto simp: n_def)
  note s = collectingD [OF c(2)]
  show ?thesis
  proof (cases "idx < length (da arr1)")
    case True
    obtain arr2 h3 where mv: "move_devices raw arr1 (word_of_nat idx) idx (k\<lparr>root_heap := Some h2\<rparr>) =
        Inr (arr2, (k\<lparr>root_heap := Some h2\<rparr>)\<lparr>root_heap := Some h3\<rparr>)"
      "holds_devices h arr2 h3" "length (da arr2) = idx" "take idx (da arr2) = take idx (da arr1)"
      by (rule move_devices_ok [OF _ inv room [folded n_def] s(1-3) _ m s(4) order_refl order_refl, of "k\<lparr>root_heap := Some h2\<rparr>" raw])
        (use True s(3) in simp_all)
    have "da arr2 = filter match ?ds" using mv(3,4) s(6) by simp
    then have "arr2 = \<lparr>da_ptr = da_ptr arr2, da = filter match ?ds\<rparr>" by (cases arr2) simp
    moreover have "get_matching raw match k = Inr (arr2, k\<lparr>root_heap := Some h3\<rparr>)"
      using new(1) c(1) mv(1) True by (simp add: get_matching_def)
    ultimately show ?thesis using mv(2) unfolding holds_devices_def by (metis dev_array.select_convs(2))
  next
    case False
    then have "da arr1 = filter match ?ds" using s(4,6) by simp
    then have "arr1 = \<lparr>da_ptr = da_ptr arr1, da = filter match ?ds\<rparr>" by (cases arr1) simp
    moreover have "get_matching raw match k = Inr (arr1, k\<lparr>root_heap := Some h2\<rparr>)"
      using new(1) c(1) False by (simp add: get_matching_def)
    ultimately show ?thesis using s(1) unfolding holds_devices_def by (metis dev_array.select_convs(2))
  qed
qed

section \<open>The searches\<close>

text \<open>C20. With room for three arrays of the length of the whole list and sixteen entries more, both searches of the component bus return the
  devices with the given class, subclass and (for the second) programming interface, all of them and in the
  order of the enumeration; the array is a fresh block of the root heap, which is otherwise as before,
  and NULL for an empty result.\<close>

theorem component_bus_searches:
  fixes k :: "'z component_bus_scheme"
  assumes "root_heap k = Some h" and "heap_inv h" and "length (da (devices k)) < 2 ^ 32"
    and "room h (3 * needed_blocks h (sizeof_component * word_of_nat (length (da (devices k)) + 16)))"
  shows "(\<exists>p h'. let found = filter (\<lambda>d. class_code d = cls \<and> c_subclass d = sub) (da (devices k)) in
      component_bus_get_devices raw cls sub k = Inr (\<lparr>da_ptr = p, da = found\<rparr>, k\<lparr>root_heap := Some h'\<rparr>) \<and>
      array_held h (sizeof_component * word_of_nat (length found)) p h') \<and>
    (\<exists>p h'. let found = filter (\<lambda>d. class_code d = cls \<and> c_subclass d = sub \<and> prog_if d = pi) (da (devices k)) in
      component_bus_get_devicesEX raw cls sub pi k = Inr (\<lparr>da_ptr = p, da = found\<rparr>, k\<lparr>root_heap := Some h'\<rparr>) \<and>
      array_held h (sizeof_component * word_of_nat (length found)) p h')"
  using get_matching_ok [OF assms(1-3)] assms(4)
  by (simp add: component_bus_get_devices_def component_bus_get_devicesEX_def Let_def del: of_nat_add)

definition demo_component :: "u8 \<Rightarrow> u8 \<Rightarrow> u8 \<Rightarrow> component" where
  "demo_component cls sub dev =
     \<lparr>bus_type = 1, c_bus = 0, c_device = dev, c_function = 0, vendor_id = 0x8086, device_id = 0x2922,
      class_code = cls, c_subclass = sub, prog_if = 1, revision = 2, header_type = 0, bars = [], irq_line = 0,
      irq_pin = 0, driver_entry = None\<rparr>"

definition demo_bus :: component_bus where
  "demo_bus = \<lparr>mem = (\<lambda>_. 0), console = [], trace = [], RSD_T = 0, memory_map = None, ranges = [],
     root_heap = Some sim_heap, low_heap = None, bump_heap = None, MCFG = 0, MCFG_entries = 0,
     devices = \<lparr>da_ptr = 0x100000, da = [demo_component 1 6 2, demo_component 2 0 3, demo_component 1 6 31]\<rparr>\<rparr>"

theorem component_bus_searches_witness:
  "\<exists>p h'. component_bus_get_devicesEX (\<lambda>_ _. demo_component 0 0 0) 1 6 1 demo_bus =
     Inr (\<lparr>da_ptr = p, da = [demo_component 1 6 2, demo_component 1 6 31]\<rparr>, demo_bus\<lparr>root_heap := Some h'\<rparr>) \<and>
     (\<exists>s. p = block_addr sim_heap s \<and> live h' = insert (s, s + 1) (live sim_heap))"
proof -
  let ?raw = "\<lambda>_ _. demo_component 0 0 0" and ?found = "[demo_component 1 6 2, demo_component 1 6 31]"
  have h: "root_heap demo_bus = Some sim_heap" "length (da (devices demo_bus)) < 2 ^ 32"
    "room sim_heap (3 * needed_blocks sim_heap (sizeof_component * word_of_nat (length (da (devices demo_bus)) + 16)))"
    by (simp_all add: demo_bus_def sim_blocks sizeof_component_def sim_room)
  have "filter (\<lambda>d. class_code d = 1 \<and> c_subclass d = 6 \<and> prog_if d = 1) (da (devices demo_bus)) = ?found"
    by (simp add: demo_bus_def demo_component_def)
  then obtain p h' where r: "component_bus_get_devicesEX ?raw 1 6 1 demo_bus =
      Inr (\<lparr>da_ptr = p, da = ?found\<rparr>, demo_bus\<lparr>root_heap := Some h'\<rparr>)" "array_held sim_heap (dev_bytes (length ?found)) p h'"
    using component_bus_searches [OF h(1) sim_heap_inv h(2,3), of 1 6 ?raw 1] by (auto simp: Let_def)
  have "size_ok sim_heap (dev_bytes (length ?found))" by (rule dev_bytes_ok(2)) simp_all
  then have "\<exists>s. p = block_addr sim_heap s \<and> live h' = insert (s, s + 1) (live sim_heap)"
    using array_held_live [OF sim_heap_inv r(2)] by (auto simp: sim_blocks sizeof_component_def)
  then show ?thesis using r(1) by blast
qed

end
