(* ===== verification/Sata_Disks.thy ===== *)
theory Sata_Disks
  imports Sata Component_Bus
begin

text \<open>
  Finding the disks: \<^verbatim>\<open>SATA_get_disks\<close> (\<^verbatim>\<open>sata.c\<close>) asks the component bus
  for the AHCI controllers and identifies what is behind their ports, and
  \<^verbatim>\<open>get_disk_devices\<close> (\<^verbatim>\<open>disk/common.c\<close>) chooses the driver.
\<close>

section \<open>Layout\<close>

definition SATA_SIG :: u32 where "SATA_SIG = 0x00000101"
definition ATAPI_SIG :: u32 where "ATAPI_SIG = 0xEB140101"
definition PX_SIG :: u64 where "PX_SIG = 0x24"
definition PX_SSTS :: u64 where "PX_SSTS = 0x28"
definition sizeof_SATA_port_data :: u64 where "sizeof_SATA_port_data = 32"
definition sizeof_SATA_driver_data :: u64 where "sizeof_SATA_driver_data = 32"

text \<open>An array of pointers to disks; \<open>None\<close> is NULL. What a new array holds is the parameter \<open>rawp\<close>,
  what a new structure holds is \<open>raw\<close>.\<close>

record disk_array =
  ka_ptr :: u64
  ka :: "disk_device option list"

definition new_disk_array :: "(u64 \<Rightarrow> nat \<Rightarrow> disk_device option) \<Rightarrow> u64 \<Rightarrow> 'z manager_scheme \<Rightarrow> (disk_array \<times> 'z manager_scheme) result" where
  "new_disk_array rawp n k =
     andthen (kalloc (8 * n) k) (\<lambda>(p, k1). Inr (\<lparr>ka_ptr = p, ka = map (rawp p) [0..<unat n]\<rparr>, k1))"

definition copy_disk_array :: "disk_array \<Rightarrow> disk_array \<Rightarrow> nat \<Rightarrow> disk_array result" where
  "copy_disk_array src dest n =
     (if n = 0 then Inr dest
      else if ka_ptr src = 0 \<or> ka_ptr dest = 0 then Inl NullDeref
      else Inr (dest\<lparr>ka := take n (ka src) @ drop n (ka dest)\<rparr>))"

definition move_disk_array ::
  "(u64 \<Rightarrow> nat \<Rightarrow> disk_device option) \<Rightarrow> disk_array \<Rightarrow> u64 \<Rightarrow> nat \<Rightarrow> 'z manager_scheme \<Rightarrow>
     (disk_array \<times> 'z manager_scheme) result" where
  "move_disk_array rawp arr sz n k =
     andthen (new_disk_array rawp sz k) (\<lambda>(buff, k1).
     andthen (copy_disk_array arr buff n) (\<lambda>buff'.
     andthen (kfree (ka_ptr arr) k1) (\<lambda>k2. Inr (buff', k2))))"

definition set_disk :: "nat \<Rightarrow> disk_device \<Rightarrow> disk_array \<Rightarrow> disk_array result" where
  "set_disk i d arr =
     (if ka_ptr arr = 0 then Inl NullDeref
      else if i < length (ka arr) then Inr (arr\<lparr>ka := (ka arr)[i := Some d]\<rparr>)
      else Inl OutOfBounds)"

section \<open>One port\<close>

text \<open>The model name: twenty words with their bytes swapped, and a NUL.\<close>

definition SATA_get_model :: "memory \<Rightarrow> u64 \<Rightarrow> u8 list" where
  "SATA_get_model m identify =
     concat (map (\<lambda>i. let w = read_u16 m (identify + 2 * word_of_nat (27 + i)) in
                      [ucast (drop_bit 8 w), ucast (w AND 0xFF)]) [0..<20]) @ [0]"

definition identify_fis :: "u64 \<Rightarrow> memory \<Rightarrow> memory" where
  "identify_fis sp m = (memset sp 0 sizeof_fis m)(sp := 0x27, sp + 1 := push_bit 7 1, sp + 2 := CMD_SATA_IDENTIFY)"

text \<open>What is done for a port with a SATA disk, from the allocation of the identify buffer to the
  message; \<open>hba\<close> is the register base, \<open>f\<close> the number of the port.\<close>

definition SATA_new_disk ::
  "hardware \<Rightarrow> u64 \<Rightarrow> (u64 \<Rightarrow> disk_device) \<Rightarrow> u64 \<Rightarrow> u64 \<Rightarrow> u8 \<Rightarrow> u32 \<Rightarrow> u32 \<Rightarrow> 'z manager_scheme \<Rightarrow>
     (disk_device \<times> 'z manager_scheme) result" where
  "SATA_new_disk hw sp raw hba port f cap sig k =
     andthen (low_kalloc_aligned 512 512 k) (\<lambda>(id_buff, k1).
     andthen (kalloc sizeof_SATA_port_data k1) (\<lambda>(port_data, k2).
     if id_buff = 0 \<or> port_data = 0 then Inl Halted
     else
       let k3 = upd_mem (identify_fis sp) k2; slot = ucast (drop_bit 8 cap AND 0x1F) + 1 in
       andthen (SATA_port_configure hw port slot k3) (\<lambda>(configured, k4).
       case configured of
         None \<Rightarrow> Inl Halted
       | Some pd \<Rightarrow>
           andthen (kalloc 41 k4) (\<lambda>(name, k5).
           let (sent, k6) = SATA_execute_command hw port pd sp id_buff 512 False k5 in
           if \<not> sent then Inl Halted
           else if name = 0 then Inl NullDeref
           else
             let k7 = say_LN ''SATA: sent command'' k6; model = SATA_get_model (mem k7) id_buff in
             andthen (kalloc sizeof_disk_device k7) (\<lambda>(dev, k8).
             if dev = 0 then Inl NullDeref
             else
               andthen (kalloc sizeof_SATA_driver_data k8) (\<lambda>(data, k9).
               if data = 0 then Inl NullDeref
               else
                 let d = (raw dev)\<lparr>d_type := DISK_SATA, d_driver := SATA_driver_data hba port pd f, d_name := model\<rparr> in
                 andthen (kfree name k9) (\<lambda>k10.
                 andthen (low_kfree id_buff k10) (\<lambda>k11.
                 andthen (c_string model) (\<lambda>text.
                 Inr (d, say newline (say_bytes text (say ''  '' (say_hex sig
                           (say ''SATA: fount SATA device !: '' k11))))))))))))))"

text \<open>One pass of the loop over the ports; the state is the array, \<^verbatim>\<open>ret_IDX\<close> and the
  kernel.\<close>

definition SATA_port_step ::
  "hardware \<Rightarrow> u64 \<Rightarrow> (u64 \<Rightarrow> disk_device) \<Rightarrow> (u64 \<Rightarrow> nat \<Rightarrow> disk_device option) \<Rightarrow> u64 \<Rightarrow> u32 \<Rightarrow> u32 \<Rightarrow> u8 \<Rightarrow>
     disk_array \<times> nat \<times> 'z manager_scheme \<Rightarrow> (disk_array \<times> nat \<times> 'z manager_scheme) result" where
  "SATA_port_step hw sp raw rawp hba cap pi f = (\<lambda>(arr, idx, k).
     if pi AND push_bit (unat f) 1 = 0 then Inr (arr, idx, k)
     else
       let port = hba + 0x100 + ucast f * 0x80; (ssts, k1) = reg_read hw (port + PX_SSTS) k in
       if \<not> (ssts AND 0x0F = 3 \<and> drop_bit 8 ssts AND 0x0F = 1) then Inr (arr, idx, k1)
       else
         let (sig, k2) = reg_read hw (port + PX_SIG) k1 in
         if sig = ATAPI_SIG then Inr (arr, idx, say_LN ''SATA: ATAPI is not supported :('' k2)
         else if sig \<noteq> SATA_SIG then Inr (arr, idx, say_LN ''SATA: unknown device'' k2)
         else
           andthen (SATA_new_disk hw sp raw hba port f cap sig k2) (\<lambda>(d, k3).
           andthen (if idx \<ge> length (ka arr)
                    then move_disk_array rawp arr (word_of_nat (length (ka arr) + 16)) (length (ka arr)) k3
                    else Inr (arr, k3)) (\<lambda>(arr1, k4).
           andthen (set_disk idx d arr1) (\<lambda>arr2. Inr (arr2, idx + 1, k4)))))"

section \<open>All controllers\<close>

definition SATA_controller_step ::
  "hardware \<Rightarrow> u64 \<Rightarrow> (u64 \<Rightarrow> disk_device) \<Rightarrow> (u64 \<Rightarrow> nat \<Rightarrow> disk_device option) \<Rightarrow> component \<Rightarrow>
     disk_array \<times> nat \<times> 'z manager_scheme \<Rightarrow> (disk_array \<times> nat \<times> 'z manager_scheme) result" where
  "SATA_controller_step hw sp raw rawp d = (\<lambda>(arr, idx, k).
     if length (bars d) \<le> 5 then Inl OutOfBounds
     else if \<not> is_valid (bars d ! 5) then Inr (arr, idx, k)
     else
       let b = bars d ! 5; abar = bar_base b;
           k1 = say_hexLN (ucast (bar_size b)) (say ''SATA: BAR size: ''
                 (say_hexLN (of_bool (is_valid b)) (say ''SATA: BAR valid: ''
                 (say_hexLN (ucast abar) (say ''SATA: ABAR: '' k)))));
           (cap, k2) = reg_read hw abar k1; (ghc, k3) = reg_read hw (abar + 4) k2;
           (pi, k4) = reg_read hw (abar + 12) k3; (vs, k5) = reg_read hw (abar + 16) k4 in
       for_u64_r 0 (ucast ((cap AND 0x1F) + 1)) (\<lambda>f. SATA_port_step hw sp raw rawp abar cap pi (ucast f)) (arr, idx, k5))"

definition SATA_get_disks ::
  "(u64 \<Rightarrow> nat \<Rightarrow> component) \<Rightarrow> (u64 \<Rightarrow> disk_device) \<Rightarrow> (u64 \<Rightarrow> nat \<Rightarrow> disk_device option) \<Rightarrow> hardware \<Rightarrow> u64 \<Rightarrow>
     'z component_bus_scheme \<Rightarrow> (disk_array \<times> 'z component_bus_scheme) result" where
  "SATA_get_disks rawc raw rawp hw sp k =
     andthen (component_bus_get_devicesEX rawc 0x01 0x06 0x01 k) (\<lambda>(controllers, k1).
     andthen (new_disk_array rawp 16 k1) (\<lambda>(arr, k2).
     andthen (for_u64_r 0 (word_of_nat (length (da controllers)))
               (\<lambda>i. SATA_controller_step hw sp raw rawp (da controllers ! unat i)) (arr, 0, k2)) (\<lambda>(arr1, idx, k3).
     if idx < length (ka arr1) then move_disk_array rawp arr1 (word_of_nat idx) idx k3 else Inr (arr1, k3))))"

section \<open>The choice of the driver\<close>

definition ATA_CHANN_PRIMARY :: u32 where "ATA_CHANN_PRIMARY = 0x1F0"
definition ATA_CHANN_SECONDARY :: u32 where "ATA_CHANN_SECONDARY = 0x170"
definition ATA_MASTER :: u32 where "ATA_MASTER = 0xA0"
definition ATA_SLAVE :: u32 where "ATA_SLAVE = 0xB0"

definition ata_place ::
  "hardware \<Rightarrow> (u64 \<Rightarrow> disk_device) \<Rightarrow> nat \<Rightarrow> u32 \<Rightarrow> u32 \<Rightarrow> disk_array \<times> 'z manager_scheme \<Rightarrow>
     (disk_array \<times> 'z manager_scheme) result" where
  "ata_place hw raw i chann sub = (\<lambda>(arr, k).
     andthen (ATA_identify hw raw chann sub k) (\<lambda>(d, k1).
     andthen (set_disk i d arr) (\<lambda>arr1. Inr (arr1, k1))))"

text \<open>The result is the array and \<^verbatim>\<open>*size\<close>; an unknown type leaves \<^verbatim>\<open>*size\<close> as
  \<open>size0\<close> and returns NULL.\<close>

definition get_disk_devices ::
  "(u64 \<Rightarrow> nat \<Rightarrow> component) \<Rightarrow> (u64 \<Rightarrow> disk_device) \<Rightarrow> (u64 \<Rightarrow> nat \<Rightarrow> disk_device option) \<Rightarrow> hardware \<Rightarrow> u64 \<Rightarrow>
     u8 \<Rightarrow> u64 \<Rightarrow> 'z component_bus_scheme \<Rightarrow> (disk_array \<times> u64 \<times> 'z component_bus_scheme) result" where
  "get_disk_devices rawc raw rawp hw sp kind size0 k =
     (let none = \<lparr>ka_ptr = 0, ka = []\<rparr> in
      if kind = 1 then
        andthen (new_disk_array rawp 4 k) (\<lambda>st.
        andthen (ata_place hw raw 0 ATA_CHANN_PRIMARY ATA_MASTER st) (\<lambda>st.
        andthen (ata_place hw raw 1 ATA_CHANN_PRIMARY ATA_SLAVE st) (\<lambda>st.
        andthen (ata_place hw raw 2 ATA_CHANN_SECONDARY ATA_MASTER st) (\<lambda>st.
        andthen (ata_place hw raw 3 ATA_CHANN_SECONDARY ATA_SLAVE st) (\<lambda>(arr, k1). Inr (arr, 4, k1))))))
      else if kind = 2 then
        andthen (SATA_get_disks rawc raw rawp hw sp k) (\<lambda>(arr, k1). Inr (arr, word_of_nat (length (ka arr)), k1))
      else if kind = 0 then Inr (none, 0, k)
      else Inr (none, size0, k))"

end
