(* ===== verification/Kernel.thy ===== *)
theory Kernel
  imports Sata_Disks Exfat
begin

text \<open>
  The kernel proper (\<^verbatim>\<open>kernel.c\<close>): \<^verbatim>\<open>init\<close> brings the machine up,
  \<^verbatim>\<open>kernel_main\<close> looks for the file \<^verbatim>\<open>/ketone/hello\<close> on every exFAT
  partition of every disk and prints it.
\<close>

record kernel = component_bus +
  kernel_size_SECTORS :: u64

text \<open>What the code does not determine: the hardware, the stack address of local structures, the
  contents of fresh heap memory, the return register of \<^verbatim>\<open>k_bump_alloc_aligned\<close>, and where
  the linker puts the path.\<close>

record environment =
  env_hw :: hardware
  env_sp :: u64
  env_component :: "u64 \<Rightarrow> nat \<Rightarrow> component"
  env_disk :: "u64 \<Rightarrow> disk_device"
  env_disk_ptr :: "u64 \<Rightarrow> nat \<Rightarrow> disk_device option"
  env_file :: "u64 \<Rightarrow> exfat_file"
  env_rax :: "u64 \<Rightarrow> kernel \<Rightarrow> u64"
  env_hello_path :: u64

section \<open>Initialisation\<close>

text \<open>The memory map of the bootloader, a packed structure in byte memory.\<close>

definition read_e820_entry :: "memory \<Rightarrow> u64 \<Rightarrow> e820_entry" where
  "read_e820_entry m a =
     \<lparr>e_base = read_u64 m a, e_length = read_u64 m (a + 8), e_type = read_u32 m (a + 16), e_attributes = read_u32 m (a + 20)\<rparr>"

definition read_e820_map :: "memory \<Rightarrow> u64 \<Rightarrow> e820_map" where
  "read_e820_map m a =
     \<lparr>e_count = read_u16 m a, e_entries = map (\<lambda>i. read_e820_entry m (a + 2 + 24 * word_of_nat i)) [0..<64]\<rparr>"

definition init_kernel :: "environment \<Rightarrow> kernel \<Rightarrow> kernel result" where
  "init_kernel env k =
     (let k1 = say_LN ''HALLO FROM THE KETONE KERNEL IN 64BIT MODE !'' (k\<lparr>trace := serial_init (trace k)\<rparr>);
          p = kernel_size_SECTORS k1;
          k2 = upd_mem (\<lambda>m. write_u32 p (read_u32 m p + 4) m) k1;
          k3 = say_hexLN (read_u32 (mem k2) p * 512) (say ''Kernel size: '' k2);
          (ok, k4) = ACPI_init k3 in
      if \<not> ok then Inl Halted
      else
        andthen (mem_manager_init 0x40000000 (read_u32 (mem k4) p) (read_e820_map (mem k4) 0x8F04) 0x10000000 k4) (\<lambda>k5.
        andthen (kalloc 4 k5) (\<lambda>(q, k6).
        if q = 0 then Inl NullDeref
        else
          let k7 = (upd_mem (\<lambda>m. write_u32 q (read_u32 m p) m) k6)\<lparr>kernel_size_SECTORS := q\<rparr> in
          andthen (component_bus_init (env_component env) (env_rax env) (env_hw env) k7) (\<lambda>(ok, k8).
          if ok then Inr k8 else Inl Halted))))"

section \<open>The main routine\<close>

text \<open>The body of the loop over the partitions for an exFAT partition. When the file cannot be read
  \<^verbatim>\<open>hello_file_size\<close> has no value.\<close>

definition print_hello :: "environment \<Rightarrow> disk_device \<Rightarrow> mbr_partition \<Rightarrow> 'z manager_scheme \<Rightarrow> 'z manager_scheme result" where
  "print_hello env d part k =
     (let rd = read_disk (env_hw env) (env_sp env) in
      andthen (EXFAT_init rd d part k) (\<lambda>(fs, k1).
      andthen (EXFAT_open_file rd (env_file env) fs (env_hello_path env) k1) (\<lambda>(hello_file, k2).
      case hello_file of
        None \<Rightarrow> Inr k2
      | Some (_, entry) \<Rightarrow>
          andthen (EXFAT_read_file_ALL rd entry k2) (\<lambda>(got, k3).
          case got of
            None \<Rightarrow> Inl Undefined
          | Some (buff, n) \<Rightarrow> kfree buff (say newline (say_bytes (bytes (mem k3) buff (unat n)) k3))))))"

definition visit_drive :: "environment \<Rightarrow> u64 \<Rightarrow> disk_device \<Rightarrow> 'z manager_scheme \<Rightarrow> 'z manager_scheme result" where
  "visit_drive env i d k =
     (if d_type d = DISK_NONE then Inr k
      else
        andthen (c_string (d_name d)) (\<lambda>name.
        andthen (kalloc 32 (say newline (say_bytes name (say_hexLN (ucast i) k)))) (\<lambda>(partitions, k1).
        andthen (MBR_get_partitions (read_disk (env_hw env) (env_sp env)) d k1) (\<lambda>(entries, ps, k2).
        if partitions = 0 \<and> ps \<noteq> [] then Inl NullDeref
        else if entries = - 1 then kfree partitions k2
        else
          for_u64_r 0 (word_of_int entries)
            (\<lambda>f. let part = snd (ps ! unat f) in if p_type part = 0x07 then print_hello env d part else Inr)
            (say_hexLN (word_of_int entries) k2)))))"

text \<open>The result is the state in which the routine ends with \<^verbatim>\<open>halt()\<close>.\<close>

definition kernel_main :: "environment \<Rightarrow> kernel \<Rightarrow> kernel result" where
  "kernel_main env k =
     andthen (init_kernel env k) (\<lambda>k1.
     andthen (get_disk_devices (env_component env) (env_disk env) (env_disk_ptr env) (env_hw env) (env_sp env) 2 0 k1)
       (\<lambda>(drives, n, k2).
        for_u64_r 0 n (\<lambda>i k. andthen (deref (ka drives ! unat i)) (\<lambda>d. visit_drive env i d k)) k2))"

end
