(* ===== verification/Sata_Reader.thy ===== *)
theory Sata_Reader
  imports Sata_Props
begin

text \<open>
  The AHCI disk behind \<^verbatim>\<open>read_disk\<close>: on a configured port it keeps the contract \<open>block_reader\<close>, with the
  command list, the command table, the stack of the driver and the DMA buffer as the memory that the driver owns. So
  what is proved of the file systems in that contract holds on the disks that the kernel reads from.
\<close>

section \<open>A configured port\<close>

text \<open>A port of an AHCI controller as \<^verbatim>\<open>SATA_port_configure\<close> leaves it: its registers, the driver's data, the first command table,
  where the port writes received FISes, how many register reads a command takes, and the disk's sectors. With them the stack address of
  the driver's local structures, the low heap and the DMA buffer that it grants.\<close>

record ahci_setup =
  su_port :: u64
  su_data :: sata_port_data
  su_table :: u64
  su_received :: u64
  su_delay :: nat
  su_image :: "nat \<Rightarrow> u8 list"
  su_stack :: u64
  su_low :: heap
  su_dma :: u64

definition sata_own_runs :: "ahci_setup \<Rightarrow> (u64 \<times> nat) list" where
  "sata_own_runs x =
     [(cmd_list (su_data x), 32), (su_table x, 144), (cmd_tables (su_data x), 8), (su_stack x, 20), (su_dma x, 512), (su_received x, 256),
      (2 * su_dma x, 512), (2 * su_stack x, 20), (2 * su_table x, 144)]"

definition sata_own :: "ahci_setup \<Rightarrow> nat set" where
  "sata_own x = (\<Union>(p, n) \<in> set (sata_own_runs x). {unat p..<unat p + n})"

definition setup_ok :: "ahci_setup \<Rightarrow> bool" where
  "setup_ok x \<longleftrightarrow>
     su_delay x \<le> 20000000 \<and> (\<forall>n. length (su_image x n) = 512) \<and>
     su_port x \<noteq> 0 \<and> su_stack x \<noteq> 0 \<and> command_slots (su_data x) \<noteq> 0 \<and>
     heap_inv (su_low x) \<and> (\<exists>h. alloc_aligned (su_low x) 512 512 = Inr (su_dma x, h)) \<and> su_dma x \<noteq> 0 \<and> su_dma x AND 3 = 0 \<and>
     unat (su_table x) < 2 ^ 32 \<and> unat (su_dma x) < 2 ^ 32 \<and> unat (su_stack x) < 2 ^ 62 \<and> separate (sata_own_runs x)"

text \<open>A disk on that port which is ready: the port is idle and follows the specification, the pointers to the command table are in
  place, and the low heap is the one that grants the DMA buffer.\<close>

definition sata_ready :: "hardware \<Rightarrow> ahci_setup \<Rightarrow> disk_device \<Rightarrow> 'z manager_scheme \<Rightarrow> bool" where
  "sata_ready hw x d k \<longleftrightarrow>
     setup_ok x \<and> d_type d = DISK_SATA \<and> (\<exists>hba num. d_driver d = SATA_driver_data hba (su_port x) (su_data x) num) \<and>
     ahci_answers hw (su_port x) (su_image x) (su_received x) (su_delay x) \<and>
     port_ready (su_port x) (su_delay x) (cmd_list (su_data x)) (trace k) \<and> low_heap k = Some (su_low x) \<and>
     read_u64 (mem k) (cmd_tables (su_data x)) = su_table x \<and>
     read_u32 (mem k) (cmd_list (su_data x) + 8) = ucast (su_table x) \<and> read_u32 (mem k) (cmd_list (su_data x) + 12) = 0"

definition sata_sector :: "ahci_setup \<Rightarrow> disk_device \<Rightarrow> u32 \<Rightarrow> u8 list" where
  "sata_sector x d lba = su_image x (unat lba)"

section \<open>A buffer outside the driver's memory\<close>

lemma separate_bounds:
  assumes "separate rs" and "(p, n) \<in> set rs" and "2 \<le> length rs"
  shows "unat p + n < 2 ^ 64"
proof -
  obtain i where i: "i < length rs" "rs ! i = (p, n)" using assms(2) by (auto simp: in_set_conv_nth)
  define j where "j = (if i = 0 then 1 else 0 :: nat)"
  have j: "j < length rs" "i \<noteq> j" using assms(3) by (auto simp: j_def)
  obtain q l where q: "rs ! j = (q, l)" using surj_pair [of "rs ! j"] by blast
  have "apart p n q l \<or> apart q l p n"
  proof (cases "i < j")
    case True
    from sorted_wrt_nth_less [OF assms(1) [unfolded separate_def] this j(1)] show ?thesis by (simp add: i q)
  next
    case False
    then have "j < i" using j(2) by simp
    from sorted_wrt_nth_less [OF assms(1) [unfolded separate_def] this i(1)] show ?thesis by (simp add: i q)
  qed
  then show ?thesis by (auto simp: apart_def)
qed

lemma apart_own:
  assumes "separate (sata_own_runs x)" and "(p, n) \<in> set (sata_own_runs x)"
    and "unat buf + 512 < 2 ^ 64" and "{unat buf..<unat buf + 512} \<inter> sata_own x = {}"
  shows "apart p n buf 512"
proof -
  have "2 \<le> length (sata_own_runs x)" by (simp add: sata_own_runs_def)
  then have "unat p + n < 2 ^ 64" by (rule separate_bounds [OF assms(1,2)])
  moreover have "{unat p..<unat p + n} \<subseteq> sata_own x" unfolding sata_own_def using assms(2) by blast
  then have "{unat p..<unat p + n} \<inter> {unat buf..<unat buf + 512} = {}" using assms(4) by blast
  ultimately show ?thesis using assms(3) by (simp add: apart_def)
qed

lemma separate_buffer:
  assumes sep: "separate (sata_own_runs x)" and buf: "unat buf + 512 < 2 ^ 64" "{unat buf..<unat buf + 512} \<inter> sata_own x = {}"
  shows "separate (sata_runs (su_data x) (su_table x) (su_stack x) (su_dma x) buf (su_received x))"
proof -
  have a: "apart p n buf 512" "apart buf 512 p n" if "(p, n) \<in> set (sata_own_runs x)" for p n
    using apart_own [OF sep that buf] by (simp_all add: apart_sym)
  show ?thesis
    using sep a unfolding separate_def sata_own_runs_def sata_runs_def by simp
qed

section \<open>The disk behind \<^verbatim>\<open>read_disk\<close>\<close>

lemma sata_reads:
  assumes r: "sata_ready hw x d k" and buf: "buf \<noteq> 0" "unat buf + 512 < 2 ^ 64" "{unat buf..<unat buf + 512} \<inter> sata_own x = {}"
  shows "\<exists>m tr. read_disk hw (su_stack x) d lba buf k = Inr (True, k\<lparr>mem := m, trace := tr\<rparr>) \<and>
     sata_ready hw x d (k\<lparr>mem := m, trace := tr\<rparr>) \<and> placed (sata_own x) buf (sata_sector x d lba) (mem k) m"
proof -
  note S = r [unfolded sata_ready_def]
  have ok: "setup_ok x" using S by simp
  note s = ok [unfolded setup_ok_def]
  obtain hba num where drv: "d_driver d = SATA_driver_data hba (su_port x) (su_data x) num" using S by blast
  have own: "separate (sata_own_runs x)" using s by blast
  have sep: "separate (sata_runs (su_data x) (su_table x) (su_stack x) (su_dma x) buf (su_received x))"
    by (rule separate_buffer [OF own buf(2,3)])
  obtain h1 where al: "low_kalloc_aligned 512 512 k = Inr (su_dma x, k\<lparr>low_heap := Some h1\<rparr>)"
    using s S by (auto simp: low_kalloc_aligned_def)
  have lba: "unat (ucast lba :: u64) mod 2 ^ 48 = unat lba"
    using unsigned_less [of lba, where ?'a = nat] by (simp add: end_block_nat)
  obtain m tr where R: "SATA_read hw (su_stack x) d (ucast lba) buf k = Inr (True, k\<lparr>mem := m, trace := tr\<rparr>)"
    "bytes m buf 512 = su_image x (unat lba)" "port_ready (su_port x) (su_delay x) (cmd_list (su_data x)) tr"
    "changes (sata_writes (su_data x) (su_table x) (su_stack x) (su_dma x) buf (su_received x)) (mem k) m"
  proof -
    have a: "ahci_answers hw (su_port x) (su_image x) (su_received x) (su_delay x)" "su_delay x \<le> 20000000"
      "\<And>n. length (su_image x n) = 512" "port_ready (su_port x) (su_delay x) (cmd_list (su_data x)) (trace k)"
      "su_port x \<noteq> 0" "su_stack x \<noteq> 0" "command_slots (su_data x) \<noteq> 0" "low_heap k = Some (su_low x)" "heap_inv (su_low x)"
      "su_dma x \<noteq> 0" "su_dma x AND 3 = 0" "read_u64 (mem k) (cmd_tables (su_data x)) = su_table x"
      "read_u32 (mem k) (cmd_list (su_data x) + 8) = ucast (su_table x)" "read_u32 (mem k) (cmd_list (su_data x) + 12) = 0"
      "unat (su_table x) < 2 ^ 32" "unat (su_dma x) < 2 ^ 32" "unat (su_stack x) < 2 ^ 62"
      using s S by simp_all
    show thesis
      using SATA_read_ok [OF a(1-3) drv a(4-6) buf(1) a(7-9) al a(10-17) sep, of "ucast lba"] that unfolding lba by blast
  qed
  note P = sata_pointers [OF sep R(4)]
  have "sata_ready hw x d (k\<lparr>mem := m, trace := tr\<rparr>)"
    using S R(3) P by (simp add: sata_ready_def)
  moreover have "placed (sata_own x) buf (sata_sector x d lba) (mem k) m"
  proof -
    have len: "length (sata_sector x d lba) = 512" using s by (simp add: sata_sector_def)
    have "m y = mem k y" if "unat y \<notin> {unat buf..<unat buf + 512} \<union> sata_own x" for y
    proof (rule changesD [OF sata_writes_runs [OF sep R(4)]])
      fix p n assume "(p, n) \<in> set (sata_runs (su_data x) (su_table x) (su_stack x) (su_dma x) buf (su_received x))"
      then have "(p, n) = (buf, 512) \<or> (p, n) \<in> set (sata_own_runs x)" by (auto simp: sata_runs_def sata_own_runs_def)
      then show "unat y \<notin> {unat p..<unat p + n}" using that unfolding sata_own_def by auto
    qed
    then show ?thesis using R(2) len by (simp add: placed_def sata_sector_def)
  qed
  moreover have "read_disk hw (su_stack x) d lba buf k = Inr (True, k\<lparr>mem := m, trace := tr\<rparr>)"
    using R(1) S by (simp add: read_disk_def)
  ultimately show ?thesis by blast
qed

lemma sata_ready_same:
  assumes r: "sata_ready hw x d k" and same: "trace k' = trace k" "low_heap k' = low_heap k"
    and own: "\<forall>y. unat y \<in> sata_own x \<longrightarrow> mem k' y = mem k y"
  shows "sata_ready hw x d k'"
proof -
  have sep: "separate (sata_own_runs x)" using r by (simp add: sata_ready_def setup_ok_def)
  have bound: "unat (cmd_tables (su_data x)) + 8 < 2 ^ 64" "unat (cmd_list (su_data x)) + 32 < 2 ^ 64"
    using separate_bounds [OF sep] by (simp_all add: sata_own_runs_def)
  have sub: "{unat p..<unat p + n} \<subseteq> sata_own x" if "(p, n) \<in> set (sata_own_runs x)" for p n
    unfolding sata_own_def using that by blast
  have at: "mem k' (p + word_of_nat j) = mem k (p + word_of_nat j)"
    if "(p, n) \<in> set (sata_own_runs x)" "j < n" "unat p + n < 2 ^ 64" for p n and j :: nat
  proof -
    have "unat (p + word_of_nat j) = unat p + j" using that by (intro extent_bytes [of p n])
    moreover have "unat p + j \<in> {unat p..<unat p + n}" using that(2) by simp
    ultimately have "unat (p + word_of_nat j) \<in> sata_own x" using sub [OF that(1)] by auto
    then show ?thesis using own by blast
  qed
  have t: "mem k' (cmd_tables (su_data x) + word_of_nat j) = mem k (cmd_tables (su_data x) + word_of_nat j)" if "j < 8" for j :: nat
    by (rule at [of _ 8]) (use that bound in \<open>simp_all add: sata_own_runs_def\<close>)
  have l: "mem k' (cmd_list (su_data x) + word_of_nat j) = mem k (cmd_list (su_data x) + word_of_nat j)" if "j < 32" for j :: nat
    by (rule at [of _ 32]) (use that bound in \<open>simp_all add: sata_own_runs_def\<close>)
  have "read_u64 (mem k') (cmd_tables (su_data x)) = read_u64 (mem k) (cmd_tables (su_data x))"
    using t [of 0] t [of 1] t [of 2] t [of 3] t [of 4] t [of 5] t [of 6] t [of 7]
    by (simp add: read_u64_def read_u32_def read_u16_def add.assoc)
  moreover have "read_u32 (mem k') (cmd_list (su_data x) + 8) = read_u32 (mem k) (cmd_list (su_data x) + 8)"
    using l [of 8] l [of 9] l [of 10] l [of 11] by (simp add: read_u32_def read_u16_def add.assoc)
  moreover have "read_u32 (mem k') (cmd_list (su_data x) + 12) = read_u32 (mem k) (cmd_list (su_data x) + 12)"
    using l [of 12] l [of 13] l [of 14] l [of 15] by (simp add: read_u32_def read_u16_def add.assoc)
  ultimately show ?thesis using r same by (simp add: sata_ready_def)
qed

interpretation sata_disk: block_reader "read_disk hw (su_stack x)" "sata_ready hw x" "sata_sector x" "sata_own x" for hw x
proof
  fix d :: disk_device and k :: "'z manager_scheme" and lba
  assume "sata_ready hw x d k"
  then show "length (sata_sector x d lba) = 512" by (simp add: sata_ready_def setup_ok_def sata_sector_def)
qed (rule sata_reads sata_ready_same; assumption)+

end
