(* ===== verification/Hello.thy ===== *)
theory Hello
  imports Kernel Demo_Volume Sata_Reader Bus_Props
begin

text \<open>
  The composition of the drivers in \<^verbatim>\<open>kernel_main\<close>: on an exFAT partition with the file
  \<^verbatim>\<open>/ketone/hello\<close> the kernel prints exactly the contents of that file.
\<close>

section \<open>The contents of a file, from its directory entry\<close>

primrec stream_cluster :: "(u32 \<Rightarrow> u8 list) \<Rightarrow> exfat_instance \<Rightarrow> stream \<Rightarrow> nat \<Rightarrow> u32" where
  "stream_cluster sec fs st 0 = st_first st"
| "stream_cluster sec fs st (Suc i) =
     (if st_flags st AND 0x02 \<noteq> 0 then stream_cluster sec fs st i + 1
      else fat_value sec fs (stream_cluster sec fs st i))"

definition stream_clusters :: "exfat_instance \<Rightarrow> stream \<Rightarrow> nat" where
  "stream_clusters fs st = (unat (st_length st) + cluster_size fs - 1) div cluster_size fs"

definition stream_bytes :: "(u32 \<Rightarrow> u8 list) \<Rightarrow> exfat_instance \<Rightarrow> stream \<Rightarrow> u8 list" where
  "stream_bytes sec fs st =
     take (unat (st_length st))
       (concat (map (\<lambda>i. cluster_bytes sec fs (stream_cluster sec fs st i)) [0..<stream_clusters fs st]))"

text \<open>A file structure that was made from the entry.\<close>

lemma as_file_some:
  assumes "de_stream d = Some st" and "file = (as_file r fs d)\<lparr>f_path := name\<rparr>"
  shows "f_fs file = fs" "data_length file = st_length st" "f_flags file = st_flags st"
    "first_cluster file = st_first st"
  using assms by (simp_all add: as_file_def)

lemma as_file_stream_cluster:
  assumes "de_stream d = Some st" and "file = (as_file r fs d)\<lparr>f_path := name\<rparr>"
  shows "file_cluster sec file i = stream_cluster sec fs st i"
  by (induction i) (simp_all add: as_file_some [OF assms])

lemma as_file_bytes:
  assumes "de_stream d = Some st" and "file = (as_file r fs d)\<lparr>f_path := name\<rparr>"
  shows "take (unat (data_length file)) (file_bytes sec file (cluster_total file)) = stream_bytes sec fs st"
  by (simp add: file_bytes_def stream_bytes_def cluster_total_def stream_clusters_def as_file_some [OF assms]
      as_file_stream_cluster [OF assms])

section \<open>Room\<close>

definition hello_blocks :: "exfat_instance \<Rightarrow> heap \<Rightarrow> stream \<Rightarrow> nat" where
  "hello_blocks fs h st =
     cluster_blocks h fs + (needed_blocks h sizeof_exfat_file + needed_blocks h 256) +
     (needed_blocks h (st_length st) + (cluster_blocks h fs + needed_blocks h 512))"

lemma hello_blocks_parts:
  assumes "room h (hello_blocks fs h st)"
  shows "room h (needed_blocks h 512)" and "room h (open_blocks fs h)"
  by (rule room_mono [OF assms], simp add: hello_blocks_def open_blocks_def)+

lemma hello_read_room:
  assumes "room h (hello_blocks fs h st)" and "file_granted raw fs (cluster_blocks h fs) h d p file h2 m"
    and "de_stream d = Some st"
  shows "room h2 (read_blocks h2 file)"
proof -
  have f: "file = (as_file (raw p) fs d)\<lparr>f_path := f_path file\<rparr>" using assms(2) by (simp add: file_granted_def)
  have n: "needed_blocks h2 = needed_blocks h" using assms(2) grant_blocks by (fastforce simp: file_granted_def)
  have "leaves_room h (cluster_blocks h fs + (needed_blocks h sizeof_exfat_file + needed_blocks h 256)) h2"
    using assms(2) by (simp add: file_granted_def)
  from leaves_roomD [OF this assms(1) [unfolded hello_blocks_def]] show ?thesis
    by (simp add: read_blocks_def n as_file_some [OF assms(3) f])
qed

section \<open>One partition\<close>

text \<open>A volume with the file \<^verbatim>\<open>/ketone/hello\<close>: the lookup of the path yields the set \<open>e\<close> of directory
  entries with the stream extension \<open>st\<close>, and the clusters of the file, consecutive or chained, reach the length of its data.\<close>

definition hello_file :: "(u32 \<Rightarrow> u8 list) \<Rightarrow> exfat_instance \<Rightarrow> nat \<Rightarrow> dirent \<Rightarrow> stream \<Rightarrow> bool" where
  "hello_file sec fs n e st \<longleftrightarrow>
     geometry_ok fs \<and> resolve sec fs n (root_cluster fs) [char_bytes ''ketone'', char_bytes ''hello''] = Some (Some e) \<and>
     de_stream e = Some st \<and> st_length st \<noteq> 0 \<and> unat (st_length st) < 2 ^ 63 \<and>
     (\<forall>j. Suc j * cluster_size fs < unat (st_length st) \<longrightarrow>
        st_flags st AND 0x02 \<noteq> 0 \<or> stream_cluster sec fs st (Suc j) < 0xFFFFFFF8)"

lemma hello_components: "components (char_bytes ''/ketone/hello'') = [char_bytes ''ketone'', char_bytes ''hello'']"
  by code_simp

context block_reader
begin

lemma print_hello_ok:
  fixes k :: "'z manager_scheme"
  assumes rd: "rd = read_disk (env_hw env) (env_sp env)" and dev: "ready d k"
    and heap: "root_heap k = Some h" "heap_inv h" "away h own" "room h (hello_blocks fs h st)"
    and fs: "fs = volume_of d part (sector d (lba_start part))" and name: "0 \<in> set (d_name d)"
    and path: "held (heap_free h \<union> own) (mem k) (env_hello_path env) (char_bytes ''/ketone/hello'')"
    and hello: "hello_file (sector d) fs n e st"
  shows "\<exists>m tr p q h1 h2. print_hello env d part k =
       Inr (k\<lparr>mem := m, trace := tr, root_heap := Some h2,
             console := console k @ mount_text d fs (sector d (lba_start part)) @
                        stream_bytes (sector d) fs st @ char_bytes newline\<rparr>) \<and>
     grant h sizeof_exfat_file p h1 \<and> grant h1 256 q h2 \<and> calm (heap_free h \<union> own) (mem k) m"
proof -
  let ?sec = "sector d" and ?F = "heap_free h \<union> own"
  let ?t = "mount_text d fs (?sec (lba_start part))"
  note entry = hello [unfolded hello_file_def]
  have geo: "geometry_ok fs" and stream: "de_stream e = Some st" using entry by blast+
  have d: "x_disk fs = d" by (simp add: fs volume_of_def)
  obtain m1 tr1 where i: "EXFAT_init rd d part k = Inr (fs, k\<lparr>mem := m1, trace := tr1, console := console k @ ?t\<rparr>)"
    "ready d (k\<lparr>mem := m1, trace := tr1, console := console k @ ?t\<rparr>)" "calm ?F (mem k) m1"
    using init_ok [OF dev heap(1-3) hello_blocks_parts(1) [OF heap(4)] name fs] by blast
  let ?k1 = "k\<lparr>mem := m1, trace := tr1, console := console k @ ?t\<rparr>"
  have "open_result (env_file env) fs ?F h (ready d) ?k1 (Some e)
      (EXFAT_open_file rd (env_file env) fs (env_hello_path env) ?k1)"
    using open_file_ok [of fs ?k1 h "env_hello_path env" "char_bytes ''/ketone/hello''" n "Some e"]
      i(2) geo heap hello_blocks_parts(2) [OF heap(4)] held_calm [OF path i(3)] entry
    by (simp add: d hello_components) (simp add: char_bytes_def)
  then obtain m2 tr2 p entry_file h2 where o: "EXFAT_open_file rd (env_file env) fs (env_hello_path env) ?k1 =
      Inr (Some (p, entry_file), ?k1\<lparr>root_heap := Some h2, mem := m2, trace := tr2\<rparr>)"
    "calm ?F m1 m2" "ready d (?k1\<lparr>mem := m2, trace := tr2\<rparr>)" "file_granted (env_file env) fs (cluster_blocks h fs) h e p entry_file h2 m2"
    by (auto simp: open_result_def)
  let ?k2 = "?k1\<lparr>root_heap := Some h2, mem := m2, trace := tr2\<rparr>"
  have dev2: "ready d ?k2" using o(3) by (rule ready_same) simp_all
  have f: "entry_file = (as_file (env_file env p) fs e)\<lparr>f_path := f_path entry_file\<rparr>" using o(4) by (simp add: file_granted_def)
  obtain h1 where g: "grant h sizeof_exfat_file p h1" "grant h1 256 (f_path entry_file) h2" using o(4) by (auto simp: file_granted_def)
  have h2: "heap_inv h2" "away h2 own" "heap_free h2 \<subseteq> heap_free h"
    using grantD(1) [OF g(2)] away_grant(1) [OF grantD(1) [OF g(1)] away_grant(1) [OF heap(2,3) g(1)] g(2)]
      grant_in_free(2) [OF heap(2) g(1)] grant_in_free(2) [OF grantD(1) [OF g(1)] g(2)] by auto
  note a = as_file_some [OF stream f] and cl = as_file_stream_cluster [OF stream f]
  obtain data h3 m3 tr3 where r: "EXFAT_read_file_ALL rd entry_file ?k2 =
       Inr (Some (data, st_length st), ?k2\<lparr>mem := m3, trace := tr3, root_heap := Some h3\<rparr>)"
    "bytes m3 data (unat (st_length st)) = stream_bytes ?sec fs st" "grant h2 (st_length st) data h3"
    "calm (heap_free h2 \<union> own) m2 m3"
    using read_file_ALL_ok [of entry_file ?k2 h2] dev2 h2 entry
      hello_read_room [OF heap(4) o(4) stream] as_file_bytes [OF stream f, of ?sec]
    by (auto simp: a d cl)
  have "calm ?F m2 m3" using r(4) h2(3) by (blast intro: calm_mono)
  then have "calm ?F (mem k) m3" using i(3) o(2) by (blast intro: calm_trans)
  moreover have "print_hello env d part k =
      Inr (k\<lparr>mem := m3, trace := tr3, root_heap := Some h2,
            console := console k @ ?t @ stream_bytes ?sec fs st @ char_bytes newline\<rparr>)"
    using i(1) o(1) r(1,2) grantD(3) [OF r(3)] by (simp add: print_hello_def rd [symmetric] say_defs kfree_def)
  ultimately show ?thesis using g by blast
qed

end

text \<open>
  C14. What the kernel is for. On an AHCI disk that is ready, as the kernel's loop over the disks finds them, with an exFAT volume in the
  partition and the file \<^verbatim>\<open>/ketone/hello\<close> on the volume, the loop body of \<^verbatim>\<open>kernel_main\<close>
  prints what mounting prints, then exactly the bytes of the file, in order and complete, then a newline. Memory changes only where
  the root heap was free and in the memory that the AHCI driver owns, from which the heap and the path are apart. Of the heap, the file
  structure and its name stay allocated: the kernel never frees them.
\<close>

theorem print_hello_prints:
  fixes k :: "'z manager_scheme"
  assumes dev: "sata_ready (env_hw env) x d k" "env_sp env = su_stack x"
    and heap: "root_heap k = Some h" "heap_inv h" "away h (sata_own x)" "room h (hello_blocks fs h st)"
    and fs: "fs = volume_of d part (sata_sector x d (lba_start part))" and name: "0 \<in> set (d_name d)"
    and path: "held (heap_free h \<union> sata_own x) (mem k) (env_hello_path env) (char_bytes ''/ketone/hello'')"
    and hello: "hello_file (sata_sector x d) fs n e st"
  shows "\<exists>m tr p q h1 h2. print_hello env d part k =
       Inr (k\<lparr>mem := m, trace := tr, root_heap := Some h2,
             console := console k @ mount_text d fs (sata_sector x d (lba_start part)) @
                        stream_bytes (sata_sector x d) fs st @ char_bytes newline\<rparr>) \<and>
     grant h sizeof_exfat_file p h1 \<and> grant h1 256 q h2 \<and> calm (heap_free h \<union> sata_own x) (mem k) m"
  using dev(2) by (intro sata_disk.print_hello_ok [OF _ dev(1) heap fs name path hello]) simp

section \<open>Witness\<close>

text \<open>The demonstration volume behind an AHCI controller: the driver's structures and the low heap lie below 1 MiB, the root heap
  above.\<close>

definition hello_low :: heap where
  "hello_low = sim_heap\<lparr>start_addr := 0x40000\<rparr>"

definition hello_setup :: ahci_setup where
  "hello_setup =
     \<lparr>su_port = 0x80000000, su_data = ahci_port, su_table = 0x9000, su_received = 0xC000, su_delay = 5,
      su_image = (\<lambda>n. bytes (dir_bytes n) 0 512), su_stack = 0x70000, su_low = hello_low, su_dma = 0x40000\<rparr>"

definition hello_env :: environment where
  "hello_env =
     \<lparr>env_hw = sim_ahci (\<lambda>n. bytes (dir_bytes n) 0 512) 5, env_sp = 0x70000, env_component = (\<lambda>_ _. demo_component 0 0 0),
      env_disk = (\<lambda>_. ahci_disk), env_disk_ptr = (\<lambda>_ _. None), env_file = (\<lambda>_. sim_file), env_rax = (\<lambda>_ _. 0), env_hello_path = 0x5000\<rparr>"

definition hello_machine :: manager where
  "hello_machine =
     (sim_machine (store 0x5000 (hello_path @ [0]) ((\<lambda>_. 0)(0x8009 := 0x90, 0xA001 := 0x90))))
     \<lparr>low_heap := Some hello_low, trace := [RegW 0x80000000 0x8000]\<rparr>"

lemma hello_machine_simps:
  "root_heap hello_machine = Some sim_heap" "low_heap hello_machine = Some hello_low" "console hello_machine = []"
  "trace hello_machine = [RegW 0x80000000 0x8000]"
  "mem hello_machine = store 0x5000 (hello_path @ [0]) ((\<lambda>_. 0)(0x8009 := 0x90, 0xA001 := 0x90))"
  by (simp_all add: hello_machine_def sim_machine_def)

lemma hello_setup_ok: "setup_ok hello_setup"
proof -
  have "heap_inv hello_low" by (simp add: hello_low_def sim_heap_def heap_inv_def table_inv_fresh)
  moreover have "alloc_aligned hello_low 512 512 = Inr (0x40000, take_run hello_low 0 1)" by code_simp
  moreover have "separate (sata_own_runs hello_setup)"
    by (simp add: separate_def sata_own_runs_def apart_def hello_setup_def ahci_port_def)
  ultimately show ?thesis by (simp add: setup_ok_def hello_setup_def ahci_port_def)
qed

lemma hello_ready: "sata_ready (env_hw hello_env) hello_setup ahci_disk hello_machine"
proof -
  have m: "mem hello_machine x = ((\<lambda>_. 0)(0x8009 := 0x90, 0xA001 := 0x90)) x" if "0x6000 \<le> unat x" for x
    unfolding hello_machine_simps using that by (intro store_elsewhere) (simp_all add: hello_path_bytes)
  have "read_u64 (mem hello_machine) 0xA000 = 0x9000" "read_u32 (mem hello_machine) 0x8008 = 0x9000" "read_u32 (mem hello_machine) 0x800C = 0"
    by (simp_all add: read_u64_def read_u32_def read_u16_def m)
  then show ?thesis
    using hello_setup_ok sim_ahci_answers [of "\<lambda>n. bytes (dir_bytes n) 0 512" 5 "0xC000"]
    by (simp add: sata_ready_def hello_setup_def hello_env_def ahci_disk_def ahci_port_def hello_machine_simps port_ready_def
        ahci_quiet_def list_base_def port_regs)
qed

text \<open>The driver's memory lies below 1 MiB and does not meet the path.\<close>

lemma hello_own: "a \<in> sata_own hello_setup \<Longrightarrow> 0x8000 \<le> a \<and> a < 0x100000"
  by (auto simp: sata_own_def sata_own_runs_def hello_setup_def ahci_port_def)

lemma hello_away: "away sim_heap (sata_own hello_setup)"
proof -
  have "heap_span sim_heap = {0x100000..<0x108000}" by (simp add: heap_span_def sim_heap_def)
  then show ?thesis using hello_own by (fastforce simp: away_def)
qed

lemma hello_path_held: "held (heap_free sim_heap \<union> sata_own hello_setup) (mem hello_machine) 0x5000 hello_path"
proof -
  have "unat (0x5000 + word_of_nat j :: u64) \<notin> heap_free sim_heap \<union> sata_own hello_setup" if "j \<le> 13" for j
  proof -
    have "unat (0x5000 + word_of_nat j :: u64) = 0x5000 + j" using that by (subst extent_bytes [of _ 14]) simp_all
    then have "unat (0x5000 + word_of_nat j :: u64) < 0x8000" using that by simp
    then show ?thesis using sim_outside [of "0x5000 + word_of_nat j"] hello_own by fastforce
  qed
  moreover have "holds_string (at (mem hello_machine) 0x5000) hello_path"
    unfolding hello_machine_simps by (rule stored_string) (simp_all add: hello_path_bytes)
  moreover have "length hello_path = 13" by (simp add: hello_path_bytes)
  ultimately show ?thesis by (auto simp: held_def list_all_iff simp del: upt_Suc)
qed

text \<open>The volume is that of the other witnesses, on another disk; the abstract file system does not depend on the disk.\<close>

abbreviation hello_fs :: exfat_instance where "hello_fs \<equiv> sim_fs\<lparr>x_disk := ahci_disk\<rparr>"

lemma hello_sectors: "sata_sector hello_setup d = disk_sector dir_sectors sim_disk"
  by (rule ext) (simp add: sata_sector_def hello_setup_def sim_sector)

lemma other_disk:
  "cluster_bytes sec (fs\<lparr>x_disk := d\<rparr>) c = cluster_bytes sec fs c" "fat_value sec (fs\<lparr>x_disk := d\<rparr>) c = fat_value sec fs c"
  "cluster_size (fs\<lparr>x_disk := d\<rparr>) = cluster_size fs" "geometry_ok (fs\<lparr>x_disk := d\<rparr>) = geometry_ok fs"
  by (simp_all add: cluster_bytes_def cluster_lba_def cluster_sectors_def fat_value_def fat_lba_def cluster_size_def geometry_ok_def)

lemma other_disk_search: "dir_search sec (fs\<lparr>x_disk := d\<rparr>) name n c = dir_search sec fs name n c"
  by (induction n arbitrary: c) (simp_all add: other_disk split: option.splits scan.splits)

lemma other_disk_resolve: "resolve sec (fs\<lparr>x_disk := d\<rparr>) n c names = resolve sec fs n c names"
  by (induction names arbitrary: c) (simp_all add: other_disk_search split: option.splits)

lemma other_disk_stream: "stream_bytes sec (fs\<lparr>x_disk := d\<rparr>) st = stream_bytes sec fs st"
proof -
  have "stream_cluster sec (fs\<lparr>x_disk := d\<rparr>) st i = stream_cluster sec fs st i" for i
    by (induction i) (simp_all add: other_disk)
  then show ?thesis by (simp add: stream_bytes_def stream_clusters_def other_disk)
qed

lemma hello_volume: "hello_fs = volume_of ahci_disk part (sata_sector hello_setup d 1)" if "lba_start part = 1"
proof -
  let ?s = "disk_sector dir_sectors sim_disk 1"
  have "volume_of ahci_disk part ?s = (volume_of sim_disk sim_partition ?s)\<lparr>x_disk := ahci_disk\<rparr>"
    using that by (simp add: volume_of_def sim_partition_def)
  then show ?thesis by (simp only: hello_sectors sim_volume)
qed

lemma hello_on_volume: "hello_file (sata_sector hello_setup d) hello_fs 1 hello_entry hello_stream"
proof -
  have names: "char_bytes ''ketone'' = ketone" "char_bytes ''hello'' = hello" by code_simp+
  have "resolve (disk_sector dir_sectors sim_disk) hello_fs 1 (root_cluster hello_fs) [ketone, hello] = Some (Some hello_entry)"
    using resolve_hello by (simp only: other_disk_resolve) (simp add: sim_fs_def)
  moreover have "de_stream hello_entry = Some hello_stream" by (simp add: hello_entry_def)
  moreover have "geometry_ok hello_fs" "cluster_size hello_fs = 512" by (simp_all only: other_disk sim_geometry)
  ultimately show ?thesis by (simp add: hello_file_def hello_sectors names hello_stream_def)
qed

text \<open>The file is the first 100 bytes of cluster 5, which is sector 6.\<close>

lemma hello_bytes: "stream_bytes (sata_sector hello_setup d) hello_fs hello_stream = replicate 100 6"
proof -
  have "stream_clusters sim_fs hello_stream = 1"
    by (simp add: stream_clusters_def sim_geometry hello_stream_def)
  moreover have "cluster_bytes (disk_sector dir_sectors sim_disk) sim_fs 5 = replicate 512 6"
  proof -
    have "bytes (dir_bytes 6) 0 512 = replicate 512 6"
      by (rule nth_equalityI) (simp_all add: dir_bytes_def sim_bytes_def)
    then show ?thesis by (simp add: sim_cluster_bytes)
  qed
  ultimately show ?thesis unfolding hello_sectors other_disk_stream by (simp add: stream_bytes_def hello_stream_def)
qed

theorem print_hello_prints_witness:
  "\<exists>k'. print_hello hello_env ahci_disk sim_partition hello_machine = Inr k' \<and>
     console k' = mount_text ahci_disk hello_fs (bytes (dir_bytes 1) 0 512) @ replicate 100 6 @ [10]"
proof -
  have e: "env_sp hello_env = su_stack hello_setup" "env_hello_path hello_env = 0x5000"
    by (simp_all add: hello_env_def hello_setup_def)
  have room: "room sim_heap (hello_blocks hello_fs sim_heap hello_stream)"
    by (rule sim_room) (simp add: hello_blocks_def sim_blocks sim_fs_def cluster_sectors_def sizeof_exfat_file_def hello_stream_def)
  have lba: "lba_start sim_partition = 1" by (simp add: sim_partition_def)
  have fs: "hello_fs = volume_of ahci_disk sim_partition (sata_sector hello_setup ahci_disk (lba_start sim_partition))"
    unfolding lba using lba by (rule hello_volume)
  have name: "0 \<in> set (d_name ahci_disk)" by (simp add: ahci_disk_def)
  have path: "held (heap_free sim_heap \<union> sata_own hello_setup) (mem hello_machine) (env_hello_path hello_env) (char_bytes ''/ketone/hello'')"
    using hello_path_held by (simp only: e hello_path_def)
  have s: "sata_sector hello_setup ahci_disk (lba_start sim_partition) = bytes (dir_bytes 1) 0 512"
    by (simp add: lba sata_sector_def hello_setup_def)
  show ?thesis
    using print_hello_prints [OF hello_ready e(1) hello_machine_simps(1) sim_heap_inv hello_away room fs name path hello_on_volume]
    by (auto simp: hello_bytes s hello_machine_simps(3) newline_def char_bytes_def)
qed

end
