(* ===== verification/Spec2Isabelle.thy ===== *)
theory Spec2Isabelle
  imports Heap_Sessions Sata_Props Exfat_Lookup Pcie_Props Bus_Props Hello
begin

text \<open>
  A model of the Ketone kernel, a small 64-bit x86 operating system written in C
  (\<^verbatim>\<open>src/src/os/kernel\<close>), and what is proved of it.

  \<^bold>\<open>The program.\<close> The boot loader leaves the kernel in memory with a memory map at 0x8F04 and calls
  \<^verbatim>\<open>kernel_main\<close> (\<^verbatim>\<open>kernel.c\<close>). It starts the serial console, finds the ACPI tables, sets
  up three heaps, enumerates PCI Express, identifies the SATA disks, reads their partition tables, and
  prints a file of each exFAT partition. Everything runs on one processor without interrupts, so the
  routines are sequential; what they wait for is the hardware.

  \<^bold>\<open>The state.\<close> One record grows with the layers, each routine takes and returns it: \<open>machine\<close> (byte
  memory, console text, history of device accesses), \<open>acpi\<close>, \<open>manager\<close> (memory map and heaps), \<open>pcie\<close>,
  \<open>component_bus\<close>, \<open>kernel\<close>; the static variables of each C file are the fields of its record. A routine
  of a lower layer works on every extension of its record. Words are machine words of the width in the
  source. A routine returns \<open>Inr\<close> of its result and the new state, or \<open>Inl\<close> of what ended it: an access out of
  bounds, a division by zero, a null pointer, \<^verbatim>\<open>halt()\<close>, a loop for ever, or undefined behaviour.
  Counted loops are recursive functions with a measure; a loop that may run for ever is a
  \<^theory_text>\<open>partial_function (option)\<close>, whose \<open>None\<close> becomes the fault \<open>Diverges\<close>. No fuel is used.

  \<^bold>\<open>The theories\<close>, in the order of the layers:
  \<^item> \<open>Ketone_Base\<close>: word types, faults, counted loops with their rules, alignment and rounding.
  \<^item> \<open>Allocator\<close> (\<^verbatim>\<open>mem_manager/allocator.c\<close>), \<open>Allocator_Table\<close> (the block table and the searches as
    functions of it), \<open>Provider\<close> (locales of an allocator and of one that reclaims), \<open>Allocator_Props\<close>
    (first fit, live runs as the abstract view, round trips, the interpretations).
  \<^item> \<open>Utils\<close> (\<^verbatim>\<open>utils.c\<close>), \<open>Bump_Alloc\<close> (\<^verbatim>\<open>bump_allocator.c\<close>), \<open>Io\<close> and \<open>Serial\<close>
    (\<^verbatim>\<open>io/\<close>), \<open>Serial_Props\<close> (what is transmitted on a UART that answers).
  \<^item> \<open>Machine\<close> (state, sequencing, little-endian fields), \<open>Acpi\<close> (\<^verbatim>\<open>drivers/acpi\<close>).
  \<^item> \<open>Mem_Manager\<close> (\<^verbatim>\<open>mem_manager/manager.c\<close>), \<open>Mmio_Hole\<close>, \<open>Mem_Map\<close>, \<open>Mem_Props\<close>, \<open>Mem_Layout\<close>
    (sorted ranges and the widest gap, regions of the map, placement and disjointness of the heaps),
    \<open>Kernel_Heap\<close> (what \<^verbatim>\<open>kalloc\<close> promises when there is room), \<open>Heap_Arrays\<close> (arrays that are
    replaced while they grow), \<open>Heap_Sessions\<close> (all that a client can do with a heap, as a transition system).
  \<^item> \<open>Disk\<close>, \<open>Ata\<close>, \<open>Sata\<close>, \<open>Sata_Disks\<close> (\<^verbatim>\<open>drivers/disk\<close>). \<open>Ata_Drive\<close> (a drive as the command set has it: selection, one
    sector by LBA, busy for a while) and \<open>Ata_Props\<close> (reads and writes on it); \<open>Byte_Runs\<close> (runs of memory and what a routine
    changes), \<open>Ahci\<close> (a controller port as the specification has it), \<open>Sata_Props\<close> (a sector read through it).
    \<open>Block_Device\<close> states what the file systems rely on as the locale \<open>block_reader\<close>, with the memory \<open>own\<close> that a driver
    changes beside the buffer, and interprets it on \<open>read_disk\<close> with an ATA disk (\<open>ata_disk\<close>, which changes nothing else);
    \<open>Sata_Reader\<close> interprets it with an AHCI disk (\<open>sata_disk\<close>).
  \<^item> \<open>Mbr\<close>, \<open>Mbr_Props\<close> (\<^verbatim>\<open>drivers/fs/mbr\<close>), \<open>Exfat\<close>, \<open>Byte_Order\<close>, \<open>Exfat_Read\<close>, \<open>Exfat_Props\<close>
    (\<^verbatim>\<open>drivers/fs/exfat\<close>), \<open>Demo_Disk\<close> (the disk, heap and machine of the witnesses). \<open>Exfat_Dir\<close> says
    what a directory's bytes mean (\<open>scan_for\<close>, \<open>dir_search\<close>, \<open>resolve\<close>); \<open>Exfat_Scan\<close>, \<open>Exfat_Find\<close>,
    \<open>Exfat_Open\<close> and \<open>Exfat_Lookup\<close> show that the code finds it: in a cluster, a directory, along a path;
    \<open>Exfat_Mount\<close> is about \<^verbatim>\<open>EXFAT_init\<close>, \<open>Demo_Volume\<close> has the volume of the witnesses.
  \<^item> \<open>Pcie\<close>, \<open>Component_Bus\<close> (\<^verbatim>\<open>drivers/component_bus\<close>), \<open>Pcie_Props\<close> (sizing a register),
    \<open>Bus_Props\<close> (the searches for devices).
  \<^item> \<open>Kernel\<close> (\<^verbatim>\<open>kernel.c\<close>): \<open>init_kernel\<close> and \<open>kernel_main\<close>, composed as in the source;
    \<open>Hello\<close> composes the drivers' lemmas, inside \<open>block_reader\<close>, for the loop body that prints a file, and states the result
    for the AHCI disks that \<open>kernel_main\<close> visits.

  \<^bold>\<open>What is abstracted.\<close>
  \<^item> Sectors, firmware tables, names and the structures shared with a controller are bytes in memory.
    Heaps with their block tables, the memory map behind its pointer, devices, disks, partitions and open
    files are typed objects: a pointer to one is its address with the object, or \<open>None\<close> for NULL. What fresh memory
    holds, read as such an object, is a parameter (\<open>raw\<close>); page faults are not modelled.
  \<^item> Above \<open>Serial_Props\<close> the console is the text that was printed; there a string is shown to be what the
    UART transmits, byte for byte, when it answers.
  \<^item> Hardware is the record \<open>hardware\<close>: answers to port and register reads as functions of the history of
    accesses, and the memory that bus masters have changed. Properties that need a device state its
    behaviour as a hypothesis (\<open>ata_answers\<close>, \<open>ahci_answers\<close>, \<open>bar_device\<close>) and have a witness with a device that
    satisfies it. The ATA drive is any that follows the protocol and is never busy for the million polls that the driver makes; it
    promises nothing once the host has broken the protocol.
  \<^item> The null pointer is address 0: a structure that the source would place there is the fault \<open>NullDeref\<close>
    when it is written through (\<open>low_heap_init\<close>).
  \<^item> \<^verbatim>\<open>k_bump_alloc_aligned\<close> lacks a return statement; what the caller finds in the return register is
    the parameter \<open>rax\<close>. Local structures of a routine are at the stack address \<open>sp\<close>.
  \<^item> The base address of an MCFG entry is read once for each function that is probed, not before each access.
  \<^item> The result of \<open>kernel_main\<close> is the state in which it halts at its end.

  \<^bold>\<open>Not modelled.\<close> The boot loader (assembly), the linker script and the makefile.

  \<^bold>\<open>What is proved.\<close> The properties stand in the theories of their component, each behind its number. For the heaps:
  exact results of every allocation and release, an invariant of all states a client can reach, refinement to sets of live runs, disjointness for
  series of requests, placement of all heaps by initialisation and what its record of the
  configuration space misses. For the byte and string routines, the
  console and ACPI: functional correctness. For the ATA driver: the sector that is read and written, on any
  drive that follows the protocol, the need to wait after a write, and the time-out. For the AHCI driver: the sector that is read, with all the
  memory that changes, some of it not the driver's. For the file systems: the partition table, the FAT, and the contents of a file over
  any cluster chain, the lookup of a path through directories of any size, with the heap left exact; and, composed, that the kernel
  prints the file it looks for, from an AHCI disk. For PCI Express: sizing on a device that follows
  the specification; for the component bus: the searches.

  \<^bold>\<open>Plan.\<close> The remapping of registers; the discovery of disks on a controller; the initialisation of the kernel
  as a whole.
\<close>

end
